(* ===== verification/Go_Prelude.thy ===== *)
theory Go_Prelude
  imports "HOL-Library.Finite_Map" "HOL-Library.List_Lexorder" "HOL-Library.Char_ord"
begin

text \<open>
  What the component theories share: the reading of Go's data (a \<open>string\<close> is a list of
  bytes, compared byte by byte; a map is a finite map; a \<open>map[K]struct{}\<close> is a finite
  set), the unspecified order of \<open>range\<close> over a map, the parent links of a forest of
  named nodes, and the collections of rewrite rules the proofs use.
\<close>

named_theorems store_simps \<open>what a store operation returns and leaves behind\<close>
named_theorems frame_simps \<open>the fields an operation does not write\<close>
named_theorems enf_defs \<open>the bodies of the enforcer's operations\<close>

section \<open>Go maps and sets\<close>

type_synonym ('k, 'v) gomap = "('k, 'v) fmap"
type_synonym 'k goset = "'k fset"

text \<open>
  The order in which \<open>range\<close> visits the keys of a map is unspecified. A function that
  ranges over a map takes the order as a parameter; the only thing known about it is that
  it visits every key once.
\<close>

definition go_range :: "('a fset \<Rightarrow> 'a list) \<Rightarrow> bool" where
  "go_range ord \<longleftrightarrow> (\<forall>S. distinct (ord S) \<and> set (ord S) = fset S)"

lemma go_rangeD [simp]:
  assumes "go_range ord"
  shows "distinct (ord S)" and "set (ord S) = fset S"
  using assms by (simp_all add: go_range_def)

lemma go_range_sorted [simp]: "go_range sorted_list_of_fset"
  by (simp add: go_range_def sorted_list_of_fset.rep_eq)

text \<open>A lookup in a map of sets; a missing key reads as the empty set, as in Go.\<close>

definition set_at :: "('k, 'v goset) gomap \<Rightarrow> 'k \<Rightarrow> 'v goset" where
  "set_at m k = (case fmlookup m k of None \<Rightarrow> {||} | Some S \<Rightarrow> S)"

lemma set_at_empty [simp]: "set_at fmempty k = {||}"
  by (simp add: set_at_def)

lemma set_at_upd [simp]: "set_at (fmupd k S m) k' = (if k = k' then S else set_at m k')"
  by (simp add: set_at_def)

lemma set_at_drop [simp]: "set_at (fmdrop k m) k' = (if k = k' then {||} else set_at m k')"
  by (simp add: set_at_def)

lemma set_at_map [simp]:
  assumes "f {||} = {||}"
  shows "set_at (fmmap f m) k = f (set_at m k)"
  using assms by (simp add: set_at_def split: option.split)

lemma fset_of_list_in [simp]: "x |\<in>| fset_of_list xs \<longleftrightarrow> x \<in> set xs"
  by (rule fset_of_list_elem)

lemma fmdom_lookup: "k |\<in>| fmdom m \<longleftrightarrow> (\<exists>v. fmlookup m k = Some v)"
  by (auto simp: fmlookup_dom_iff)

lemma fmdom_notin: "k |\<notin>| fmdom m \<longleftrightarrow> fmlookup m k = None"
  by (auto simp: fmdom_lookup)

lemma fmdrop_missing [simp]: "fmlookup m k = None \<Longrightarrow> fmdrop k m = m"
  by (rule fmap_ext) auto

lemma fmupd_same [simp]: "fmlookup m k = Some v \<Longrightarrow> fmupd k v m = m"
  by (rule fmap_ext) auto

lemma distinct_map_sort_key [simp]: "distinct (map f (sort_key f xs)) = distinct (map f xs)"
  by (simp add: distinct_map)

lemma distinct_concat_tagged:
  assumes "distinct ks" and "\<And>k. k \<in> set ks \<Longrightarrow> distinct (f k)"
    and "\<And>k k'. k \<noteq> k' \<Longrightarrow> set (f k) \<inter> set (f k') = {}"
  shows "distinct (concat (map f ks))"
  using assms(1,2) by (induction ks) (use assms(3) in fastforce)+

text \<open>A list has one split at the first occurrence of an element.\<close>

lemma first_split_unique:
  assumes "c \<notin> set xs" and "c \<notin> set xs'"
  shows "xs @ c # ys = xs' @ c # ys' \<longleftrightarrow> xs = xs' \<and> ys = ys'"
  using assms
proof (induction xs arbitrary: xs')
  case Nil
  then show ?case
    by (cases xs') auto
next
  case (Cons x xs)
  then show ?case
    by (cases xs') auto
qed

section \<open>Parent links\<close>

text \<open>
  A finite map of single parent links, and the nodes reachable upwards from a set of
  start nodes. A link may point to a name that is not a key.
\<close>

definition up_rel :: "('a \<Rightarrow> 'a option) \<Rightarrow> ('a \<times> 'a) set" where
  "up_rel par = {(a, b). par a = Some b}"

definition up_closure :: "('a \<Rightarrow> 'a option) \<Rightarrow> 'a set \<Rightarrow> 'a set" where
  "up_closure par A = (up_rel par)\<^sup>* `` A"

lemma up_rel_iff [simp]: "(a, b) \<in> up_rel par \<longleftrightarrow> par a = Some b"
  by (simp add: up_rel_def)

lemma up_closure_base: "a \<in> A \<Longrightarrow> a \<in> up_closure par A"
  by (auto simp: up_closure_def)

lemma up_closure_step: "a \<in> up_closure par A \<Longrightarrow> par a = Some b \<Longrightarrow> b \<in> up_closure par A"
  unfolding up_closure_def by (blast intro: rtrancl_into_rtrancl up_rel_iff [THEN iffD2])

lemma up_closure_least:
  assumes "A \<subseteq> B" and "\<And>a b. a \<in> B \<Longrightarrow> par a = Some b \<Longrightarrow> b \<in> B"
  shows "up_closure par A \<subseteq> B"
proof
  fix x
  assume "x \<in> up_closure par A"
  then obtain a where "a \<in> A" and "(a, x) \<in> (up_rel par)\<^sup>*"
    by (auto simp: up_closure_def)
  from this(2) show "x \<in> B"
    by (induction rule: rtrancl_induct) (use \<open>a \<in> A\<close> assms in auto)
qed

lemma up_closure_mono: "A \<subseteq> B \<Longrightarrow> up_closure par A \<subseteq> up_closure par B"
  by (auto simp: up_closure_def)

text \<open>Links that differ only at a node that is not reached reach the same nodes.\<close>

lemma up_closure_cong:
  assumes "\<And>a. a \<in> up_closure par A \<Longrightarrow> par' a = par a"
  shows "up_closure par' A = up_closure par A"
proof
  show "up_closure par' A \<subseteq> up_closure par A"
    by (rule up_closure_least) (auto intro: up_closure_base up_closure_step simp: assms)
  have "up_closure par A \<subseteq> up_closure par' A \<inter> up_closure par A"
    by (rule up_closure_least)
      (auto intro: up_closure_base up_closure_step simp: assms[symmetric])
  then show "up_closure par A \<subseteq> up_closure par' A"
    by blast
qed

text \<open>
  A node that is not a start node and that no reached node links to is not reached.
\<close>

lemma up_closure_no_child:
  assumes "x \<notin> A" and "\<And>a. par a \<noteq> Some x"
  shows "x \<notin> up_closure par A"
proof -
  have "up_closure par A \<subseteq> - {x}"
    by (rule up_closure_least) (use assms in auto)
  then show ?thesis
    by blast
qed

section \<open>Codecs\<close>

text \<open>
  What a partial codec promises: the decoder recovers what was encoded, so no two sources
  share a text; a text it accepts is the canonical one exactly if encoding gives it back.
\<close>

locale partial_codec =
  fixes enc :: "'a \<Rightarrow> 'b" and dec :: "'b \<Rightarrow> 'e + 'a" and src :: "'a \<Rightarrow> bool"
  assumes dec_enc: "src x \<Longrightarrow> dec (enc x) = Inr x"
begin

lemma enc_inj: "src x \<Longrightarrow> src y \<Longrightarrow> enc x = enc y \<longleftrightarrow> x = y"
  using dec_enc by (metis sum.inject(2))

lemma enc_accepted: "src x \<Longrightarrow> \<exists>y. dec (enc x) = Inr y"
  using dec_enc by blast

end

end
