(* ===== verification/Model_Types.thy ===== *)
theory Model_Types
  imports Go_Prelude
begin

text \<open>
  The package \<open>model\<close>: permissions with their parser, printer and wildcard matching
  (\<open>model/permission.go\<close>), roles, users, and the errors of the RBAC core as values of
  one datatype (\<open>model/errors.go\<close>, \<open>store/errors.go\<close>, \<open>authz/errors.go\<close>).
\<close>

section \<open>Permissions\<close>

record permission =
  Resource :: string
  Action :: string

datatype parse_error =
    EmptyPermission
  | MissingAction string
  | EmptyResource string
  | EmptyAction string

text \<open>\<open>strings.IndexByte\<close>: the first position of a byte, or \<open>-1\<close>.\<close>

fun IndexByte :: "string \<Rightarrow> char \<Rightarrow> int" where
  "IndexByte [] c = - 1"
| "IndexByte (x # xs) c =
     (if x = c then 0 else let i = IndexByte xs c in if i < 0 then - 1 else i + 1)"

definition ParsePermission :: "string \<Rightarrow> parse_error + permission" where
  "ParsePermission s =
     (if s = '''' then Inl EmptyPermission
      else if s = ''*'' then Inr \<lparr>Resource = ''*'', Action = ''''\<rparr>
      else let i = IndexByte s (CHR '':'') in
        if i < 0 then Inl (MissingAction s)
        else if i = 0 then Inl (EmptyResource s)
        else if i = int (length s) - 1 then Inl (EmptyAction s)
        else Inr \<lparr>Resource = take (nat i) s, Action = drop (nat i + 1) s\<rparr>)"

definition Permission_String :: "permission \<Rightarrow> string" where
  "Permission_String p = Resource p @ '':'' @ Action p"

definition Matches :: "permission \<Rightarrow> permission \<Rightarrow> bool" where
  "Matches p required =
     (if p = required then True
      else if Resource p = ''*'' then True
      else if Resource p \<noteq> Resource required then False
      else Action p = ''*'' \<or> Action p = Action required)"

fun MatchesAny :: "permission \<Rightarrow> permission list \<Rightarrow> bool" where
  "MatchesAny p [] = False"
| "MatchesAny p (r # rs) = (if Matches p r then True else MatchesAny p rs)"

definition Permission_Valid :: "permission \<Rightarrow> bool" where
  "Permission_Valid p =
     (if Resource p = '''' then False else Resource p = ''*'' \<or> Action p \<noteq> '''')"

text \<open>\<open>MarshalText\<close> never fails; \<open>UnmarshalText\<close> writes its receiver only on success.\<close>

definition MarshalText :: "permission \<Rightarrow> parse_error + string" where
  "MarshalText p = Inr (Permission_String p)"

definition UnmarshalText :: "permission \<Rightarrow> string \<Rightarrow> parse_error option \<times> permission" where
  "UnmarshalText p text =
     (case ParsePermission text of
        Inl err \<Rightarrow> (Some err, p)
      | Inr parsed \<Rightarrow> (None, parsed))"

section \<open>Roles and users\<close>

type_synonym role_id = string
type_synonym user_id = string

record role =
  Name :: role_id
  Permissions :: "permission list"
  Parent :: role_id

record user =
  ID :: user_id
  Roles :: "role_id list"
  Direct :: "permission list"

fun any_matches :: "permission list \<Rightarrow> permission \<Rightarrow> bool" where
  "any_matches [] p = False"
| "any_matches (g # gs) p = (if Matches g p then True else any_matches gs p)"

definition Role_HasPermission :: "role \<Rightarrow> permission \<Rightarrow> bool" where
  "Role_HasPermission r p = any_matches (Permissions r) p"

section \<open>Errors\<close>

text \<open>
  The sentinel errors of the core, the structured denial, and the two shapes an error of a
  foreign store can have: an error of its own, or one that wraps another with \<open>%w\<close>.
  Go's \<open>err == sentinel\<close> is equality of these values, \<open>errors.Is\<close> unwraps.
\<close>

datatype lib_error =
    ErrUserNotFound
  | ErrRoleNotFound
  | ErrUserExists
  | ErrRoleExists
  | ErrEmptyName
  | ErrPermissionDenied
  | ErrInvalidPermission
  | ErrCyclicInheritance
  | ErrInheritanceDepth
  | ErrInvalidIdentityFunc
  | PermissionDeniedError user_id "user option" permission "role_id list"
  | ErrForeign string
  | ErrWrap string lib_error

fun Unwrap :: "lib_error \<Rightarrow> lib_error option" where
  "Unwrap (PermissionDeniedError uid u req rs) = Some ErrPermissionDenied"
| "Unwrap (ErrWrap msg e) = Some e"
| "Unwrap _ = None"

fun errors_Is :: "lib_error \<Rightarrow> lib_error \<Rightarrow> bool" where
  "errors_Is (PermissionDeniedError uid u req rs) target \<longleftrightarrow>
     PermissionDeniedError uid u req rs = target \<or> target = ErrPermissionDenied"
| "errors_Is (ErrWrap msg e) target \<longleftrightarrow> ErrWrap msg e = target \<or> errors_Is e target"
| "errors_Is e target \<longleftrightarrow> e = target"

section \<open>Matching\<close>

lemma Matches_iff:
  "Matches p q \<longleftrightarrow>
     Resource p = ''*'' \<or>
     (Resource p = Resource q \<and> (Action p = ''*'' \<or> Action p = Action q))"
  by (auto simp: Matches_def)

lemma Matches_refl [simp]: "Matches p p"
  by (simp add: Matches_def)

lemma MatchesAny_iff: "MatchesAny p rs \<longleftrightarrow> (\<exists>r \<in> set rs. Matches p r)"
  by (induction rs) auto

lemma any_matches_iff: "any_matches gs p \<longleftrightarrow> (\<exists>g \<in> set gs. Matches g p)"
  by (induction gs) auto

lemma Role_HasPermission_iff:
  "Role_HasPermission r p \<longleftrightarrow> (\<exists>g \<in> set (Permissions r). Matches g p)"
  by (simp add: Role_HasPermission_def any_matches_iff)

section \<open>Parsing\<close>

lemma IndexByte_absent: "IndexByte s c < 0 \<longleftrightarrow> c \<notin> set s"
  by (induction s) (auto simp: Let_def)

lemma IndexByte_append: "c \<notin> set xs \<Longrightarrow> IndexByte (xs @ c # ys) c = int (length xs)"
  by (induction xs) (auto simp: Let_def)

lemma IndexByte_split:
  assumes "c \<in> set s"
  obtains xs ys where "s = xs @ c # ys" and "c \<notin> set xs" and "IndexByte s c = int (length xs)"
proof -
  obtain xs ys where "s = xs @ c # ys" and "c \<notin> set xs"
    using split_list_first [OF assms] by blast
  then show ?thesis
    using that IndexByte_append by blast
qed

text \<open>What the parser answers, on each of its branches.\<close>

lemma ParsePermission_split:
  assumes "CHR '':'' \<notin> set xs"
  shows "ParsePermission (xs @ CHR '':'' # ys) =
    (if xs = '''' then Inl (EmptyResource (xs @ CHR '':'' # ys))
     else if ys = '''' then Inl (EmptyAction (xs @ CHR '':'' # ys))
     else Inr \<lparr>Resource = xs, Action = ys\<rparr>)"
proof -
  have star: "xs @ CHR '':'' # ys \<noteq> ''*''"
    by (cases xs) auto
  have i: "IndexByte (xs @ CHR '':'' # ys) (CHR '':'') = int (length xs)"
    using assms by (rule IndexByte_append)
  show ?thesis
    unfolding ParsePermission_def by (simp only: i star Let_def) auto
qed

lemma ParsePermission_no_colon:
  "CHR '':'' \<notin> set s \<Longrightarrow> s \<noteq> '''' \<Longrightarrow> s \<noteq> ''*'' \<Longrightarrow> ParsePermission s = Inl (MissingAction s)"
  by (simp add: ParsePermission_def IndexByte_absent Let_def)

lemma ParsePermission_cases:
  obtains (empty) "s = ''''" | (star) "s = ''*''"
  | (no_colon) "CHR '':'' \<notin> set s" "s \<noteq> ''''" "s \<noteq> ''*''"
  | (colon) xs ys where "s = xs @ CHR '':'' # ys" "CHR '':'' \<notin> set xs"
proof (cases "CHR '':'' \<in> set s")
  case True
  then show ?thesis
    using colon IndexByte_split by metis
next
  case False
  then show ?thesis
    using empty star no_colon by blast
qed

section \<open>Properties\<close>

text \<open>C35: \<open>ParsePermission\<close> accepts exactly \<open>*\<close>, which it reads as the resource \<open>*\<close> with no
action, and the printed forms of permissions whose resource is not empty and has no colon and whose
action is not empty, which it reads back; a colon in the action is kept.\<close>

theorem parse_permission_exact:
  "ParsePermission s = Inr p \<longleftrightarrow>
     s = ''*'' \<and> p = \<lparr>Resource = ''*'', Action = ''''\<rparr> \<or>
     Resource p \<noteq> '''' \<and> CHR '':'' \<notin> set (Resource p) \<and> Action p \<noteq> '''' \<and> s = Permission_String p"
proof (cases s rule: ParsePermission_cases)
  case (no_colon)
  then show ?thesis
    by (auto simp: ParsePermission_no_colon Permission_String_def)
next
  case (colon xs ys)
  have "s \<noteq> ''*''"
    using colon by (cases xs) auto
  moreover have "s = Permission_String p \<and> CHR '':'' \<notin> set (Resource p) \<longleftrightarrow> Resource p = xs \<and> Action p = ys"
    using colon first_split_unique [of "CHR '':''" xs "Resource p" ys "Action p"]
    by (auto simp: Permission_String_def)
  ultimately show ?thesis
    using colon by (cases p) (auto simp: ParsePermission_split)
next
  case star
  have "Permission_String p \<noteq> ''*''"
    by (cases "Resource p") (auto simp: Permission_String_def)
  with star show ?thesis
    by (auto simp: ParsePermission_def)
qed (auto simp: ParsePermission_def Permission_String_def)

text \<open>C39: The text form of a valid permission is read back unchanged exactly if its action is not
empty and its resource has no colon. The permission that grants everything, the resource \<open>*\<close>
without an action, is valid and is printed as \<open>*:\<close>, which \<open>UnmarshalText\<close> rejects.\<close>

theorem text_round_trip_exact:
  assumes "Permission_Valid p"
  shows "(case MarshalText p of
      Inl err \<Rightarrow> False | Inr text \<Rightarrow> UnmarshalText q text = (None, p)) \<longleftrightarrow>
    Action p \<noteq> '''' \<and> CHR '':'' \<notin> set (Resource p)"
proof (cases p)
  case (fields r a)
  show ?thesis
  proof (cases "CHR '':'' \<in> set r")
    case True
    then obtain xs ys where "r = xs @ CHR '':'' # ys" and xs: "CHR '':'' \<notin> set xs"
      by (auto dest: split_list_first)
    then show ?thesis
      using fields ParsePermission_split [OF xs, of "ys @ CHR '':'' # a"]
      by (auto simp: MarshalText_def UnmarshalText_def Permission_String_def)
  next
    case False
    then show ?thesis
      using fields assms ParsePermission_split [OF False, of a]
      by (auto simp: MarshalText_def UnmarshalText_def Permission_String_def Permission_Valid_def)
  qed
qed

theorem text_round_trip_exact_witness:
  "Permission_Valid \<lparr>Resource = ''*'', Action = ''''\<rparr> \<and>
   UnmarshalText \<lparr>Resource = ''x'', Action = ''y''\<rparr> ''*:'' \<noteq> (None, \<lparr>Resource = ''*'', Action = ''''\<rparr>)"
proof -
  have "Permission_Valid \<lparr>Resource = ''*'', Action = ''''\<rparr>"
    by (simp add: Permission_Valid_def)
  with text_round_trip_exact [OF this, of "\<lparr>Resource = ''x'', Action = ''y''\<rparr>"]
  show ?thesis
    by (simp add: MarshalText_def Permission_String_def)
qed

end
