(* ===== verification/Store_Memory.thy ===== *)
theory Store_Memory
  imports Model_Types
begin

text \<open>
  The package \<open>store\<close>: the \<open>Store\<close> interface (\<open>store/store.go\<close>) as a record of
  operations on a state, its contract as the locale \<open>store_contract\<close>, and
  \<open>MemoryStore\<close> (\<open>store/memory*.go\<close>), which is shown to meet the contract.
  A pointer argument is an option, \<open>None\<close> standing for \<open>nil\<close>; a returned \<open>error\<close> is an
  option with \<open>None\<close> for \<open>nil\<close>. Every method holds the store's lock from its first
  access to the maps to its return, so it is one step on the state.
\<close>

section \<open>The interface\<close>

record 's store_ops =
  st_CreateUser :: "user option \<Rightarrow> 's \<Rightarrow> lib_error option \<times> 's"
  st_UpdateUser :: "user option \<Rightarrow> 's \<Rightarrow> lib_error option \<times> 's"
  st_GetUser :: "user_id \<Rightarrow> 's \<Rightarrow> lib_error + user"
  st_DeleteUser :: "user_id \<Rightarrow> 's \<Rightarrow> lib_error option \<times> 's"
  st_ListUsers :: "'s \<Rightarrow> lib_error + user list"
  st_CreateRole :: "role option \<Rightarrow> 's \<Rightarrow> lib_error option \<times> 's"
  st_UpdateRole :: "role option \<Rightarrow> 's \<Rightarrow> lib_error option \<times> 's"
  st_GetRole :: "role_id \<Rightarrow> 's \<Rightarrow> lib_error + role"
  st_DeleteRole :: "role_id \<Rightarrow> 's \<Rightarrow> lib_error option \<times> 's"
  st_ListRoles :: "'s \<Rightarrow> lib_error + role list"

text \<open>
  What a client may rely on. \<open>uof\<close> and \<open>rof\<close> read the users and roles a store holds;
  \<open>ok\<close> is the store's own invariant. A write that fails leaves the contents as they are,
  a write that succeeds changes one key, a read returns the object last written.
\<close>

locale store_contract =
  fixes ops :: "'s store_ops"
    and uof :: "'s \<Rightarrow> (user_id, user) gomap"
    and rof :: "'s \<Rightarrow> (role_id, role) gomap"
    and ok :: "'s \<Rightarrow> bool"
  assumes get_user: "ok s \<Longrightarrow> st_GetUser ops uid s =
      (case fmlookup (uof s) uid of None \<Rightarrow> Inl ErrUserNotFound | Some u \<Rightarrow> Inr u)"
    and get_role: "ok s \<Longrightarrow> st_GetRole ops r s =
      (case fmlookup (rof s) r of None \<Rightarrow> Inl ErrRoleNotFound | Some x \<Rightarrow> Inr x)"
    and create_user: "ok s \<Longrightarrow> fst (st_CreateUser ops (Some u) s) =
      (if ID u = '''' then Some ErrEmptyName
       else if ID u |\<in>| fmdom (uof s) then Some ErrUserExists else None)"
    and create_user_uof: "ok s \<Longrightarrow> uof (snd (st_CreateUser ops (Some u) s)) =
      (if ID u = '''' \<or> ID u |\<in>| fmdom (uof s) then uof s else fmupd (ID u) u (uof s))"
    and create_user_rof: "ok s \<Longrightarrow> rof (snd (st_CreateUser ops (Some u) s)) = rof s"
    and create_user_ok: "ok s \<Longrightarrow> ok (snd (st_CreateUser ops (Some u) s))"
    and update_user: "ok s \<Longrightarrow> fst (st_UpdateUser ops (Some u) s) =
      (if ID u = '''' then Some ErrEmptyName
       else if ID u |\<in>| fmdom (uof s) then None else Some ErrUserNotFound)"
    and update_user_uof: "ok s \<Longrightarrow> uof (snd (st_UpdateUser ops (Some u) s)) =
      (if ID u \<noteq> '''' \<and> ID u |\<in>| fmdom (uof s) then fmupd (ID u) u (uof s) else uof s)"
    and update_user_rof: "ok s \<Longrightarrow> rof (snd (st_UpdateUser ops (Some u) s)) = rof s"
    and update_user_ok: "ok s \<Longrightarrow> ok (snd (st_UpdateUser ops (Some u) s))"
    and delete_user: "ok s \<Longrightarrow> fst (st_DeleteUser ops uid s) =
      (if uid |\<in>| fmdom (uof s) then None else Some ErrUserNotFound)"
    and delete_user_uof: "ok s \<Longrightarrow> uof (snd (st_DeleteUser ops uid s)) = fmdrop uid (uof s)"
    and delete_user_rof: "ok s \<Longrightarrow> rof (snd (st_DeleteUser ops uid s)) = rof s"
    and delete_user_ok: "ok s \<Longrightarrow> ok (snd (st_DeleteUser ops uid s))"
    and create_role: "ok s \<Longrightarrow> fst (st_CreateRole ops (Some x) s) =
      (if Name x = '''' then Some ErrEmptyName
       else if Name x |\<in>| fmdom (rof s) then Some ErrRoleExists else None)"
    and create_role_rof: "ok s \<Longrightarrow> rof (snd (st_CreateRole ops (Some x) s)) =
      (if Name x = '''' \<or> Name x |\<in>| fmdom (rof s) then rof s else fmupd (Name x) x (rof s))"
    and create_role_uof: "ok s \<Longrightarrow> uof (snd (st_CreateRole ops (Some x) s)) = uof s"
    and create_role_ok: "ok s \<Longrightarrow> ok (snd (st_CreateRole ops (Some x) s))"
    and update_role: "ok s \<Longrightarrow> fst (st_UpdateRole ops (Some x) s) =
      (if Name x = '''' then Some ErrEmptyName
       else if Name x |\<in>| fmdom (rof s) then None else Some ErrRoleNotFound)"
    and update_role_rof: "ok s \<Longrightarrow> rof (snd (st_UpdateRole ops (Some x) s)) =
      (if Name x \<noteq> '''' \<and> Name x |\<in>| fmdom (rof s) then fmupd (Name x) x (rof s) else rof s)"
    and update_role_uof: "ok s \<Longrightarrow> uof (snd (st_UpdateRole ops (Some x) s)) = uof s"
    and update_role_ok: "ok s \<Longrightarrow> ok (snd (st_UpdateRole ops (Some x) s))"
    and delete_role: "ok s \<Longrightarrow> fst (st_DeleteRole ops r s) =
      (if r |\<in>| fmdom (rof s) then None else Some ErrRoleNotFound)"
    and delete_role_rof: "ok s \<Longrightarrow> rof (snd (st_DeleteRole ops r s)) = fmdrop r (rof s)"
    and delete_role_uof: "ok s \<Longrightarrow> uof (snd (st_DeleteRole ops r s)) = uof s"
    and delete_role_ok: "ok s \<Longrightarrow> ok (snd (st_DeleteRole ops r s))"
    and list_roles: "ok s \<Longrightarrow> \<exists>rs. st_ListRoles ops s = Inr rs \<and> distinct (map Name rs) \<and>
      (\<forall>x. x \<in> set rs \<longleftrightarrow> fmlookup (rof s) (Name x) = Some x)"
    and list_users: "ok s \<Longrightarrow> \<exists>us. st_ListUsers ops s = Inr us \<and> distinct (map ID us) \<and>
      (\<forall>u. u \<in> set us \<longleftrightarrow> fmlookup (uof s) (ID u) = Some u)"
    and user_key: "ok s \<Longrightarrow> fmlookup (uof s) uid = Some u \<Longrightarrow> ID u = uid \<and> uid \<noteq> ''''"
    and role_key: "ok s \<Longrightarrow> fmlookup (rof s) r = Some x \<Longrightarrow> Name x = r \<and> r \<noteq> ''''"
begin

lemmas contract [store_simps] =
  get_user get_role
  create_user create_user_uof create_user_rof create_user_ok
  update_user update_user_uof update_user_rof update_user_ok
  delete_user delete_user_uof delete_user_rof delete_user_ok
  create_role create_role_rof create_role_uof create_role_ok
  update_role update_role_rof update_role_uof update_role_ok
  delete_role delete_role_rof delete_role_uof delete_role_ok

text \<open>A write followed by a read of the same key.\<close>

lemma get_after_create_user:
  assumes "ok s" and "fst (st_CreateUser ops (Some u) s) = None"
  shows "st_GetUser ops (ID u) (snd (st_CreateUser ops (Some u) s)) = Inr u"
  using assms by (simp add: contract split: if_splits)

lemma get_after_update_role:
  assumes "ok s" and "fst (st_UpdateRole ops (Some x) s) = None"
  shows "st_GetRole ops (Name x) (snd (st_UpdateRole ops (Some x) s)) = Inr x"
  using assms by (simp add: contract split: if_splits)

lemma get_after_delete_user:
  assumes "ok s"
  shows "st_GetUser ops uid (snd (st_DeleteUser ops uid s)) = Inl ErrUserNotFound"
  using assms by (simp add: contract)

end

section \<open>MemoryStore\<close>

record memory_store =
  ms_users :: "(user_id, user) gomap"
  ms_roles :: "(role_id, role) gomap"

definition NewMemoryStore :: memory_store where
  "NewMemoryStore = \<lparr>ms_users = fmempty, ms_roles = fmempty\<rparr>"

text \<open>
  \<open>nil\<close> and the empty slice are both \<open>[]\<close>; a copy of a value is the value. What the
  defensive copies buy is that a caller cannot reach into the maps.
\<close>

definition cloneUser :: "user \<Rightarrow> user" where
  "cloneUser u =
     (let c = \<lparr>ID = ID u, Roles = [], Direct = []\<rparr>;
          c = (if 0 < length (Roles u) then c\<lparr>Roles := Roles u\<rparr> else c);
          c = (if 0 < length (Direct u) then c\<lparr>Direct := Direct u\<rparr> else c)
      in c)"

definition cloneRole :: "role \<Rightarrow> role" where
  "cloneRole r =
     (let c = \<lparr>Name = Name r, Permissions = [], Parent = Parent r\<rparr>;
          c = (if 0 < length (Permissions r) then c\<lparr>Permissions := Permissions r\<rparr> else c)
      in c)"

lemma cloneUser_id [simp]: "cloneUser u = u"
  by (cases u) (simp add: cloneUser_def Let_def)

lemma cloneRole_id [simp]: "cloneRole r = r"
  by (cases r) (simp add: cloneRole_def Let_def)

definition CreateUser_mem :: "user option \<Rightarrow> memory_store \<Rightarrow> lib_error option \<times> memory_store" where
  "CreateUser_mem u s =
     (case u of
        None \<Rightarrow> (Some ErrEmptyName, s)
      | Some u \<Rightarrow>
          if ID u = '''' then (Some ErrEmptyName, s)
          else (case fmlookup (ms_users s) (ID u) of
            Some _ \<Rightarrow> (Some ErrUserExists, s)
          | None \<Rightarrow> (None, s\<lparr>ms_users := fmupd (ID u) (cloneUser u) (ms_users s)\<rparr>)))"

definition UpdateUser_mem :: "user option \<Rightarrow> memory_store \<Rightarrow> lib_error option \<times> memory_store" where
  "UpdateUser_mem u s =
     (case u of
        None \<Rightarrow> (Some ErrEmptyName, s)
      | Some u \<Rightarrow>
          if ID u = '''' then (Some ErrEmptyName, s)
          else (case fmlookup (ms_users s) (ID u) of
            None \<Rightarrow> (Some ErrUserNotFound, s)
          | Some _ \<Rightarrow> (None, s\<lparr>ms_users := fmupd (ID u) (cloneUser u) (ms_users s)\<rparr>)))"

definition GetUser_mem :: "user_id \<Rightarrow> memory_store \<Rightarrow> lib_error + user" where
  "GetUser_mem uid s =
     (case fmlookup (ms_users s) uid of
        None \<Rightarrow> Inl ErrUserNotFound
      | Some u \<Rightarrow> Inr (cloneUser u))"

definition DeleteUser_mem :: "user_id \<Rightarrow> memory_store \<Rightarrow> lib_error option \<times> memory_store" where
  "DeleteUser_mem uid s =
     (case fmlookup (ms_users s) uid of
        None \<Rightarrow> (Some ErrUserNotFound, s)
      | Some _ \<Rightarrow> (None, s\<lparr>ms_users := fmdrop uid (ms_users s)\<rparr>))"

text \<open>The listings range over the map in the order \<open>ord\<close> and then sort by key.\<close>

definition ListUsers_mem ::
  "(user_id goset \<Rightarrow> user_id list) \<Rightarrow> memory_store \<Rightarrow> lib_error + user list" where
  "ListUsers_mem ord s =
     (let out = map (\<lambda>k. cloneUser (the (fmlookup (ms_users s) k))) (ord (fmdom (ms_users s)))
      in Inr (sort_key ID out))"

definition CreateRole_mem :: "role option \<Rightarrow> memory_store \<Rightarrow> lib_error option \<times> memory_store" where
  "CreateRole_mem r s =
     (case r of
        None \<Rightarrow> (Some ErrEmptyName, s)
      | Some r \<Rightarrow>
          if Name r = '''' then (Some ErrEmptyName, s)
          else (case fmlookup (ms_roles s) (Name r) of
            Some _ \<Rightarrow> (Some ErrRoleExists, s)
          | None \<Rightarrow> (None, s\<lparr>ms_roles := fmupd (Name r) (cloneRole r) (ms_roles s)\<rparr>)))"

definition UpdateRole_mem :: "role option \<Rightarrow> memory_store \<Rightarrow> lib_error option \<times> memory_store" where
  "UpdateRole_mem r s =
     (case r of
        None \<Rightarrow> (Some ErrEmptyName, s)
      | Some r \<Rightarrow>
          if Name r = '''' then (Some ErrEmptyName, s)
          else (case fmlookup (ms_roles s) (Name r) of
            None \<Rightarrow> (Some ErrRoleNotFound, s)
          | Some _ \<Rightarrow> (None, s\<lparr>ms_roles := fmupd (Name r) (cloneRole r) (ms_roles s)\<rparr>)))"

definition GetRole_mem :: "role_id \<Rightarrow> memory_store \<Rightarrow> lib_error + role" where
  "GetRole_mem name s =
     (case fmlookup (ms_roles s) name of
        None \<Rightarrow> Inl ErrRoleNotFound
      | Some r \<Rightarrow> Inr (cloneRole r))"

definition DeleteRole_mem :: "role_id \<Rightarrow> memory_store \<Rightarrow> lib_error option \<times> memory_store" where
  "DeleteRole_mem name s =
     (case fmlookup (ms_roles s) name of
        None \<Rightarrow> (Some ErrRoleNotFound, s)
      | Some _ \<Rightarrow> (None, s\<lparr>ms_roles := fmdrop name (ms_roles s)\<rparr>))"

definition ListRoles_mem ::
  "(role_id goset \<Rightarrow> role_id list) \<Rightarrow> memory_store \<Rightarrow> lib_error + role list" where
  "ListRoles_mem ord s =
     (let out = map (\<lambda>k. cloneRole (the (fmlookup (ms_roles s) k))) (ord (fmdom (ms_roles s)))
      in Inr (sort_key Name out))"

text \<open>
  The interface value. The listings do not depend on the visiting order (shown below), so
  one order is fixed here.
\<close>

definition memory_ops :: "memory_store store_ops" where
  "memory_ops =
     \<lparr>st_CreateUser = CreateUser_mem, st_UpdateUser = UpdateUser_mem,
      st_GetUser = GetUser_mem, st_DeleteUser = DeleteUser_mem,
      st_ListUsers = ListUsers_mem sorted_list_of_fset,
      st_CreateRole = CreateRole_mem, st_UpdateRole = UpdateRole_mem,
      st_GetRole = GetRole_mem, st_DeleteRole = DeleteRole_mem,
      st_ListRoles = ListRoles_mem sorted_list_of_fset\<rparr>"

lemmas memory_defs =
  memory_ops_def NewMemoryStore_def CreateUser_mem_def UpdateUser_mem_def GetUser_mem_def DeleteUser_mem_def
  ListUsers_mem_def CreateRole_mem_def UpdateRole_mem_def GetRole_mem_def DeleteRole_mem_def
  ListRoles_mem_def

section \<open>The memory store's invariant\<close>

text \<open>Every object is filed under its own name, and no name is empty.\<close>

definition memory_ok :: "memory_store \<Rightarrow> bool" where
  "memory_ok s \<longleftrightarrow>
     fmpred (\<lambda>k u. ID u = k \<and> k \<noteq> '''') (ms_users s) \<and>
     fmpred (\<lambda>k r. Name r = k \<and> k \<noteq> '''') (ms_roles s)"

lemma memory_ok_new: "memory_ok NewMemoryStore"
  by (simp add: memory_ok_def NewMemoryStore_def)

lemma memory_okD:
  assumes "memory_ok s"
  shows "fmlookup (ms_users s) k = Some u \<Longrightarrow> ID u = k \<and> k \<noteq> ''''"
    and "fmlookup (ms_roles s) k = Some r \<Longrightarrow> Name r = k \<and> k \<noteq> ''''"
  using assms by (auto simp: memory_ok_def dest: fmpredD)

text \<open>
  A listing names every object once, sorted by key; so it does not depend on the order in
  which the map was visited.
\<close>

lemma listing_sorted_unique:
  assumes ord: "go_range ord"
    and key: "\<And>k x. fmlookup m k = Some x \<Longrightarrow> key x = k"
  defines "out \<equiv> sort_key key (map (\<lambda>k. the (fmlookup m k)) (ord (fmdom m)))"
  shows "map key out = sorted_list_of_fset (fmdom m)"
    and "x \<in> set out \<longleftrightarrow> fmlookup m (key x) = Some x"
proof -
  let ?l = "map (\<lambda>k. the (fmlookup m k)) (ord (fmdom m))"
  have keys: "map key ?l = ord (fmdom m)"
    using ord key by (auto simp: comp_def fmdom_lookup intro!: map_idI)
  have dist: "distinct (map key ?l)"
    using ord by (simp only: keys go_rangeD)
  have "sorted (map key out)"
    by (simp add: out_def)
  moreover have "distinct (map key out)"
    using dist by (simp only: out_def distinct_map_sort_key)
  moreover have "set (map key out) = fset (fmdom m)"
    using keys ord by (metis go_rangeD(2) list.set_map out_def set_sort)
  ultimately show "map key out = sorted_list_of_fset (fmdom m)"
    by (metis sorted_distinct_set_unique go_rangeD go_range_sorted sorted_list_of_fset.rep_eq
        sorted_list_of_set(2))
  show "x \<in> set out \<longleftrightarrow> fmlookup m (key x) = Some x"
    using ord key by (force simp: out_def fmdom_lookup image_iff)
qed

lemma listing_any_order:
  assumes "go_range ord" and key: "\<And>k x. fmlookup m k = Some x \<Longrightarrow> key x = k"
  shows "sort_key key (map (\<lambda>k. the (fmlookup m k)) (ord (fmdom m))) =
    map (\<lambda>k. the (fmlookup m k)) (sorted_list_of_fset (fmdom m))" (is "?out = _")
proof -
  have "the (fmlookup m (key x)) = x" if "x \<in> set ?out" for x
    using listing_sorted_unique(2) [of ord m key] assms that by (metis option.sel)
  then have "map (\<lambda>k. the (fmlookup m k)) (map key ?out) = ?out"
    unfolding map_map comp_def by (rule map_idI)
  then show ?thesis
    by (simp only: listing_sorted_unique(1) [OF assms])
qed

lemma ListUsers_mem_order:
  assumes "go_range ord" and "memory_ok s"
  shows "ListUsers_mem ord s = ListUsers_mem sorted_list_of_fset s"
  using listing_any_order [of _ "ms_users s" ID] assms memory_okD(1) [OF assms(2)]
  by (simp add: ListUsers_mem_def)

lemma ListRoles_mem_order:
  assumes "go_range ord" and "memory_ok s"
  shows "ListRoles_mem ord s = ListRoles_mem sorted_list_of_fset s"
  using listing_any_order [of _ "ms_roles s" Name] assms memory_okD(2) [OF assms(2)]
  by (simp add: ListRoles_mem_def)

section \<open>The memory store meets the contract\<close>

interpretation mem: store_contract memory_ops ms_users ms_roles memory_ok
proof (unfold_locales, goal_cases)
  case (27 s)
  then show ?case
    using listing_sorted_unique [OF go_range_sorted, of "ms_roles s" Name] memory_okD(2) [OF 27]
    by (auto simp: memory_defs)
next
  case (28 s)
  then show ?case
    using listing_sorted_unique [OF go_range_sorted, of "ms_users s" ID] memory_okD(1) [OF 28]
    by (auto simp: memory_defs)
qed (auto simp: memory_defs memory_ok_def fmdom_lookup dest: fmpredD split: option.split)

section \<open>Properties\<close>

text \<open>A listing of the memory store does not depend on the order in which Go visits the map: it
names every stored object exactly once, in ascending order of its key.\<close>

theorem listings_deterministic:
  assumes "go_range ord" and "memory_ok s"
  shows "ListUsers_mem ord s = ListUsers_mem sorted_list_of_fset s \<and>
    ListRoles_mem ord s = ListRoles_mem sorted_list_of_fset s \<and>
    (\<exists>us rs. ListUsers_mem ord s = Inr us \<and> ListRoles_mem ord s = Inr rs \<and>
       map ID us = sorted_list_of_fset (fmdom (ms_users s)) \<and>
       map Name rs = sorted_list_of_fset (fmdom (ms_roles s)))"
  using ListUsers_mem_order [OF assms] ListRoles_mem_order [OF assms]
    listing_sorted_unique(1) [OF go_range_sorted, of "ms_users s" ID]
    listing_sorted_unique(1) [OF go_range_sorted, of "ms_roles s" Name] memory_okD [OF assms(2)]
  by (simp add: ListUsers_mem_def ListRoles_mem_def)

theorem listings_deterministic_witness:
  "let s = \<lparr>ms_users = fmupd ''b'' \<lparr>ID = ''b'', Roles = [], Direct = []\<rparr>
              (fmupd ''a'' \<lparr>ID = ''a'', Roles = [], Direct = []\<rparr> fmempty), ms_roles = fmempty\<rparr> in
   ListUsers_mem (\<lambda>S. rev (sorted_list_of_fset S)) s =
     Inr [\<lparr>ID = ''a'', Roles = [], Direct = []\<rparr>, \<lparr>ID = ''b'', Roles = [], Direct = []\<rparr>]"
proof -
  let ?s = "\<lparr>ms_users = fmupd ''b'' \<lparr>ID = ''b'', Roles = [], Direct = []\<rparr>
    (fmupd ''a'' \<lparr>ID = ''a'', Roles = [], Direct = []\<rparr> fmempty), ms_roles = fmempty\<rparr>"
  have "go_range (\<lambda>S. rev (sorted_list_of_fset S) :: string list)"
    using go_range_sorted by (simp add: go_range_def)
  moreover have "memory_ok ?s"
    by (auto simp: memory_ok_def fmpred_iff)
  ultimately have "ListUsers_mem (\<lambda>S. rev (sorted_list_of_fset S)) ?s =
      ListUsers_mem sorted_list_of_fset ?s"
    using listings_deterministic by blast
  moreover have "ListUsers_mem sorted_list_of_fset ?s =
      Inr [\<lparr>ID = ''a'', Roles = [], Direct = []\<rparr>, \<lparr>ID = ''b'', Roles = [], Direct = []\<rparr>]"
    by code_simp
  ultimately show ?thesis
    by (simp add: Let_def)
qed

end
