(* ===== verification/Authz_State.thy ===== *)
theory Authz_State
  imports Store_Memory
begin

text \<open>
  \<open>authz/authz.go\<close>: the granted-permission index \<open>grantedSet\<close>, the \<open>Enforcer\<close> with its
  three caches, its options and constructor, and the short critical sections that
  maintain the caches. \<open>'s\<close> is the state of the backing store; the store's operations
  are passed as a \<open>store_ops\<close> value, Go's interface value.
\<close>

section \<open>grantedSet\<close>

record granted_set =
  byResource :: "(string, string goset) gomap"

definition new_grantedSet :: granted_set where
  "new_grantedSet = \<lparr>byResource = fmempty\<rparr>"

definition gs_add :: "granted_set \<Rightarrow> permission \<Rightarrow> granted_set" where
  "gs_add g p =
     (let actions = (case fmlookup (byResource g) (Resource p) of None \<Rightarrow> {||} | Some a \<Rightarrow> a)
      in g\<lparr>byResource := fmupd (Resource p) (finsert (Action p) actions) (byResource g)\<rparr>)"

text \<open>The receiver of \<open>has\<close> may be \<open>nil\<close>.\<close>

definition gs_has :: "granted_set option \<Rightarrow> permission \<Rightarrow> bool" where
  "gs_has g required =
     (case g of
        None \<Rightarrow> False
      | Some g \<Rightarrow>
          if ''*'' |\<in>| fmdom (byResource g) then True
          else (case fmlookup (byResource g) (Resource required) of
            None \<Rightarrow> False
          | Some actions \<Rightarrow>
              if ''*'' |\<in>| actions then True else Action required |\<in>| actions))"

definition gs_flatten ::
  "(string goset \<Rightarrow> string list) \<Rightarrow> granted_set \<Rightarrow> permission list" where
  "gs_flatten ord g =
     concat (map (\<lambda>r. map (\<lambda>a. \<lparr>Resource = r, Action = a\<rparr>) (ord (set_at (byResource g) r)))
       (ord (fmdom (byResource g))))"

text \<open>
  The permissions the index holds, and its invariant: no resource is filed with no action
  (\<open>has\<close> looks at the mere presence of the key \<open>*\<close>).
\<close>

definition gs_perms :: "granted_set \<Rightarrow> permission set" where
  "gs_perms g = {p. Action p |\<in>| set_at (byResource g) (Resource p)}"

definition gs_wf :: "granted_set \<Rightarrow> bool" where
  "gs_wf g \<longleftrightarrow> fmpred (\<lambda>r a. a \<noteq> {||}) (byResource g)"

text \<open>What a permission index promises its clients, and what they get from it.\<close>

locale permission_index =
  fixes new :: "'g"
    and add :: "'g \<Rightarrow> permission \<Rightarrow> 'g"
    and has :: "'g \<Rightarrow> permission \<Rightarrow> bool"
    and perms :: "'g \<Rightarrow> permission set"
    and wf :: "'g \<Rightarrow> bool"
  assumes perms_new: "perms new = {}"
    and wf_new: "wf new"
    and perms_add: "perms (add g p) = insert p (perms g)"
    and wf_add: "wf g \<Longrightarrow> wf (add g p)"
    and has_perms: "wf g \<Longrightarrow> has g q \<longleftrightarrow> (\<exists>p \<in> perms g. Matches p q)"
begin

lemma perms_foldl: "perms (foldl add g ps) = perms g \<union> set ps"
  by (induction ps arbitrary: g) (auto simp: perms_add)

lemma wf_foldl: "wf g \<Longrightarrow> wf (foldl add g ps)"
  by (induction ps arbitrary: g) (auto simp: wf_add)

text \<open>An index built from a list of grants answers as a scan of the list would.\<close>

lemma has_built: "has (foldl add new ps) q \<longleftrightarrow> any_matches ps q"
  by (simp add: has_perms wf_foldl wf_new perms_foldl perms_new any_matches_iff)

lemma has_mono: "wf g \<Longrightarrow> has g q \<Longrightarrow> has (add g p) q"
  by (auto simp: has_perms wf_add perms_add)

end

lemma gs_perms_add: "gs_perms (gs_add g p) = insert p (gs_perms g)"
proof -
  have "set_at (byResource (gs_add g p)) r =
      (if r = Resource p then finsert (Action p) (set_at (byResource g) r)
       else set_at (byResource g) r)" for r
    by (simp add: gs_add_def Let_def) (simp add: set_at_def)
  then show ?thesis
    by (auto simp: gs_perms_def)
qed

lemma gs_wf_add: "gs_wf g \<Longrightarrow> gs_wf (gs_add g p)"
  by (auto simp: gs_wf_def gs_add_def Let_def fmpred_iff)

lemma gs_perms_in: "p \<in> gs_perms g \<longleftrightarrow>
  (\<exists>a. fmlookup (byResource g) (Resource p) = Some a \<and> Action p |\<in>| a)"
  by (simp add: gs_perms_def set_at_def split: option.split)

lemma gs_key_perm:
  assumes "gs_wf g" and "fmlookup (byResource g) r = Some a"
  obtains x where "\<lparr>Resource = r, Action = x\<rparr> \<in> gs_perms g"
proof -
  from assms have "a \<noteq> {||}"
    by (auto simp: gs_wf_def dest: fmpredD)
  then obtain x where "x |\<in>| a"
    by blast
  with assms(2) show ?thesis
    using that by (auto simp: gs_perms_in)
qed

lemma gs_has_perms: "gs_wf g \<Longrightarrow> gs_has (Some g) q \<longleftrightarrow> (\<exists>p \<in> gs_perms g. Matches p q)"
proof
  assume wf: "gs_wf g" and has: "gs_has (Some g) q"
  show "\<exists>p \<in> gs_perms g. Matches p q"
  proof (cases "fmlookup (byResource g) ''*''")
    case (Some a)
    with wf obtain x where "\<lparr>Resource = ''*'', Action = x\<rparr> \<in> gs_perms g"
      by (rule gs_key_perm)
    then show ?thesis
      by (rule bexI [rotated]) (simp add: Matches_iff)
  next
    case None
    with has obtain a x where "fmlookup (byResource g) (Resource q) = Some a"
      and "x |\<in>| a" and "x = ''*'' \<or> x = Action q"
      by (auto simp: gs_has_def fmdom_lookup split: option.splits if_splits)
    then show ?thesis
      by (intro bexI [of _ "\<lparr>Resource = Resource q, Action = x\<rparr>"])
        (auto simp: Matches_iff gs_perms_in)
  qed
next
  assume "\<exists>p \<in> gs_perms g. Matches p q"
  then show "gs_has (Some g) q"
    by (auto simp: gs_has_def gs_perms_in Matches_iff fmdom_lookup)
qed

interpretation gs: permission_index new_grantedSet gs_add "\<lambda>g. gs_has (Some g)" gs_perms gs_wf
  by unfold_locales
    (auto simp: gs_perms_add gs_wf_add gs_has_perms, auto simp: new_grantedSet_def gs_perms_def gs_wf_def)

lemma gs_flatten_in:
  assumes "go_range ord"
  shows "p \<in> set (gs_flatten ord g) \<longleftrightarrow>
    Resource p |\<in>| fmdom (byResource g) \<and> Action p |\<in>| set_at (byResource g) (Resource p)"
  using assms by (cases p) (auto simp: gs_flatten_def)

lemma gs_flatten_set: "go_range ord \<Longrightarrow> set (gs_flatten ord g) = gs_perms g"
  by (auto simp: gs_flatten_in gs_perms_in fmdom_lookup set_at_def)

lemma gs_flatten_distinct: "go_range ord \<Longrightarrow> distinct (gs_flatten ord g)"
  unfolding gs_flatten_def by (rule distinct_concat_tagged) (auto simp: distinct_map inj_on_def)

section \<open>The index and the scan\<close>

text \<open>The two-level index answers as a scan would: a set built by adding the permissions of a
role one after the other has a permission exactly if \<open>Role.HasPermission\<close> finds a match in the
role's list, wildcards included.\<close>

theorem index_equals_scan:
  "gs_has (Some (foldl gs_add new_grantedSet (Permissions r))) q = Role_HasPermission r q"
  by (simp add: gs.has_built Role_HasPermission_def)

section \<open>The enforcer\<close>

definition DefaultMaxDepth :: int where
  "DefaultMaxDepth = 32"

record 's enforcer =
  e_store :: 's
  e_maxDepth :: int
  e_cache :: "(user_id, granted_set) gomap"
  e_roleHolders :: "(role_id, user_id goset) gomap"
  e_directRoles :: "(user_id, role_id goset) gomap"

type_synonym 's option_fn = "'s enforcer \<Rightarrow> 's enforcer"

definition WithStore :: "'s \<Rightarrow> 's option_fn" where
  "WithStore s = (\<lambda>e. e\<lparr>e_store := s\<rparr>)"

definition WithMaxDepth :: "int \<Rightarrow> 's option_fn" where
  "WithMaxDepth n = (\<lambda>e. if n > 0 then e\<lparr>e_maxDepth := n\<rparr> else e)"

text \<open>The store a new enforcer starts from is an argument: a fresh \<open>MemoryStore\<close> in the code.\<close>

definition New :: "'s \<Rightarrow> 's option_fn list \<Rightarrow> 's enforcer" where
  "New memory opts =
     foldl (\<lambda>e opt. opt e)
       \<lparr>e_store = memory, e_maxDepth = DefaultMaxDepth, e_cache = fmempty,
        e_roleHolders = fmempty, e_directRoles = fmempty\<rparr> opts"

subsection \<open>Critical sections on the caches\<close>

definition invalidateUser :: "user_id \<Rightarrow> 's enforcer \<Rightarrow> 's enforcer" where
  "invalidateUser uid e = e\<lparr>e_cache := fmdrop uid (e_cache e)\<rparr>"

definition invalidateRoleHolders :: "role_id \<Rightarrow> 's enforcer \<Rightarrow> 's enforcer" where
  "invalidateRoleHolders role e =
     e\<lparr>e_cache := fmdrop_fset (set_at (e_roleHolders e) role) (e_cache e)\<rparr>"

definition grantHolder :: "user_id \<Rightarrow> role_id \<Rightarrow> 's enforcer \<Rightarrow> 's enforcer" where
  "grantHolder uid role e =
     (let holders = (case fmlookup (e_roleHolders e) role of None \<Rightarrow> {||} | Some h \<Rightarrow> h)
      in e\<lparr>e_roleHolders := fmupd role (finsert uid holders) (e_roleHolders e)\<rparr>)"

definition revokeHolder :: "user_id \<Rightarrow> role_id \<Rightarrow> 's enforcer \<Rightarrow> 's enforcer" where
  "revokeHolder uid role e =
     (case fmlookup (e_roleHolders e) role of
        None \<Rightarrow> e
      | Some holders \<Rightarrow>
          e\<lparr>e_roleHolders := fmupd role (holders |-| {|uid|}) (e_roleHolders e)\<rparr>)"

definition setDirectRoles :: "user_id \<Rightarrow> role_id list \<Rightarrow> 's enforcer \<Rightarrow> 's enforcer" where
  "setDirectRoles uid rs e =
     (if length rs = 0 then e\<lparr>e_directRoles := fmdrop uid (e_directRoles e)\<rparr>
      else e\<lparr>e_directRoles := fmupd uid (fset_of_list rs) (e_directRoles e)\<rparr>)"

text \<open>
  \<open>directRolesOf\<close> reads under the read lock, then (on a miss) reads the store, then checks
  again under the write lock before it publishes. The last section is a function of its
  own, since another goroutine may run before it.
\<close>

definition publishDirectRoles ::
  "user_id \<Rightarrow> role_id goset \<Rightarrow> 's enforcer \<Rightarrow> role_id goset \<times> 's enforcer" where
  "publishDirectRoles uid fresh e =
     (case fmlookup (e_directRoles e) uid of
        Some S \<Rightarrow> (S, e)
      | None \<Rightarrow> (fresh, e\<lparr>e_directRoles := fmupd uid fresh (e_directRoles e)\<rparr>))"

definition directRolesOf ::
  "'s store_ops \<Rightarrow> user_id \<Rightarrow> 's enforcer \<Rightarrow> (lib_error + role_id goset) \<times> 's enforcer" where
  "directRolesOf ops uid e =
     (case fmlookup (e_directRoles e) uid of
        Some S \<Rightarrow> (Inr S, e)
      | None \<Rightarrow>
          (case st_GetUser ops uid (e_store e) of
             Inl err \<Rightarrow> (Inl err, e)
           | Inr u \<Rightarrow>
               let (S, e) = publishDirectRoles uid (fset_of_list (Roles u)) e in (Inr S, e)))"

lemmas section_defs =
  invalidateUser_def invalidateRoleHolders_def grantHolder_def revokeHolder_def
  setDirectRoles_def publishDirectRoles_def

text \<open>No critical section touches the store or the depth bound, and each owns one cache.\<close>

lemma section_frame [frame_simps, simp]:
  "e_store (invalidateUser uid e) = e_store e"
  "e_store (invalidateRoleHolders r e) = e_store e"
  "e_store (grantHolder uid r e) = e_store e"
  "e_store (revokeHolder uid r e) = e_store e"
  "e_store (setDirectRoles uid rs e) = e_store e"
  "e_maxDepth (invalidateUser uid e) = e_maxDepth e"
  "e_maxDepth (invalidateRoleHolders r e) = e_maxDepth e"
  "e_maxDepth (grantHolder uid r e) = e_maxDepth e"
  "e_maxDepth (revokeHolder uid r e) = e_maxDepth e"
  "e_maxDepth (setDirectRoles uid rs e) = e_maxDepth e"
  "e_roleHolders (invalidateUser uid e) = e_roleHolders e"
  "e_roleHolders (invalidateRoleHolders r e) = e_roleHolders e"
  "e_roleHolders (setDirectRoles uid rs e) = e_roleHolders e"
  "e_directRoles (invalidateUser uid e) = e_directRoles e"
  "e_directRoles (invalidateRoleHolders r e) = e_directRoles e"
  "e_directRoles (grantHolder uid r e) = e_directRoles e"
  "e_directRoles (revokeHolder uid r e) = e_directRoles e"
  "e_cache (grantHolder uid r e) = e_cache e"
  "e_cache (revokeHolder uid r e) = e_cache e"
  "e_cache (setDirectRoles uid rs e) = e_cache e"
  by (simp_all add: section_defs Let_def split: option.split)

lemma section_cache [simp]:
  "e_cache (invalidateUser uid e) = fmdrop uid (e_cache e)"
  "e_cache (invalidateRoleHolders r e) =
     fmdrop_fset (set_at (e_roleHolders e) r) (e_cache e)"
  by (simp_all add: section_defs)

text \<open>What the holder index answers after each section.\<close>

abbreviation holders_of :: "'s enforcer \<Rightarrow> role_id \<Rightarrow> user_id goset" where
  "holders_of e r \<equiv> set_at (e_roleHolders e) r"

lemma holders_grant [simp]:
  "holders_of (grantHolder uid r e) r' =
     (if r' = r then finsert uid (holders_of e r') else holders_of e r')"
  by (auto simp: grantHolder_def set_at_def Let_def)

lemma holders_revoke [simp]:
  "holders_of (revokeHolder uid r e) r' =
     (if r' = r then holders_of e r' |-| {|uid|} else holders_of e r')"
  by (auto simp: revokeHolder_def set_at_def split: option.split)

lemma directRoles_set [simp]:
  "fmlookup (e_directRoles (setDirectRoles uid rs e)) uid' =
     (if uid' = uid then if rs = [] then None else Some (fset_of_list rs)
      else fmlookup (e_directRoles e) uid')"
  by (simp add: setDirectRoles_def)

end
