(* ===== verification/Authz_Resolve.thy ===== *)
theory Authz_Resolve
  imports Authz_State
begin

text \<open>
  Role inheritance: the worklist walk of \<open>authz/resolve.go\<close>, the ancestor walk of
  \<open>authz/validate.go\<close>, and the computation of a user's granted set
  (\<open>computeAndCache\<close> and \<open>getGrantedSetFull\<close> of \<open>authz/authz.go\<close>). The walk upwards
  ends only if the store names finitely many parents, so it is a partial function whose
  result \<open>None\<close> is "does not return"; over a store that meets the contract it returns,
  and what it returns is the closure under parent links.
\<close>

section \<open>Parent links of a role table\<close>

definition parent_of :: "(role_id, role) gomap \<Rightarrow> role_id \<Rightarrow> role_id option" where
  "parent_of rs r =
     (case fmlookup rs r of
        None \<Rightarrow> None
      | Some x \<Rightarrow> if Parent x = '''' then None else Some (Parent x))"

definition effective_roles :: "(role_id, role) gomap \<Rightarrow> role_id list \<Rightarrow> role_id set" where
  "effective_roles rs names = up_closure (parent_of rs) (set names)"

lemma parent_of_Some:
  "parent_of rs r = Some q \<longleftrightarrow> (\<exists>x. fmlookup rs r = Some x \<and> Parent x = q \<and> q \<noteq> '''')"
  by (auto simp: parent_of_def split: option.splits)

lemma parent_of_upd:
  "parent_of (fmupd (Name x) x rs) r =
     (if r = Name x then if Parent x = '''' then None else Some (Parent x) else parent_of rs r)"
  by (simp add: parent_of_def)

section \<open>resolveRoles\<close>

fun seed_queue ::
  "role_id list \<Rightarrow> role_id goset \<Rightarrow> role_id list \<Rightarrow> role_id goset \<times> role_id list" where
  "seed_queue [] seen queue = (seen, queue)"
| "seed_queue (r # rs) seen queue =
     (if r |\<notin>| seen then seed_queue rs (finsert r seen) (queue @ [r])
      else seed_queue rs seen queue)"

partial_function (option) resolve_walk ::
  "(role_id \<Rightarrow> lib_error + role) \<Rightarrow> role_id goset \<Rightarrow> role_id list \<Rightarrow> nat
     \<Rightarrow> (lib_error + role_id list) option" where
  "resolve_walk get seen queue i =
     (if i < length queue then
        (case get (queue ! i) of
           Inl err \<Rightarrow>
             if err = ErrRoleNotFound then resolve_walk get seen queue (i + 1)
             else Some (Inl err)
         | Inr role \<Rightarrow>
             if Parent role \<noteq> '''' \<and> Parent role |\<notin>| seen then
               resolve_walk get (finsert (Parent role) seen) (queue @ [Parent role]) (i + 1)
             else resolve_walk get seen queue (i + 1))
      else Some (Inr (sort queue)))"

declare resolve_walk.simps [code]

definition resolveRoles ::
  "'s store_ops \<Rightarrow> 's \<Rightarrow> user \<Rightarrow> (lib_error + role_id list) option" where
  "resolveRoles ops s u =
     (let (seen, queue) = seed_queue (Roles u) {||} []
      in resolve_walk (\<lambda>r. st_GetRole ops r s) seen queue 0)"

definition RolesFor ::
  "'s store_ops \<Rightarrow> user_id \<Rightarrow> 's enforcer \<Rightarrow> (lib_error + role_id list) option" where
  "RolesFor ops uid e =
     (case st_GetUser ops uid (e_store e) of
        Inl err \<Rightarrow> Some (Inl err)
      | Inr u \<Rightarrow> resolveRoles ops (e_store e) u)"

subsection \<open>The walk over a finite role table\<close>

definition table_get :: "(role_id, role) gomap \<Rightarrow> role_id \<Rightarrow> lib_error + role" where
  "table_get rs r = (case fmlookup rs r of None \<Rightarrow> Inl ErrRoleNotFound | Some x \<Rightarrow> Inr x)"

lemma table_get_simps [simp]:
  "fmlookup rs r = None \<Longrightarrow> table_get rs r = Inl ErrRoleNotFound"
  "fmlookup rs r = Some x \<Longrightarrow> table_get rs r = Inr x"
  by (simp_all add: table_get_def)

text \<open>
  The loop invariant: the queue lists what has been seen, once each; all of it is
  reachable; the part before \<open>i\<close> has had its parents queued.
\<close>

definition walk_inv ::
  "(role_id, role) gomap \<Rightarrow> role_id set \<Rightarrow> role_id goset \<Rightarrow> role_id list \<Rightarrow> nat \<Rightarrow> bool" where
  "walk_inv rs A seen queue i \<longleftrightarrow>
     distinct queue \<and> set queue = fset seen \<and> A \<subseteq> set queue \<and>
     set queue \<subseteq> up_closure (parent_of rs) A \<and> i \<le> length queue \<and>
     (\<forall>j < i. \<forall>q. parent_of rs (queue ! j) = Some q \<longrightarrow> q \<in> set queue)"

lemma walk_inv_skip:
  assumes "walk_inv rs A seen queue i" and "i < length queue"
    and "\<And>q. parent_of rs (queue ! i) = Some q \<Longrightarrow> q |\<in>| seen"
  shows "walk_inv rs A seen queue (i + 1)"
  using assms by (auto simp: walk_inv_def less_Suc_eq)

lemma walk_inv_push:
  assumes inv: "walk_inv rs A seen queue i" and i: "i < length queue"
    and q: "parent_of rs (queue ! i) = Some q" and new: "q |\<notin>| seen"
  shows "walk_inv rs A (finsert q seen) (queue @ [q]) (i + 1)"
proof -
  have "queue ! i \<in> up_closure (parent_of rs) A"
    using inv i by (auto simp: walk_inv_def)
  then have "q \<in> up_closure (parent_of rs) A"
    using q by (rule up_closure_step)
  then show ?thesis
    using inv i q new by (auto simp: walk_inv_def nth_append less_Suc_eq)
qed

lemma walk_inv_done:
  assumes "walk_inv rs A seen queue (length queue)"
  shows "sort queue = sorted_list_of_set (up_closure (parent_of rs) A)"
proof -
  have "up_closure (parent_of rs) A \<subseteq> set queue"
    by (rule up_closure_least) (use assms in \<open>auto simp: walk_inv_def in_set_conv_nth\<close>)
  with assms have "set queue = up_closure (parent_of rs) A" and "distinct queue"
    by (auto simp: walk_inv_def)
  then show ?thesis
    by (metis sorted_list_of_set_sort_remdups remdups_id_iff_distinct)
qed

text \<open>
  Each turn either advances \<open>i\<close> or queues one of the parents named in the table, so the
  number of parents not yet seen plus the number of entries ahead decreases.
\<close>

definition walk_measure :: "(role_id, role) gomap \<Rightarrow> role_id goset \<Rightarrow> role_id list \<Rightarrow> nat \<Rightarrow> nat" where
  "walk_measure rs seen queue i =
     card (Parent ` fset (fmran rs) - fset seen) + (length queue - i)"

lemma walk_measure_skip: "i < length queue \<Longrightarrow>
    walk_measure rs seen queue (i + 1) < walk_measure rs seen queue i"
  by (simp add: walk_measure_def)

lemma walk_measure_push:
  assumes "i < length queue" and "fmlookup rs r = Some x" and "Parent x |\<notin>| seen"
  shows "walk_measure rs (finsert (Parent x) seen) (queue @ [Parent x]) (i + 1) <
    walk_measure rs seen queue i"
proof -
  let ?P = "Parent ` fset (fmran rs)"
  have "Parent x \<in> ?P - fset seen"
    using assms(2,3) by (auto intro: fmranI)
  then have "card (?P - fset (finsert (Parent x) seen)) < card (?P - fset seen)"
    by (intro psubset_card_mono) auto
  then show ?thesis
    using assms(1) by (simp add: walk_measure_def)
qed

lemma resolve_walk_table:
  assumes "walk_inv rs A seen queue i"
  shows "resolve_walk (table_get rs) seen queue i =
    Some (Inr (sorted_list_of_set (up_closure (parent_of rs) A)))"
  using assms
proof (induction "walk_measure rs seen queue i" arbitrary: seen queue i rule: less_induct)
  case less
  note unfold = resolve_walk.simps [of "table_get rs" seen queue i]
  show ?case
  proof (cases "i < length queue")
    case False
    then have "i = length queue"
      using less.prems by (simp add: walk_inv_def)
    then show ?thesis
      using less.prems walk_inv_done unfold by auto
  next
    case i: True
    note skip = less.hyps [OF walk_measure_skip [OF i] walk_inv_skip [OF less.prems i]]
    show ?thesis
    proof (cases "fmlookup rs (queue ! i)")
      case None
      then show ?thesis
        using i skip unfold by (simp add: table_get_def parent_of_def)
    next
      case (Some x)
      show ?thesis
      proof (cases "Parent x \<noteq> '''' \<and> Parent x |\<notin>| seen")
        case True
        with Some have "parent_of rs (queue ! i) = Some (Parent x)"
          by (simp add: parent_of_Some)
        then have "walk_inv rs A (finsert (Parent x) seen) (queue @ [Parent x]) (i + 1)"
          using True by (intro walk_inv_push [OF less.prems i]) auto
        then show ?thesis
          using True Some i unfold less.hyps [OF walk_measure_push [OF i Some]]
          by (simp add: table_get_def)
      next
        case False
        then show ?thesis
          using Some i skip unfold by (auto simp: table_get_def parent_of_Some)
      qed
    qed
  qed
qed

lemma seed_queue_inv:
  assumes "distinct queue" and "set queue = fset seen"
  shows "\<exists>seen' queue'. seed_queue rs seen queue = (seen', queue') \<and> distinct queue' \<and>
    set queue' = fset seen' \<and> set queue' = set queue \<union> set rs"
  using assms by (induction rs seen queue rule: seed_queue.induct) (auto, blast)

lemma effective_roles_finite: "finite (effective_roles rs names)"
proof -
  have "effective_roles rs names \<subseteq> set names \<union> Parent ` fset (fmran rs)"
    unfolding effective_roles_def
    by (rule up_closure_least) (auto simp: parent_of_Some intro: fmranI)
  then show ?thesis
    by (rule finite_subset) simp
qed

context store_contract
begin

lemma get_role_at: "ok s \<Longrightarrow> st_GetRole ops r s = table_get (rof s) r"
  by (simp add: get_role table_get_def)

lemma get_role_table: "ok s \<Longrightarrow> (\<lambda>r. st_GetRole ops r s) = table_get (rof s)"
  by (rule ext) (rule get_role_at)

text \<open>Termination and functional correctness of \<open>resolveRoles\<close>, for any user value.\<close>

lemma resolveRoles_correct:
  assumes "ok s"
  shows "resolveRoles ops s u =
    Some (Inr (sorted_list_of_set (effective_roles (rof s) (Roles u))))"
proof -
  obtain seen queue where seed: "seed_queue (Roles u) {||} [] = (seen, queue)"
    and "distinct queue" and "set queue = fset seen" and "set queue = set (Roles u)"
    using seed_queue_inv [of "[]" "{||}" "Roles u"] by auto
  then have "walk_inv (rof s) (set (Roles u)) seen queue 0"
    by (auto simp: walk_inv_def intro: up_closure_base)
  then show ?thesis
    unfolding resolveRoles_def get_role_table [OF assms] seed effective_roles_def
    using resolve_walk_table by simp
qed

lemma RolesFor_correct:
  assumes "ok (e_store e)"
  shows "RolesFor ops uid e =
    (case fmlookup (uof (e_store e)) uid of
       None \<Rightarrow> Some (Inl ErrUserNotFound)
     | Some u \<Rightarrow>
         Some (Inr (sorted_list_of_set (effective_roles (rof (e_store e)) (Roles u)))))"
  using assms by (simp add: RolesFor_def get_user resolveRoles_correct split: option.split)

end

section \<open>validateInheritance\<close>

text \<open>
  The loop counts \<open>depth\<close> up to the bound, so it ends whatever the store holds.
\<close>

function validate_walk ::
  "(role_id \<Rightarrow> lib_error + role) \<Rightarrow> role_id \<Rightarrow> int \<Rightarrow> role_id \<Rightarrow> int \<Rightarrow> lib_error option" where
  "validate_walk get self maxDepth name depth =
     (if name = '''' then None
      else if name = self then Some ErrCyclicInheritance
      else if depth > maxDepth then Some ErrInheritanceDepth
      else (case get name of
          Inl err \<Rightarrow> if err = ErrRoleNotFound then None else Some err
        | Inr role \<Rightarrow> validate_walk get self maxDepth (Parent role) (depth + 1)))"
  by pat_completeness auto
termination
  by (relation "measure (\<lambda>(get, self, maxDepth, name, depth). nat (maxDepth + 1 - depth))") auto

declare validate_walk.simps [simp del]

definition validateInheritance :: "'s store_ops \<Rightarrow> 's enforcer \<Rightarrow> role \<Rightarrow> lib_error option" where
  "validateInheritance ops e r =
     (if Parent r = '''' then None
      else if Parent r = Name r then Some ErrCyclicInheritance
      else (case st_GetRole ops (Parent r) (e_store e) of
          Inl err \<Rightarrow> Some err
        | Inr _ \<Rightarrow>
            validate_walk (\<lambda>n. st_GetRole ops n (e_store e)) (Name r) (e_maxDepth e) (Parent r) 1))"

subsection \<open>What an accepted parent guarantees\<close>

text \<open>
  An accepted walk never met the role itself, and every node it met lies within the bound.
\<close>

lemma validate_walk_path:
  assumes "validate_walk (table_get rs) self maxDepth name depth = None"
    and "name \<noteq> ''''" and "(name, b) \<in> up_rel (parent_of rs) ^^ n"
  shows "b \<noteq> self \<and> depth + int n \<le> maxDepth"
  using assms
proof (induction n arbitrary: name depth)
  case 0
  then show ?case
    by (simp add: validate_walk.simps [of _ _ _ name depth] split: if_splits)
next
  case (Suc m)
  from Suc.prems(3) obtain q where q: "parent_of rs name = Some q"
    and rest: "(q, b) \<in> up_rel (parent_of rs) ^^ m"
    by (metis relpow_Suc_E2 up_rel_iff)
  then obtain x where x: "fmlookup rs name = Some x" "Parent x = q" "q \<noteq> ''''"
    by (auto simp: parent_of_Some)
  then have "validate_walk (table_get rs) self maxDepth q (depth + 1) = None"
    using Suc.prems(1,2)
    by (simp add: validate_walk.simps [of _ _ _ name depth] split: if_splits)
  from Suc.IH [OF this x(3) rest] show ?case
    by simp
qed

lemma validate_walk_acyclic:
  assumes "validate_walk (table_get rs) self maxDepth name depth = None" and "name \<noteq> ''''"
  shows "self \<notin> up_closure (parent_of rs) {name}"
  using validate_walk_path [OF assms] by (auto simp: up_closure_def dest!: rtrancl_imp_relpow)

text \<open>Conversely a walk is accepted when no node of the chain above is one of these.\<close>

lemma validate_walk_accepts:
  assumes "\<And>n b. (name, b) \<in> up_rel (parent_of rs) ^^ n \<Longrightarrow> b \<noteq> self \<and> depth + int n \<le> maxDepth"
  shows "validate_walk (table_get rs) self maxDepth name depth = None"
  using assms
proof (induction "table_get rs" self maxDepth name depth rule: validate_walk.induct)
  case (1 self maxDepth name depth)
  have here: "name \<noteq> self" "depth \<le> maxDepth"
    using "1.prems" [of name 0] by auto
  show ?case
  proof (cases "name = '''' \<or> fmlookup rs name = None")
    case True
    then show ?thesis
      using here by (auto simp: validate_walk.simps [of _ _ _ name depth])
  next
    case False
    then obtain x where x: "fmlookup rs name = Some x" "name \<noteq> ''''"
      by auto
    have "validate_walk (table_get rs) self maxDepth (Parent x) (depth + 1) = None"
    proof (cases "Parent x = ''''")
      case True
      then show ?thesis
        by (simp add: validate_walk.simps)
    next
      case parent: False
      have "b \<noteq> self \<and> depth + 1 + int n \<le> maxDepth"
        if "(Parent x, b) \<in> up_rel (parent_of rs) ^^ n" for n b
        using "1.prems" [of b "Suc n"] relpow_Suc_I2 [OF _ that] x parent
        by (auto simp: parent_of_Some)
      then show ?thesis
        using "1.hyps" here x by simp
    qed
    then show ?thesis
      using here x by (simp add: validate_walk.simps [of _ _ _ name depth])
  qed
qed

context store_contract
begin

lemma validate_walk_contract:
  assumes "ok (e_store e)"
  shows "validateInheritance ops e r =
      (if Parent r = '''' then None
       else if Parent r = Name r then Some ErrCyclicInheritance
       else if Parent r |\<notin>| fmdom (rof (e_store e)) then Some ErrRoleNotFound
       else validate_walk (table_get (rof (e_store e))) (Name r) (e_maxDepth e) (Parent r) 1)"
  unfolding validateInheritance_def get_role_at [OF assms]
  by (cases "fmlookup (rof (e_store e)) (Parent r)") (simp_all add: fmdom_lookup)

text \<open>The three guarantees of an accepted parent: it exists, adds no cycle, keeps the bound.\<close>

lemma validate_sound:
  assumes "ok (e_store e)" and "validateInheritance ops e r = None" and "Parent r \<noteq> ''''"
  shows "Parent r |\<in>| fmdom (rof (e_store e))"
    and "Name r \<notin> up_closure (parent_of (rof (e_store e))) {Parent r}"
    and "(Parent r, b) \<in> up_rel (parent_of (rof (e_store e))) ^^ n \<Longrightarrow>
      int (n + 1) \<le> e_maxDepth e"
proof -
  have walk: "validate_walk (table_get (rof (e_store e))) (Name r) (e_maxDepth e) (Parent r) 1 = None"
    and exists: "Parent r |\<in>| fmdom (rof (e_store e))"
    using assms by (auto simp: validate_walk_contract split: if_splits)
  show "Parent r |\<in>| fmdom (rof (e_store e))"
    by (rule exists)
  show "Name r \<notin> up_closure (parent_of (rof (e_store e))) {Parent r}"
    by (rule validate_walk_acyclic [OF walk assms(3)])
  show "int (n + 1) \<le> e_maxDepth e" if "(Parent r, b) \<in> up_rel (parent_of (rof (e_store e))) ^^ n"
    using validate_walk_path [OF walk assms(3) that] by simp
qed

text \<open>Nothing else is rejected.\<close>

lemma validate_iff:
  assumes "ok (e_store e)"
  shows "validateInheritance ops e r = None \<longleftrightarrow> Parent r = '''' \<or>
    Parent r |\<in>| fmdom (rof (e_store e)) \<and>
    Name r \<notin> up_closure (parent_of (rof (e_store e))) {Parent r} \<and>
    (\<forall>n b. (Parent r, b) \<in> up_rel (parent_of (rof (e_store e))) ^^ n \<longrightarrow>
       int (n + 1) \<le> e_maxDepth e)" (is "?lhs \<longleftrightarrow> _ \<or> ?exists \<and> ?acyclic \<and> ?depth")
proof (cases "Parent r = ''''")
  case True
  then show ?thesis
    by (simp add: validate_walk_contract [OF assms])
next
  case False
  have "?lhs" if "?exists" and "?acyclic" and "?depth"
  proof -
    have "b \<noteq> Name r \<and> 1 + int n \<le> e_maxDepth e"
      if "(Parent r, b) \<in> up_rel (parent_of (rof (e_store e))) ^^ n" for n b
      using that \<open>?acyclic\<close> \<open>?depth\<close> relpow_imp_rtrancl [OF that]
      by (auto simp: up_closure_def add.commute)
    then show ?thesis
      using \<open>?exists\<close> \<open>?acyclic\<close> validate_walk_accepts [of "Parent r" _ "Name r" 1 "e_maxDepth e"]
      by (auto simp: validate_walk_contract [OF assms] intro: up_closure_base)
  qed
  with False show ?thesis
    using validate_sound [OF assms] by blast
qed

end

end
