(* ===== verification/Authz_Check.thy ===== *)
theory Authz_Check
  imports Authz_Resolve
begin

text \<open>
  The read side: \<open>computeAndCache\<close> and \<open>getGrantedSetFull\<close> of \<open>authz/authz.go\<close>, and
  every query of \<open>authz/check.go\<close>. A query may fill the caches, so it returns the new
  state; one that resolves inheritance is an option, \<open>None\<close> standing for a walk that
  does not return.
\<close>

section \<open>Computing and caching a granted set\<close>

fun collect_roles ::
  "(role_id \<Rightarrow> lib_error + role) \<Rightarrow> role_id list \<Rightarrow> granted_set \<Rightarrow> lib_error + granted_set" where
  "collect_roles get [] S = Inr S"
| "collect_roles get (name # names) S =
     (case get name of
        Inl err \<Rightarrow> if err = ErrRoleNotFound then collect_roles get names S else Inl err
      | Inr role \<Rightarrow> collect_roles get names (foldl gs_add S (Permissions role)))"

text \<open>The part of \<open>computeAndCache\<close> that only reads the store ...\<close>

definition computeSet ::
  "'s store_ops \<Rightarrow> 's \<Rightarrow> user \<Rightarrow> (lib_error + granted_set \<times> role_id list) option" where
  "computeSet ops s u =
     (case resolveRoles ops s u of
        None \<Rightarrow> None
      | Some (Inl err) \<Rightarrow> Some (Inl err)
      | Some (Inr roles) \<Rightarrow>
          (case collect_roles (\<lambda>r. st_GetRole ops r s) roles new_grantedSet of
             Inl err \<Rightarrow> Some (Inl err)
           | Inr S \<Rightarrow> Some (Inr (foldl gs_add S (Direct u), roles))))"

text \<open>... and its critical section, which publishes the set unless one is there already.\<close>

definition publishGranted ::
  "user \<Rightarrow> granted_set \<Rightarrow> 's enforcer \<Rightarrow> granted_set \<times> 's enforcer" where
  "publishGranted u S e =
     (let (S, e) = (case fmlookup (e_cache e) (ID u) of
            Some existing \<Rightarrow> (existing, e)
          | None \<Rightarrow> (S, e\<lparr>e_cache := fmupd (ID u) S (e_cache e)\<rparr>));
          e = (case fmlookup (e_directRoles e) (ID u) of
            Some _ \<Rightarrow> e
          | None \<Rightarrow>
              e\<lparr>e_directRoles := fmupd (ID u) (fset_of_list (Roles u)) (e_directRoles e)\<rparr>)
      in (S, e))"

definition computeAndCache ::
  "'s store_ops \<Rightarrow> user \<Rightarrow> 's enforcer
     \<Rightarrow> ((lib_error + granted_set \<times> role_id list) \<times> 's enforcer) option" where
  "computeAndCache ops u e =
     (case computeSet ops (e_store e) u of
        None \<Rightarrow> None
      | Some (Inl err) \<Rightarrow> Some (Inl err, e)
      | Some (Inr (S, roles)) \<Rightarrow>
          let (S, e) = publishGranted u S e in Some (Inr (S, roles), e))"

definition getGrantedSetFull ::
  "'s store_ops \<Rightarrow> user_id \<Rightarrow> 's enforcer
     \<Rightarrow> ((lib_error + granted_set \<times> user \<times> role_id list) \<times> 's enforcer) option" where
  "getGrantedSetFull ops uid e =
     (case fmlookup (e_cache e) uid of
        Some S \<Rightarrow>
          (case st_GetUser ops uid (e_store e) of
             Inl err \<Rightarrow> Some (Inl err, e)
           | Inr u \<Rightarrow>
               (case resolveRoles ops (e_store e) u of
                  None \<Rightarrow> None
                | Some (Inl err) \<Rightarrow> Some (Inr (S, u, Roles u), e)
                | Some (Inr roles) \<Rightarrow> Some (Inr (S, u, roles), e)))
      | None \<Rightarrow>
          (case st_GetUser ops uid (e_store e) of
             Inl err \<Rightarrow> Some (Inl err, e)
           | Inr u \<Rightarrow>
               (case computeAndCache ops u e of
                  None \<Rightarrow> None
                | Some (Inl err, e) \<Rightarrow> Some (Inl err, e)
                | Some (Inr (S, roles), e) \<Rightarrow> Some (Inr (S, u, roles), e))))"

definition getGrantedSet ::
  "'s store_ops \<Rightarrow> user_id \<Rightarrow> 's enforcer \<Rightarrow> ((lib_error + granted_set) \<times> 's enforcer) option" where
  "getGrantedSet ops uid e =
     map_option (\<lambda>(r, e). (map_sum id (\<lambda>(S, u, roles). S) r, e)) (getGrantedSetFull ops uid e)"

section \<open>Queries\<close>

definition HasRole ::
  "'s store_ops \<Rightarrow> user_id \<Rightarrow> role_id \<Rightarrow> 's enforcer \<Rightarrow> (lib_error + bool) \<times> 's enforcer" where
  "HasRole ops uid role e =
     (case directRolesOf ops uid e of
        (Inl err, e) \<Rightarrow> (Inl err, e)
      | (Inr S, e) \<Rightarrow> (Inr (role |\<in>| S), e))"

fun any_role :: "role_id goset \<Rightarrow> role_id list \<Rightarrow> bool" where
  "any_role S [] = False"
| "any_role S (r # rs) = (if r |\<in>| S then True else any_role S rs)"

definition HasAnyRole ::
  "'s store_ops \<Rightarrow> user_id \<Rightarrow> role_id list \<Rightarrow> 's enforcer \<Rightarrow> (lib_error + bool) \<times> 's enforcer" where
  "HasAnyRole ops uid roles e =
     (if length roles = 0 then (Inr False, e)
      else (case directRolesOf ops uid e of
          (Inl err, e) \<Rightarrow> (Inl err, e)
        | (Inr S, e) \<Rightarrow> (Inr (any_role S roles), e)))"

fun all_roles :: "role_id goset \<Rightarrow> role_id list \<Rightarrow> bool" where
  "all_roles S [] = True"
| "all_roles S (r # rs) = (if r |\<notin>| S then False else all_roles S rs)"

definition HasAllRoles ::
  "'s store_ops \<Rightarrow> user_id \<Rightarrow> role_id list \<Rightarrow> 's enforcer \<Rightarrow> (lib_error + bool) \<times> 's enforcer" where
  "HasAllRoles ops uid roles e =
     (if length roles = 0 then (Inr True, e)
      else (case directRolesOf ops uid e of
          (Inl err, e) \<Rightarrow> (Inl err, e)
        | (Inr S, e) \<Rightarrow> (Inr (all_roles S roles), e)))"

text \<open>The permission queries differ in what they ask of the granted set.\<close>

definition with_granted ::
  "'s store_ops \<Rightarrow> user_id \<Rightarrow> (granted_set \<Rightarrow> 'a) \<Rightarrow> 's enforcer
     \<Rightarrow> ((lib_error + 'a) \<times> 's enforcer) option" where
  "with_granted ops uid f e =
     (case getGrantedSet ops uid e of
        None \<Rightarrow> None
      | Some (Inl err, e) \<Rightarrow> Some (Inl err, e)
      | Some (Inr S, e) \<Rightarrow> Some (Inr (f S), e))"

definition HasPermission ::
  "'s store_ops \<Rightarrow> user_id \<Rightarrow> permission \<Rightarrow> 's enforcer
     \<Rightarrow> ((lib_error + bool) \<times> 's enforcer) option" where
  "HasPermission ops uid required e =
     with_granted ops uid (\<lambda>S. gs_has (Some S) required) e"

definition Check ::
  "'s store_ops \<Rightarrow> user_id \<Rightarrow> permission \<Rightarrow> 's enforcer
     \<Rightarrow> (lib_error option \<times> 's enforcer) option" where
  "Check ops uid required e =
     (case getGrantedSetFull ops uid e of
        None \<Rightarrow> None
      | Some (Inl err, e) \<Rightarrow> Some (Some err, e)
      | Some (Inr (S, u, roles), e) \<Rightarrow>
          if gs_has (Some S) required then Some (None, e)
          else Some (Some (PermissionDeniedError uid (Some u) required roles), e))"

fun has_all :: "granted_set \<Rightarrow> permission list \<Rightarrow> bool" where
  "has_all S [] = True"
| "has_all S (p # ps) = (if \<not> gs_has (Some S) p then False else has_all S ps)"

fun has_any :: "granted_set \<Rightarrow> permission list \<Rightarrow> bool" where
  "has_any S [] = False"
| "has_any S (p # ps) = (if gs_has (Some S) p then True else has_any S ps)"

definition HasAllPermissions ::
  "'s store_ops \<Rightarrow> user_id \<Rightarrow> permission list \<Rightarrow> 's enforcer
     \<Rightarrow> ((lib_error + bool) \<times> 's enforcer) option" where
  "HasAllPermissions ops uid required e = with_granted ops uid (\<lambda>S. has_all S required) e"

definition HasAnyPermission ::
  "'s store_ops \<Rightarrow> user_id \<Rightarrow> permission list \<Rightarrow> 's enforcer
     \<Rightarrow> ((lib_error + bool) \<times> 's enforcer) option" where
  "HasAnyPermission ops uid required e = with_granted ops uid (\<lambda>S. has_any S required) e"

definition PermissionsFor ::
  "(string goset \<Rightarrow> string list) \<Rightarrow> 's store_ops \<Rightarrow> user_id \<Rightarrow> 's enforcer
     \<Rightarrow> ((lib_error + permission list) \<times> 's enforcer) option" where
  "PermissionsFor ord ops uid e =
     with_granted ops uid (\<lambda>S. sort_key Permission_String (gs_flatten ord S)) e"

lemmas query_defs =
  HasRole_def HasAnyRole_def HasAllRoles_def HasPermission_def Check_def
  HasAllPermissions_def HasAnyPermission_def PermissionsFor_def with_granted_def

lemma any_role_iff: "any_role S rs \<longleftrightarrow> (\<exists>r \<in> set rs. r |\<in>| S)"
  by (induction rs) auto

lemma all_roles_iff: "all_roles S rs \<longleftrightarrow> (\<forall>r \<in> set rs. r |\<in>| S)"
  by (induction rs) auto

lemma has_all_iff: "has_all S ps \<longleftrightarrow> (\<forall>p \<in> set ps. gs_has (Some S) p)"
  by (induction ps) auto

lemma has_any_iff: "has_any S ps \<longleftrightarrow> (\<exists>p \<in> set ps. gs_has (Some S) p)"
  by (induction ps) auto

section \<open>The specification of access\<close>

text \<open>
  What the package promises: a user may do what a grant of an effective role or a direct
  grant matches. It reads the stored users and roles only, never a cache.
\<close>

definition role_perms :: "(role_id, role) gomap \<Rightarrow> role_id \<Rightarrow> permission set" where
  "role_perms rs r = (case fmlookup rs r of None \<Rightarrow> {} | Some x \<Rightarrow> set (Permissions x))"

definition granted_perms :: "(role_id, role) gomap \<Rightarrow> user \<Rightarrow> permission set" where
  "granted_perms rs u = (\<Union>r \<in> effective_roles rs (Roles u). role_perms rs r) \<union> set (Direct u)"

definition allowed :: "(role_id, role) gomap \<Rightarrow> user \<Rightarrow> permission \<Rightarrow> bool" where
  "allowed rs u q \<longleftrightarrow> (\<exists>p \<in> granted_perms rs u. Matches p q)"

text \<open>A cached granted set that says what the store says.\<close>

definition coherent_at ::
  "(user_id, user) gomap \<Rightarrow> (role_id, role) gomap \<Rightarrow> 's enforcer \<Rightarrow> user_id \<Rightarrow> bool" where
  "coherent_at us rs e uid \<longleftrightarrow>
     (\<forall>S u. fmlookup (e_cache e) uid = Some S \<longrightarrow> fmlookup us uid = Some u \<longrightarrow>
        gs_wf S \<and> gs_perms S = granted_perms rs u)"

lemma role_perms_simps [simp]:
  "fmlookup rs r = None \<Longrightarrow> role_perms rs r = {}"
  "fmlookup rs r = Some x \<Longrightarrow> role_perms rs r = set (Permissions x)"
  by (simp_all add: role_perms_def)

lemma collect_roles_table:
  assumes "gs_wf S"
  shows "\<exists>S'. collect_roles (table_get rs) names S = Inr S' \<and> gs_wf S' \<and>
    gs_perms S' = gs_perms S \<union> (\<Union>r \<in> set names. role_perms rs r)"
  using assms
proof (induction names arbitrary: S)
  case Nil
  then show ?case
    by simp
next
  case (Cons name names)
  show ?case
  proof (cases "fmlookup rs name")
    case None
    with Cons show ?thesis
      by simp
  next
    case (Some x)
    with Cons.IH [of "foldl gs_add S (Permissions x)"] Cons.prems show ?thesis
      by (auto simp: gs.wf_foldl gs.perms_foldl)
  qed
qed

context store_contract
begin

lemma computeSet_correct:
  assumes "ok s"
  shows "\<exists>S. computeSet ops s u =
      Some (Inr (S, sorted_list_of_set (effective_roles (rof s) (Roles u)))) \<and>
    gs_wf S \<and> gs_perms S = granted_perms (rof s) u"
proof -
  let ?eff = "sorted_list_of_set (effective_roles (rof s) (Roles u))"
  obtain S where "collect_roles (table_get (rof s)) ?eff new_grantedSet = Inr S" and "gs_wf S"
    and "gs_perms S = (\<Union>r \<in> set ?eff. role_perms (rof s) r)"
    using collect_roles_table [OF gs.wf_new, of "rof s" ?eff] gs.perms_new by auto
  then show ?thesis
    unfolding computeSet_def resolveRoles_correct [OF assms] get_role_table [OF assms]
    by (simp add: gs.wf_foldl gs.perms_foldl granted_perms_def effective_roles_finite)
qed

end

section \<open>Queries answer what the store says\<close>

text \<open>
  What any query does to the enforcer: it adds entries to the two memo tables, each equal
  to what the store says at that moment, and writes nothing else.
\<close>

definition fills ::
  "(user_id, user) gomap \<Rightarrow> (role_id, role) gomap \<Rightarrow> 's enforcer \<Rightarrow> 's enforcer \<Rightarrow> bool" where
  "fills us rs e e' \<longleftrightarrow>
     e_store e' = e_store e \<and> e_maxDepth e' = e_maxDepth e \<and>
     e_roleHolders e' = e_roleHolders e \<and>
     (\<forall>k. fmlookup (e_cache e') k = fmlookup (e_cache e) k \<or>
        fmlookup (e_cache e) k = None \<and>
        (\<exists>S u. fmlookup (e_cache e') k = Some S \<and> fmlookup us k = Some u \<and>
           gs_wf S \<and> gs_perms S = granted_perms rs u)) \<and>
     (\<forall>k. fmlookup (e_directRoles e') k = fmlookup (e_directRoles e) k \<or>
        fmlookup (e_directRoles e) k = None \<and>
        (\<exists>u. fmlookup (e_directRoles e') k = Some (fset_of_list (Roles u)) \<and>
           fmlookup us k = Some u))"

text \<open>A memoised set of direct roles that says what the store says.\<close>

definition direct_at :: "(user_id, user) gomap \<Rightarrow> 's enforcer \<Rightarrow> user_id \<Rightarrow> bool" where
  "direct_at us e uid \<longleftrightarrow>
     (\<forall>S. fmlookup (e_directRoles e) uid = Some S \<longrightarrow>
        (\<exists>u. fmlookup us uid = Some u \<and> S = fset_of_list (Roles u)))"

lemma fills_refl [simp]: "fills us rs e e"
  by (simp add: fills_def)

lemma fills_frame:
  assumes "fills us rs e e'"
  shows "e_store e' = e_store e" and "e_maxDepth e' = e_maxDepth e"
    and "e_roleHolders e' = e_roleHolders e"
  using assms by (simp_all add: fills_def)

lemma fills_coherent: "fills us rs e e' \<Longrightarrow> coherent_at us rs e uid \<Longrightarrow> coherent_at us rs e' uid"
  unfolding fills_def coherent_at_def by (metis option.inject)

lemma fills_direct: "fills us rs e e' \<Longrightarrow> direct_at us e uid \<Longrightarrow> direct_at us e' uid"
  unfolding fills_def direct_at_def by (metis option.inject)

lemma fill_entry_trans:
  "x' = x \<or> x = None \<and> P x' \<Longrightarrow> x'' = x' \<or> x' = None \<and> P x'' \<Longrightarrow> x'' = x \<or> x = None \<and> P x''"
  by auto

lemma fills_trans:
  assumes "fills us rs e e'" and "fills us rs e' e''"
  shows "fills us rs e e''"
proof -
  have "fmlookup (e_cache e'') k = fmlookup (e_cache e) k \<or>
      fmlookup (e_cache e) k = None \<and>
      (\<exists>S u. fmlookup (e_cache e'') k = Some S \<and> fmlookup us k = Some u \<and>
         gs_wf S \<and> gs_perms S = granted_perms rs u)" for k
    by (rule fill_entry_trans [where x' = "fmlookup (e_cache e') k" and P = "\<lambda>z. \<exists>S u.
        z = Some S \<and> fmlookup us k = Some u \<and> gs_wf S \<and> gs_perms S = granted_perms rs u"])
      (use assms in \<open>simp_all add: fills_def\<close>)
  moreover have "fmlookup (e_directRoles e'') k = fmlookup (e_directRoles e) k \<or>
      fmlookup (e_directRoles e) k = None \<and>
      (\<exists>u. fmlookup (e_directRoles e'') k = Some (fset_of_list (Roles u)) \<and>
         fmlookup us k = Some u)" for k
    by (rule fill_entry_trans [where x' = "fmlookup (e_directRoles e') k" and P = "\<lambda>z. \<exists>u.
        z = Some (fset_of_list (Roles u)) \<and> fmlookup us k = Some u"])
      (use assms in \<open>simp_all add: fills_def\<close>)
  ultimately show ?thesis
    using fills_frame [OF assms(1)] fills_frame [OF assms(2)] by (simp add: fills_def)
qed

lemma fills_publish:
  assumes "fmlookup us (ID u) = Some u" and "gs_wf S" and "gs_perms S = granted_perms rs u"
  shows "fills us rs e (snd (publishGranted u S e))"
  using assms by (auto simp: publishGranted_def fills_def split: option.split)

lemma fst_publishGranted:
  "fst (publishGranted u S e) =
    (case fmlookup (e_cache e) (ID u) of Some existing \<Rightarrow> existing | None \<Rightarrow> S)"
  by (simp add: publishGranted_def split: option.split)

context store_contract
begin

abbreviation users_in :: "'s enforcer \<Rightarrow> (user_id, user) gomap" where
  "users_in e \<equiv> uof (e_store e)"

abbreviation roles_in :: "'s enforcer \<Rightarrow> (role_id, role) gomap" where
  "roles_in e \<equiv> rof (e_store e)"

lemma directRolesOf_correct:
  assumes "ok (e_store e)" and "direct_at (users_in e) e uid"
  shows "\<exists>e'. fills (users_in e) (roles_in e) e e' \<and> directRolesOf ops uid e =
    (case fmlookup (users_in e) uid of
       None \<Rightarrow> (Inl ErrUserNotFound, e')
     | Some u \<Rightarrow> (Inr (fset_of_list (Roles u)), e'))"
proof (cases "fmlookup (e_directRoles e) uid")
  case (Some S)
  with assms(2) show ?thesis
    by (intro exI [of _ e]) (auto simp: directRolesOf_def direct_at_def)
next
  case None
  then show ?thesis
    using assms(1)
    by (auto simp: directRolesOf_def publishDirectRoles_def get_user fills_def
        split: option.split)
qed

lemma getGrantedSetFull_correct:
  assumes ok: "ok (e_store e)" and coh: "coherent_at (users_in e) (roles_in e) e uid"
    and user: "fmlookup (users_in e) uid = Some u"
  shows "\<exists>S e'. getGrantedSetFull ops uid e =
      Some (Inr (S, u, sorted_list_of_set (effective_roles (roles_in e) (Roles u))), e') \<and>
    gs_wf S \<and> gs_perms S = granted_perms (roles_in e) u \<and> fills (users_in e) (roles_in e) e e'"
proof (cases "fmlookup (e_cache e) uid")
  case (Some S)
  then show ?thesis
    using ok coh user
    by (simp add: getGrantedSetFull_def get_user resolveRoles_correct coherent_at_def)
next
  case None
  obtain S where S: "computeSet ops (e_store e) u =
      Some (Inr (S, sorted_list_of_set (effective_roles (roles_in e) (Roles u))))"
    "gs_wf S" "gs_perms S = granted_perms (roles_in e) u"
    using computeSet_correct [OF ok] by blast
  have uid: "ID u = uid"
    using user_key [OF ok user] by simp
  then have "fst (publishGranted u S e) = S"
    using None by (simp add: fst_publishGranted)
  then obtain e' where pub: "publishGranted u S e = (S, e')"
    by (metis prod.collapse)
  moreover have "fills (users_in e) (roles_in e) e e'"
    using fills_publish [of "users_in e" u S "roles_in e" e] S user uid pub by simp
  ultimately show ?thesis
    using None user S ok
    by (simp add: getGrantedSetFull_def computeAndCache_def get_user)
qed

lemma getGrantedSetFull_unknown:
  assumes "ok (e_store e)" and "fmlookup (users_in e) uid = None"
  shows "getGrantedSetFull ops uid e = Some (Inl ErrUserNotFound, e)"
  using assms by (simp add: getGrantedSetFull_def get_user split: option.split)

lemma with_granted_correct:
  assumes "ok (e_store e)" and "coherent_at (users_in e) (roles_in e) e uid"
    and "fmlookup (users_in e) uid = Some u"
  shows "\<exists>S e'. with_granted ops uid f e = Some (Inr (f S), e') \<and>
    gs_wf S \<and> gs_perms S = granted_perms (roles_in e) u \<and> fills (users_in e) (roles_in e) e e'"
  using getGrantedSetFull_correct [OF assms] by (auto simp: with_granted_def getGrantedSet_def)

lemma with_granted_unknown:
  assumes "ok (e_store e)" and "fmlookup (users_in e) uid = None"
  shows "with_granted ops uid f e = Some (Inl ErrUserNotFound, e)"
  using getGrantedSetFull_unknown [OF assms] by (simp add: with_granted_def getGrantedSet_def)

text \<open>\<open>Check\<close> lets a user through exactly when the stored grants allow it.\<close>

lemma Check_correct:
  assumes "ok (e_store e)" and "coherent_at (users_in e) (roles_in e) e uid"
  shows "\<exists>e'. fills (users_in e) (roles_in e) e e' \<and> Check ops uid q e = Some
    (case fmlookup (users_in e) uid of
       None \<Rightarrow> Some ErrUserNotFound
     | Some u \<Rightarrow>
         if allowed (roles_in e) u q then None
         else Some (PermissionDeniedError uid (Some u) q
           (sorted_list_of_set (effective_roles (roles_in e) (Roles u)))), e')"
proof (cases "fmlookup (users_in e) uid")
  case None
  with getGrantedSetFull_unknown [OF assms(1)] show ?thesis
    by (auto simp: Check_def)
next
  case (Some u)
  with getGrantedSetFull_correct [OF assms] show ?thesis
    by (fastforce simp: Check_def allowed_def gs_has_perms)
qed

lemma HasPermission_correct:
  assumes "ok (e_store e)" and "coherent_at (users_in e) (roles_in e) e uid"
  shows "\<exists>e'. fills (users_in e) (roles_in e) e e' \<and> HasPermission ops uid q e = Some
    (case fmlookup (users_in e) uid of
       None \<Rightarrow> Inl ErrUserNotFound | Some u \<Rightarrow> Inr (allowed (roles_in e) u q), e')"
proof (cases "fmlookup (users_in e) uid")
  case None
  then show ?thesis
    by (auto simp: HasPermission_def with_granted_unknown [OF assms(1)])
next
  case (Some u)
  with with_granted_correct [OF assms, of u "\<lambda>S. gs_has (Some S) q"] show ?thesis
    by (auto simp: HasPermission_def allowed_def gs_has_perms)
qed

lemma HasAllPermissions_correct:
  assumes "ok (e_store e)" and "coherent_at (users_in e) (roles_in e) e uid"
  shows "\<exists>e'. fills (users_in e) (roles_in e) e e' \<and> HasAllPermissions ops uid qs e = Some
    (case fmlookup (users_in e) uid of
       None \<Rightarrow> Inl ErrUserNotFound
     | Some u \<Rightarrow> Inr (\<forall>q \<in> set qs. allowed (roles_in e) u q), e')"
proof (cases "fmlookup (users_in e) uid")
  case None
  then show ?thesis
    by (auto simp: HasAllPermissions_def with_granted_unknown [OF assms(1)])
next
  case (Some u)
  with with_granted_correct [OF assms, of u "\<lambda>S. has_all S qs"] show ?thesis
    by (auto simp: HasAllPermissions_def allowed_def gs_has_perms has_all_iff)
qed

lemma HasAnyPermission_correct:
  assumes "ok (e_store e)" and "coherent_at (users_in e) (roles_in e) e uid"
  shows "\<exists>e'. fills (users_in e) (roles_in e) e e' \<and> HasAnyPermission ops uid qs e = Some
    (case fmlookup (users_in e) uid of
       None \<Rightarrow> Inl ErrUserNotFound
     | Some u \<Rightarrow> Inr (\<exists>q \<in> set qs. allowed (roles_in e) u q), e')"
proof (cases "fmlookup (users_in e) uid")
  case None
  then show ?thesis
    by (auto simp: HasAnyPermission_def with_granted_unknown [OF assms(1)])
next
  case (Some u)
  with with_granted_correct [OF assms, of u "\<lambda>S. has_any S qs"] show ?thesis
    by (auto simp: HasAnyPermission_def allowed_def gs_has_perms has_any_iff)
qed

text \<open>
  The listing holds every granted pattern once, in the order of its printed form, whatever
  the order in which the index is visited.
\<close>

lemma PermissionsFor_correct:
  assumes "ok (e_store e)" and "coherent_at (users_in e) (roles_in e) e uid"
    and "fmlookup (users_in e) uid = Some u" and ord: "go_range ord"
  shows "\<exists>ps e'. PermissionsFor ord ops uid e = Some (Inr ps, e') \<and>
    set ps = granted_perms (roles_in e) u \<and> distinct ps \<and>
    sorted (map Permission_String ps) \<and> fills (users_in e) (roles_in e) e e'"
  using with_granted_correct [OF assms(1-3), of "\<lambda>S. sort_key Permission_String (gs_flatten ord S)"]
  by (auto simp: PermissionsFor_def gs_flatten_set [OF ord] gs_flatten_distinct [OF ord])

lemma HasRole_correct:
  assumes "ok (e_store e)" and "direct_at (users_in e) e uid"
  shows "\<exists>e'. fills (users_in e) (roles_in e) e e' \<and> HasRole ops uid role e =
    (case fmlookup (users_in e) uid of
       None \<Rightarrow> Inl ErrUserNotFound | Some u \<Rightarrow> Inr (role \<in> set (Roles u)), e')"
  using directRolesOf_correct [OF assms] by (auto simp: HasRole_def split: option.splits)

lemma HasAnyRole_correct:
  assumes "ok (e_store e)" and "direct_at (users_in e) e uid" and "roles \<noteq> []"
  shows "\<exists>e'. fills (users_in e) (roles_in e) e e' \<and> HasAnyRole ops uid roles e =
    (case fmlookup (users_in e) uid of
       None \<Rightarrow> Inl ErrUserNotFound
     | Some u \<Rightarrow> Inr (\<exists>r \<in> set roles. r \<in> set (Roles u)), e')"
  using directRolesOf_correct [OF assms(1,2)] assms(3)
  by (auto simp: HasAnyRole_def any_role_iff split: option.splits)

lemma HasAllRoles_correct:
  assumes "ok (e_store e)" and "direct_at (users_in e) e uid" and "roles \<noteq> []"
  shows "\<exists>e'. fills (users_in e) (roles_in e) e e' \<and> HasAllRoles ops uid roles e =
    (case fmlookup (users_in e) uid of
       None \<Rightarrow> Inl ErrUserNotFound
     | Some u \<Rightarrow> Inr (\<forall>r \<in> set roles. r \<in> set (Roles u)), e')"
  using directRolesOf_correct [OF assms(1,2)] assms(3)
  by (auto simp: HasAllRoles_def all_roles_iff split: option.splits)

end

end
