(* ===== verification/Authz_Admin.thy ===== *)
theory Authz_Admin
  imports Authz_Check
begin

text \<open>
  The write side: every administrative operation of \<open>authz/users.go\<close> and
  \<open>authz/roles.go\<close>. An operation returns its \<open>error\<close> (\<open>None\<close> for \<open>nil\<close>) and the state
  it leaves, also on the paths where it fails half way.
\<close>

section \<open>Users\<close>

definition CreateUser ::
  "'s store_ops \<Rightarrow> user_id \<Rightarrow> role_id list \<Rightarrow> 's enforcer \<Rightarrow> lib_error option \<times> 's enforcer" where
  "CreateUser ops uid roles e =
     (if uid = '''' then (Some ErrEmptyName, e)
      else (case st_CreateUser ops (Some \<lparr>ID = uid, Roles = roles, Direct = []\<rparr>) (e_store e) of
          (Some err, s) \<Rightarrow> (Some err, e\<lparr>e_store := s\<rparr>)
        | (None, s) \<Rightarrow>
            let e = e\<lparr>e_store := s\<rparr>;
                e = foldl (\<lambda>e role. grantHolder uid role e) e roles;
                e = setDirectRoles uid roles e
            in (None, e)))"

text \<open>The caches are evicted before the store is asked, whatever the store answers.\<close>

definition DeleteUser ::
  "'s store_ops \<Rightarrow> user_id \<Rightarrow> 's enforcer \<Rightarrow> lib_error option \<times> 's enforcer" where
  "DeleteUser ops uid e =
     (let e = e\<lparr>e_cache := fmdrop uid (e_cache e),
                e_directRoles := fmdrop uid (e_directRoles e),
                e_roleHolders := fmmap (\<lambda>holders. holders |-| {|uid|}) (e_roleHolders e)\<rparr>;
          (err, s) = st_DeleteUser ops uid (e_store e)
      in (err, e\<lparr>e_store := s\<rparr>))"

definition GetUser :: "'s store_ops \<Rightarrow> user_id \<Rightarrow> 's enforcer \<Rightarrow> lib_error + user" where
  "GetUser ops uid e = st_GetUser ops uid (e_store e)"

definition ListUsers :: "'s store_ops \<Rightarrow> 's enforcer \<Rightarrow> lib_error + user list" where
  "ListUsers ops e = st_ListUsers ops (e_store e)"

definition AssignRole ::
  "'s store_ops \<Rightarrow> user_id \<Rightarrow> role_id \<Rightarrow> 's enforcer \<Rightarrow> lib_error option \<times> 's enforcer" where
  "AssignRole ops uid role e =
     (case st_GetRole ops role (e_store e) of
        Inl err \<Rightarrow> (Some err, e)
      | Inr _ \<Rightarrow>
     (case st_GetUser ops uid (e_store e) of
        Inl err \<Rightarrow> (Some err, e)
      | Inr u \<Rightarrow>
          if role \<in> set (Roles u) then (None, e)
          else let u = u\<lparr>Roles := Roles u @ [role]\<rparr> in
     (case st_UpdateUser ops (Some u) (e_store e) of
        (Some err, s) \<Rightarrow> (Some err, e\<lparr>e_store := s\<rparr>)
      | (None, s) \<Rightarrow>
          let e = e\<lparr>e_store := s\<rparr>;
              e = grantHolder uid role e;
              e = setDirectRoles uid (Roles u) e;
              e = invalidateUser uid e
          in (None, e))))"

definition RevokeRole ::
  "'s store_ops \<Rightarrow> user_id \<Rightarrow> role_id \<Rightarrow> 's enforcer \<Rightarrow> lib_error option \<times> 's enforcer" where
  "RevokeRole ops uid role e =
     (case st_GetUser ops uid (e_store e) of
        Inl err \<Rightarrow> (Some err, e)
      | Inr u \<Rightarrow>
     (case st_GetRole ops role (e_store e) of
        Inl err \<Rightarrow> (Some err, e)
      | Inr _ \<Rightarrow>
          let u = u\<lparr>Roles := filter (\<lambda>r. r \<noteq> role) (Roles u)\<rparr> in
     (case st_UpdateUser ops (Some u) (e_store e) of
        (Some err, s) \<Rightarrow> (Some err, e\<lparr>e_store := s\<rparr>)
      | (None, s) \<Rightarrow>
          let e = e\<lparr>e_store := s\<rparr>;
              e = revokeHolder uid role e;
              e = setDirectRoles uid (Roles u) e;
              e = invalidateUser uid e
          in (None, e))))"

definition GrantDirectPermission ::
  "'s store_ops \<Rightarrow> user_id \<Rightarrow> permission \<Rightarrow> 's enforcer \<Rightarrow> lib_error option \<times> 's enforcer" where
  "GrantDirectPermission ops uid p e =
     (if \<not> Permission_Valid p then (Some ErrInvalidPermission, e)
      else (case st_GetUser ops uid (e_store e) of
          Inl err \<Rightarrow> (Some err, e)
        | Inr u \<Rightarrow>
            if p \<in> set (Direct u) then (None, e)
            else let u = u\<lparr>Direct := Direct u @ [p]\<rparr> in
       (case st_UpdateUser ops (Some u) (e_store e) of
          (Some err, s) \<Rightarrow> (Some err, e\<lparr>e_store := s\<rparr>)
        | (None, s) \<Rightarrow> (None, invalidateUser uid (e\<lparr>e_store := s\<rparr>)))))"

definition RevokeDirectPermission ::
  "'s store_ops \<Rightarrow> user_id \<Rightarrow> permission \<Rightarrow> 's enforcer \<Rightarrow> lib_error option \<times> 's enforcer" where
  "RevokeDirectPermission ops uid p e =
     (if \<not> Permission_Valid p then (Some ErrInvalidPermission, e)
      else (case st_GetUser ops uid (e_store e) of
          Inl err \<Rightarrow> (Some err, e)
        | Inr u \<Rightarrow>
            let u = u\<lparr>Direct := filter (\<lambda>g. g \<noteq> p) (Direct u)\<rparr> in
       (case st_UpdateUser ops (Some u) (e_store e) of
          (Some err, s) \<Rightarrow> (Some err, e\<lparr>e_store := s\<rparr>)
        | (None, s) \<Rightarrow> (None, invalidateUser uid (e\<lparr>e_store := s\<rparr>)))))"

section \<open>Roles\<close>

definition CreateRole ::
  "'s store_ops \<Rightarrow> role_id \<Rightarrow> permission list \<Rightarrow> role_id \<Rightarrow> 's enforcer
     \<Rightarrow> lib_error option \<times> 's enforcer" where
  "CreateRole ops name permissions parent e =
     (if name = '''' then (Some ErrEmptyName, e)
      else if list_ex (\<lambda>p. \<not> Permission_Valid p) permissions then (Some ErrInvalidPermission, e)
      else let r = \<lparr>Name = name, Permissions = permissions, Parent = parent\<rparr> in
     (case validateInheritance ops e r of
        Some err \<Rightarrow> (Some err, e)
      | None \<Rightarrow>
          let (err, s) = st_CreateRole ops (Some r) (e_store e) in (err, e\<lparr>e_store := s\<rparr>)))"

definition UpdateRole ::
  "'s store_ops \<Rightarrow> role_id \<Rightarrow> permission list \<Rightarrow> role_id \<Rightarrow> 's enforcer
     \<Rightarrow> lib_error option \<times> 's enforcer" where
  "UpdateRole ops name permissions parent e =
     (if name = '''' then (Some ErrEmptyName, e)
      else if list_ex (\<lambda>p. \<not> Permission_Valid p) permissions then (Some ErrInvalidPermission, e)
      else let r = \<lparr>Name = name, Permissions = permissions, Parent = parent\<rparr> in
     (case validateInheritance ops e r of
        Some err \<Rightarrow> (Some err, e)
      | None \<Rightarrow>
     (case st_UpdateRole ops (Some r) (e_store e) of
        (Some err, s) \<Rightarrow> (Some err, e\<lparr>e_store := s\<rparr>)
      | (None, s) \<Rightarrow> (None, invalidateRoleHolders name (e\<lparr>e_store := s\<rparr>)))))"

text \<open>The two loops of \<open>DeleteRole\<close>; each stops at the first error of the store.\<close>

fun detach_holders ::
  "'s store_ops \<Rightarrow> role_id \<Rightarrow> user_id list \<Rightarrow> 's enforcer \<Rightarrow> lib_error option \<times> 's enforcer" where
  "detach_holders ops name [] e = (None, e)"
| "detach_holders ops name (uid # holders) e =
     (case st_GetUser ops uid (e_store e) of
        Inl err \<Rightarrow> (Some err, e)
      | Inr u \<Rightarrow>
          let kept = filter (\<lambda>r. r \<noteq> name) (Roles u);
              changed = (length kept \<noteq> length (Roles u));
              u = (if changed then u\<lparr>Roles := kept\<rparr> else u);
              (err, s) = (if changed then st_UpdateUser ops (Some u) (e_store e)
                          else (None, e_store e));
              e = e\<lparr>e_store := s\<rparr>
          in (case err of
               Some err \<Rightarrow> (Some err, e)
             | None \<Rightarrow>
                 detach_holders ops name holders
                   (setDirectRoles uid (Roles u) (revokeHolder uid name e))))"

fun detach_children ::
  "'s store_ops \<Rightarrow> role_id \<Rightarrow> role list \<Rightarrow> 's enforcer \<Rightarrow> lib_error option \<times> 's enforcer" where
  "detach_children ops name [] e = (None, e)"
| "detach_children ops name (r # roles) e =
     (if Parent r = name then
        (case st_UpdateRole ops (Some (r\<lparr>Parent := ''''\<rparr>)) (e_store e) of
           (Some err, s) \<Rightarrow> (Some err, e\<lparr>e_store := s\<rparr>)
         | (None, s) \<Rightarrow>
             detach_children ops name roles (invalidateRoleHolders (Name r) (e\<lparr>e_store := s\<rparr>)))
      else detach_children ops name roles e)"

definition DeleteRole ::
  "(user_id goset \<Rightarrow> user_id list) \<Rightarrow> 's store_ops \<Rightarrow> role_id \<Rightarrow> 's enforcer
     \<Rightarrow> lib_error option \<times> 's enforcer" where
  "DeleteRole ord ops name e =
     (case st_GetRole ops name (e_store e) of
        Inl err \<Rightarrow> (Some err, e)
      | Inr _ \<Rightarrow>
          let holders = ord (set_at (e_roleHolders e) name) in
     (case detach_holders ops name holders e of
        (Some err, e) \<Rightarrow> (Some err, e)
      | (None, e) \<Rightarrow>
     (case st_ListRoles ops (e_store e) of
        Inl err \<Rightarrow> (Some err, e)
      | Inr roles \<Rightarrow>
     (case detach_children ops name roles e of
        (Some err, e) \<Rightarrow> (Some err, e)
      | (None, e) \<Rightarrow>
          let e = e\<lparr>e_roleHolders := fmdrop name (e_roleHolders e)\<rparr>;
              e = foldl (\<lambda>e uid. invalidateUser uid e) e holders;
              (err, s) = st_DeleteRole ops name (e_store e)
          in (err, e\<lparr>e_store := s\<rparr>)))))"

definition GetRole :: "'s store_ops \<Rightarrow> role_id \<Rightarrow> 's enforcer \<Rightarrow> lib_error + role" where
  "GetRole ops name e = st_GetRole ops name (e_store e)"

definition ListRoles :: "'s store_ops \<Rightarrow> 's enforcer \<Rightarrow> lib_error + role list" where
  "ListRoles ops e = st_ListRoles ops (e_store e)"

definition GrantPermission ::
  "'s store_ops \<Rightarrow> role_id \<Rightarrow> permission \<Rightarrow> 's enforcer \<Rightarrow> lib_error option \<times> 's enforcer" where
  "GrantPermission ops role p e =
     (if \<not> Permission_Valid p then (Some ErrInvalidPermission, e)
      else (case st_GetRole ops role (e_store e) of
          Inl err \<Rightarrow> (Some err, e)
        | Inr r \<Rightarrow>
            if p \<in> set (Permissions r) then (None, e)
            else let r = r\<lparr>Permissions := Permissions r @ [p]\<rparr> in
       (case st_UpdateRole ops (Some r) (e_store e) of
          (Some err, s) \<Rightarrow> (Some err, e\<lparr>e_store := s\<rparr>)
        | (None, s) \<Rightarrow> (None, invalidateRoleHolders role (e\<lparr>e_store := s\<rparr>)))))"

definition RevokePermission ::
  "'s store_ops \<Rightarrow> role_id \<Rightarrow> permission \<Rightarrow> 's enforcer \<Rightarrow> lib_error option \<times> 's enforcer" where
  "RevokePermission ops role p e =
     (if \<not> Permission_Valid p then (Some ErrInvalidPermission, e)
      else (case st_GetRole ops role (e_store e) of
          Inl err \<Rightarrow> (Some err, e)
        | Inr r \<Rightarrow>
            let r = r\<lparr>Permissions := filter (\<lambda>g. g \<noteq> p) (Permissions r)\<rparr> in
       (case st_UpdateRole ops (Some r) (e_store e) of
          (Some err, s) \<Rightarrow> (Some err, e\<lparr>e_store := s\<rparr>)
        | (None, s) \<Rightarrow> (None, invalidateRoleHolders role (e\<lparr>e_store := s\<rparr>)))))"

definition SetParent ::
  "'s store_ops \<Rightarrow> role_id \<Rightarrow> role_id \<Rightarrow> 's enforcer \<Rightarrow> lib_error option \<times> 's enforcer" where
  "SetParent ops role parent e =
     (case st_GetRole ops role (e_store e) of
        Inl err \<Rightarrow> (Some err, e)
      | Inr r \<Rightarrow>
     (case (st_GetRole ops parent (e_store e), parent \<noteq> '''') of
        (Inl err, True) \<Rightarrow> (Some err, e)
      | _ \<Rightarrow>
          if Parent r = parent then (None, e)
          else let r = r\<lparr>Parent := parent\<rparr> in
     (case validateInheritance ops e r of
        Some err \<Rightarrow> (Some err, e)
      | None \<Rightarrow>
     (case st_UpdateRole ops (Some r) (e_store e) of
        (Some err, s) \<Rightarrow> (Some err, e\<lparr>e_store := s\<rparr>)
      | (None, s) \<Rightarrow> (None, invalidateRoleHolders role (e\<lparr>e_store := s\<rparr>))))))"

lemmas admin_defs [enf_defs] =
  CreateUser_def DeleteUser_def AssignRole_def RevokeRole_def GrantDirectPermission_def
  RevokeDirectPermission_def CreateRole_def UpdateRole_def DeleteRole_def
  GrantPermission_def RevokePermission_def SetParent_def

end
