(* ===== verification/Authz_Effects.thy ===== *)
theory Authz_Effects
  imports Authz_Admin
begin

text \<open>
  What each administrative operation returns and leaves behind, on every branch, over a
  store that meets the contract: one equation per operation, in terms of the stored users
  and roles. The invariant proofs rest on these equations and no longer open the
  operations.
\<close>

abbreviation put_user ::
  "'s store_ops \<Rightarrow> user \<Rightarrow> 's enforcer \<Rightarrow> 's enforcer" where
  "put_user ops u e \<equiv> e\<lparr>e_store := snd (st_UpdateUser ops (Some u) (e_store e))\<rparr>"

abbreviation put_role ::
  "'s store_ops \<Rightarrow> role \<Rightarrow> 's enforcer \<Rightarrow> 's enforcer" where
  "put_role ops x e \<equiv> e\<lparr>e_store := snd (st_UpdateRole ops (Some x) (e_store e))\<rparr>"

context store_contract
begin

lemma update_user_writes:
  assumes "ok s" and "fmlookup (uof s) (ID u) = Some v"
  shows "fst (st_UpdateUser ops (Some u) s) = None"
    and "uof (snd (st_UpdateUser ops (Some u) s)) = fmupd (ID u) u (uof s)"
  using assms user_key [OF assms] by (auto simp: contract fmdom_lookup)

lemma update_role_writes:
  assumes "ok s" and "fmlookup (rof s) (Name x) = Some y"
  shows "fst (st_UpdateRole ops (Some x) s) = None"
    and "rof (snd (st_UpdateRole ops (Some x) s)) = fmupd (Name x) x (rof s)"
  using assms role_key [OF assms] by (auto simp: contract fmdom_lookup)

lemma AssignRole_effect:
  assumes "ok (e_store e)"
  shows "AssignRole ops uid role e =
    (if role |\<notin>| fmdom (roles_in e) then (Some ErrRoleNotFound, e)
     else (case fmlookup (users_in e) uid of
         None \<Rightarrow> (Some ErrUserNotFound, e)
       | Some u \<Rightarrow>
           if role \<in> set (Roles u) then (None, e)
           else (None, invalidateUser uid (setDirectRoles uid (Roles u @ [role])
             (grantHolder uid role (put_user ops (u\<lparr>Roles := Roles u @ [role]\<rparr>) e))))))"
  using assms user_key [OF assms]
  by (auto simp: AssignRole_def get_user get_role split_beta fmdom_lookup update_user_writes
      split: option.split)

lemma RevokeRole_effect:
  assumes "ok (e_store e)"
  shows "RevokeRole ops uid role e =
    (case fmlookup (users_in e) uid of
       None \<Rightarrow> (Some ErrUserNotFound, e)
     | Some u \<Rightarrow>
         if role |\<notin>| fmdom (roles_in e) then (Some ErrRoleNotFound, e)
         else let kept = filter (\<lambda>r. r \<noteq> role) (Roles u) in
           (None, invalidateUser uid (setDirectRoles uid kept
             (revokeHolder uid role (put_user ops (u\<lparr>Roles := kept\<rparr>) e)))))"
  using assms user_key [OF assms]
  by (auto simp: RevokeRole_def get_user get_role split_beta Let_def fmdom_lookup
      update_user_writes split: option.split)

lemma GrantDirectPermission_effect:
  assumes "ok (e_store e)"
  shows "GrantDirectPermission ops uid p e =
    (if \<not> Permission_Valid p then (Some ErrInvalidPermission, e)
     else (case fmlookup (users_in e) uid of
         None \<Rightarrow> (Some ErrUserNotFound, e)
       | Some u \<Rightarrow>
           if p \<in> set (Direct u) then (None, e)
           else (None, invalidateUser uid (put_user ops (u\<lparr>Direct := Direct u @ [p]\<rparr>) e))))"
  using assms user_key [OF assms]
  by (auto simp: GrantDirectPermission_def get_user split_beta update_user_writes
      split: option.split)

lemma RevokeDirectPermission_effect:
  assumes "ok (e_store e)"
  shows "RevokeDirectPermission ops uid p e =
    (if \<not> Permission_Valid p then (Some ErrInvalidPermission, e)
     else (case fmlookup (users_in e) uid of
         None \<Rightarrow> (Some ErrUserNotFound, e)
       | Some u \<Rightarrow>
           (None, invalidateUser uid
             (put_user ops (u\<lparr>Direct := filter (\<lambda>g. g \<noteq> p) (Direct u)\<rparr>) e))))"
  using assms user_key [OF assms]
  by (auto simp: RevokeDirectPermission_def get_user split_beta update_user_writes
      split: option.split)

lemma CreateUser_effect:
  assumes "ok (e_store e)"
  shows "CreateUser ops uid roles e =
    (let (err, s) = st_CreateUser ops (Some \<lparr>ID = uid, Roles = roles, Direct = []\<rparr>) (e_store e) in
     if uid = '''' then (Some ErrEmptyName, e)
     else if uid |\<in>| fmdom (users_in e) then (Some ErrUserExists, e\<lparr>e_store := s\<rparr>)
     else (None, setDirectRoles uid roles
       (foldl (\<lambda>e role. grantHolder uid role e) (e\<lparr>e_store := s\<rparr>) roles)))"
  using assms by (simp add: CreateUser_def split_beta Let_def create_user)

lemma CreateRole_effect:
  assumes "ok (e_store e)"
  shows "CreateRole ops name perms parent e =
    (let r = \<lparr>Name = name, Permissions = perms, Parent = parent\<rparr>;
         s = snd (st_CreateRole ops (Some r) (e_store e)) in
     if name = '''' then (Some ErrEmptyName, e)
     else if \<not> list_all Permission_Valid perms then (Some ErrInvalidPermission, e)
     else (case validateInheritance ops e r of
         Some err \<Rightarrow> (Some err, e)
       | None \<Rightarrow>
           if name |\<in>| fmdom (roles_in e) then (Some ErrRoleExists, e\<lparr>e_store := s\<rparr>)
           else (None, e\<lparr>e_store := s\<rparr>)))"
  using assms
  by (auto simp: CreateRole_def split_beta Let_def create_role list_ex_iff list_all_iff
      split: option.split)

lemma UpdateRole_effect:
  assumes "ok (e_store e)"
  shows "UpdateRole ops name perms parent e =
    (let r = \<lparr>Name = name, Permissions = perms, Parent = parent\<rparr> in
     if name = '''' then (Some ErrEmptyName, e)
     else if \<not> list_all Permission_Valid perms then (Some ErrInvalidPermission, e)
     else (case validateInheritance ops e r of
         Some err \<Rightarrow> (Some err, e)
       | None \<Rightarrow>
           if name |\<notin>| fmdom (roles_in e) then (Some ErrRoleNotFound, put_role ops r e)
           else (None, invalidateRoleHolders name (put_role ops r e))))"
  using assms
  by (auto simp: UpdateRole_def split_beta Let_def update_role list_ex_iff list_all_iff
      split: option.split)

lemma GrantPermission_effect:
  assumes "ok (e_store e)"
  shows "GrantPermission ops role p e =
    (if \<not> Permission_Valid p then (Some ErrInvalidPermission, e)
     else (case fmlookup (roles_in e) role of
         None \<Rightarrow> (Some ErrRoleNotFound, e)
       | Some x \<Rightarrow>
           if p \<in> set (Permissions x) then (None, e)
           else (None, invalidateRoleHolders role
             (put_role ops (x\<lparr>Permissions := Permissions x @ [p]\<rparr>) e))))"
  using assms role_key [OF assms]
  by (auto simp: GrantPermission_def get_role split_beta update_role_writes split: option.split)

lemma RevokePermission_effect:
  assumes "ok (e_store e)"
  shows "RevokePermission ops role p e =
    (if \<not> Permission_Valid p then (Some ErrInvalidPermission, e)
     else (case fmlookup (roles_in e) role of
         None \<Rightarrow> (Some ErrRoleNotFound, e)
       | Some x \<Rightarrow>
           (None, invalidateRoleHolders role
             (put_role ops (x\<lparr>Permissions := filter (\<lambda>g. g \<noteq> p) (Permissions x)\<rparr>) e))))"
  using assms role_key [OF assms]
  by (auto simp: RevokePermission_def get_role split_beta update_role_writes split: option.split)

lemma SetParent_effect:
  assumes "ok (e_store e)"
  shows "SetParent ops role parent e =
    (case fmlookup (roles_in e) role of
       None \<Rightarrow> (Some ErrRoleNotFound, e)
     | Some x \<Rightarrow>
         if parent \<noteq> '''' \<and> parent |\<notin>| fmdom (roles_in e) then (Some ErrRoleNotFound, e)
         else if Parent x = parent then (None, e)
         else (case validateInheritance ops e (x\<lparr>Parent := parent\<rparr>) of
             Some err \<Rightarrow> (Some err, e)
           | None \<Rightarrow>
               (None, invalidateRoleHolders role (put_role ops (x\<lparr>Parent := parent\<rparr>) e))))"
  using assms role_key [OF assms]
  by (cases "parent = ''''")
    (auto simp: SetParent_def get_role split_beta update_role_writes fmdom_lookup
      split: option.split)

lemma DeleteUser_effect:
  assumes "ok (e_store e)"
  shows "fst (DeleteUser ops uid e) =
      (if uid |\<in>| fmdom (users_in e) then None else Some ErrUserNotFound)"
    and "e_store (snd (DeleteUser ops uid e)) = snd (st_DeleteUser ops uid (e_store e))"
    and "e_maxDepth (snd (DeleteUser ops uid e)) = e_maxDepth e"
    and "e_cache (snd (DeleteUser ops uid e)) = fmdrop uid (e_cache e)"
    and "e_directRoles (snd (DeleteUser ops uid e)) = fmdrop uid (e_directRoles e)"
    and "holders_of (snd (DeleteUser ops uid e)) r = holders_of e r |-| {|uid|}"
  using assms by (simp_all add: DeleteUser_def split_beta Let_def delete_user)

end

section \<open>DeleteRole\<close>

text \<open>What deleting a role does to a user and to another role.\<close>

definition drop_role :: "role_id \<Rightarrow> user \<Rightarrow> user" where
  "drop_role name u = u\<lparr>Roles := filter (\<lambda>r. r \<noteq> name) (Roles u)\<rparr>"

definition drop_parent :: "role_id \<Rightarrow> role \<Rightarrow> role" where
  "drop_parent name x = (if Parent x = name then x\<lparr>Parent := ''''\<rparr> else x)"

lemma drop_role_simps [simp]:
  "ID (drop_role name u) = ID u"
  "Roles (drop_role name u) = filter (\<lambda>r. r \<noteq> name) (Roles u)"
  "Direct (drop_role name u) = Direct u"
  by (simp_all add: drop_role_def)

lemma drop_role_same:
  assumes "length (filter (\<lambda>r. r \<noteq> name) (Roles u)) = length (Roles u)"
  shows "drop_role name u = u"
proof -
  have "\<forall>r \<in> set (Roles u). r \<noteq> name"
    using assms length_filter_less [of _ "Roles u" "\<lambda>r. r \<noteq> name"] by fastforce
  then show ?thesis
    by (simp add: drop_role_def)
qed

lemma drop_role_absent: "name \<notin> set (Roles u) \<Longrightarrow> drop_role name u = u"
  by (rule drop_role_same, rule arg_cong [of _ _ length], rule filter_True) auto

lemma drop_parent_simps [simp]:
  "Name (drop_parent name x) = Name x"
  "Permissions (drop_parent name x) = Permissions x"
  "Parent (drop_parent name x) = (if Parent x = name then '''' else Parent x)"
  by (simp_all add: drop_parent_def)

context store_contract
begin

text \<open>One turn of each loop.\<close>

lemma detach_holders_step:
  assumes "ok (e_store e)" and "fmlookup (users_in e) uid = Some u"
  shows "\<exists>s. detach_holders ops name (uid # hs) e = detach_holders ops name hs
      (setDirectRoles uid (Roles (drop_role name u)) (revokeHolder uid name (e\<lparr>e_store := s\<rparr>))) \<and>
    ok s \<and> rof s = roles_in e \<and> uof s = fmupd uid (drop_role name u) (users_in e)"
proof (cases "length (filter (\<lambda>r. r \<noteq> name) (Roles u)) = length (Roles u)")
  case True
  then have "drop_role name u = u"
    by (rule drop_role_same)
  moreover have "fmupd uid u (users_in e) = users_in e"
    using assms(2) by (rule fmupd_same)
  ultimately show ?thesis
    using assms True by (intro exI [of _ "e_store e"]) (simp add: get_user)
next
  case False
  let ?s = "snd (st_UpdateUser ops (Some (drop_role name u)) (e_store e))"
  have "fmlookup (users_in e) (ID (drop_role name u)) = Some u"
    using assms user_key by simp
  note writes = update_user_writes [OF assms(1) this]
  then have "uof ?s = fmupd uid (drop_role name u) (users_in e)"
    using assms user_key by simp
  then show ?thesis
    using assms False writes
    by (intro exI [of _ ?s])
      (simp add: get_user split_beta Let_def update_user_ok update_user_rof flip: drop_role_def)
qed

lemma detach_holders_effect:
  assumes "ok (e_store e)" and "distinct hs" and "\<And>uid. uid \<in> set hs \<Longrightarrow> uid |\<in>| fmdom (users_in e)"
  shows "\<exists>e'. detach_holders ops name hs e = (None, e') \<and> ok (e_store e') \<and>
    roles_in e' = roles_in e \<and> e_cache e' = e_cache e \<and> e_maxDepth e' = e_maxDepth e \<and>
    (\<forall>uid. fmlookup (users_in e') uid =
       (if uid \<in> set hs then map_option (drop_role name) (fmlookup (users_in e) uid)
        else fmlookup (users_in e) uid)) \<and>
    (\<forall>r uid. uid |\<in>| holders_of e' r \<longleftrightarrow> uid |\<in>| holders_of e r \<and> (r = name \<longrightarrow> uid \<notin> set hs)) \<and>
    (\<forall>uid. uid \<notin> set hs \<longrightarrow> fmlookup (e_directRoles e') uid = fmlookup (e_directRoles e) uid) \<and>
    (\<forall>uid \<in> set hs. direct_at (users_in e') e' uid)"
  using assms
proof (induction hs arbitrary: e)
  case Nil
  then show ?case
    by simp
next
  case (Cons uid hs)
  obtain u where u: "fmlookup (users_in e) uid = Some u"
    using Cons.prems(3) [of uid] by (auto simp: fmdom_lookup)
  obtain s where step: "detach_holders ops name (uid # hs) e = detach_holders ops name hs
      (setDirectRoles uid (Roles (drop_role name u)) (revokeHolder uid name (e\<lparr>e_store := s\<rparr>)))"
    and s: "ok s" "rof s = roles_in e" "uof s = fmupd uid (drop_role name u) (users_in e)"
    using detach_holders_step [OF Cons.prems(1) u] by blast
  let ?e = "setDirectRoles uid (Roles (drop_role name u)) (revokeHolder uid name (e\<lparr>e_store := s\<rparr>))"
  have known: "v |\<in>| fmdom (users_in ?e)" if "v \<in> set hs" for v
    using Cons.prems(3) [of v] that s by simp
  obtain e' where e': "detach_holders ops name hs ?e = (None, e')" "ok (e_store e')"
    "roles_in e' = roles_in ?e" "e_cache e' = e_cache ?e" "e_maxDepth e' = e_maxDepth ?e"
    and users: "\<And>v. fmlookup (users_in e') v =
       (if v \<in> set hs then map_option (drop_role name) (fmlookup (users_in ?e) v)
        else fmlookup (users_in ?e) v)"
    and holders: "\<And>r v. v |\<in>| holders_of e' r \<longleftrightarrow>
       v |\<in>| holders_of ?e r \<and> (r = name \<longrightarrow> v \<notin> set hs)"
    and direct: "\<And>v. v \<notin> set hs \<Longrightarrow> fmlookup (e_directRoles e') v = fmlookup (e_directRoles ?e) v"
      "\<And>v. v \<in> set hs \<Longrightarrow> direct_at (users_in e') e' v"
    using Cons.IH [of ?e] Cons.prems(2) s known by fastforce
  have "direct_at (users_in e') e' uid"
    using direct(1) [of uid] users [of uid] Cons.prems(2) s by (auto simp: direct_at_def)
  then show ?case
    using e' users holders direct s step u Cons.prems(2)
    by (intro exI [of _ e']) auto
qed

lemma detach_children_effect:
  assumes "ok (e_store e)" and "distinct (map Name xs)"
    and "\<And>x. x \<in> set xs \<Longrightarrow> fmlookup (roles_in e) (Name x) = Some x"
  shows "\<exists>e'. detach_children ops name xs e = (None, e') \<and> ok (e_store e') \<and>
    users_in e' = users_in e \<and> e_maxDepth e' = e_maxDepth e \<and>
    e_roleHolders e' = e_roleHolders e \<and> e_directRoles e' = e_directRoles e \<and>
    (\<forall>r. fmlookup (roles_in e') r =
       (if r \<in> Name ` set xs then map_option (drop_parent name) (fmlookup (roles_in e) r)
        else fmlookup (roles_in e) r)) \<and>
    (\<forall>uid. fmlookup (e_cache e') uid =
       (if \<exists>x \<in> set xs. Parent x = name \<and> uid |\<in>| holders_of e (Name x) then None
        else fmlookup (e_cache e) uid))"
  using assms
proof (induction xs arbitrary: e)
  case Nil
  then show ?case
    by simp
next
  case (Cons x xs)
  show ?case
  proof (cases "Parent x = name")
    case False
    have "drop_parent name x = x"
      using False by (simp add: drop_parent_def)
    moreover have "fmlookup (roles_in e) (Name x) = Some x"
      using Cons.prems(3) by simp
    ultimately show ?thesis
      using Cons.IH [of e] Cons.prems False by (fastforce simp: image_iff)
  next
    case True
    let ?x = "x\<lparr>Parent := ''''\<rparr>"
    let ?e = "invalidateRoleHolders (Name x) (put_role ops ?x e)"
    have x: "fmlookup (roles_in e) (Name ?x) = Some x"
      using Cons.prems(3) [of x] by simp
    note writes = update_role_writes [OF Cons.prems(1) x] update_role_uof [OF Cons.prems(1)]
      update_role_ok [OF Cons.prems(1)]
    have rest: "fmlookup (roles_in ?e) (Name y) = Some y" if "y \<in> set xs" for y
      using Cons.prems(2,3) that writes by (auto simp: image_iff)
    obtain e' where "detach_children ops name xs ?e = (None, e')" "ok (e_store e')"
      "users_in e' = users_in ?e" "e_maxDepth e' = e_maxDepth ?e"
      "e_roleHolders e' = e_roleHolders ?e" "e_directRoles e' = e_directRoles ?e"
      "\<And>r. fmlookup (roles_in e') r =
         (if r \<in> Name ` set xs then map_option (drop_parent name) (fmlookup (roles_in ?e) r)
          else fmlookup (roles_in ?e) r)"
      "\<And>uid. fmlookup (e_cache e') uid =
         (if \<exists>x \<in> set xs. Parent x = name \<and> uid |\<in>| holders_of ?e (Name x) then None
          else fmlookup (e_cache ?e) uid)"
      using Cons.IH [of ?e] Cons.prems(2) writes rest by auto
    moreover have "detach_children ops name (x # xs) e = detach_children ops name xs ?e"
      using True writes by (simp add: split_beta)
    ultimately show ?thesis
      using True writes x Cons.prems(2)
      by (intro exI [of _ e']) (auto simp: drop_parent_def)
  qed
qed

end

text \<open>Folding a critical section over a list.\<close>

lemma fold_invalidate [simp]:
  "e_store (foldl (\<lambda>e uid. invalidateUser uid e) e hs) = e_store e"
  "e_maxDepth (foldl (\<lambda>e uid. invalidateUser uid e) e hs) = e_maxDepth e"
  "e_roleHolders (foldl (\<lambda>e uid. invalidateUser uid e) e hs) = e_roleHolders e"
  "e_directRoles (foldl (\<lambda>e uid. invalidateUser uid e) e hs) = e_directRoles e"
  "fmlookup (e_cache (foldl (\<lambda>e uid. invalidateUser uid e) e hs)) v =
     (if v \<in> set hs then None else fmlookup (e_cache e) v)"
  by (induction hs arbitrary: e) auto

lemma fold_grant [simp]:
  "e_store (foldl (\<lambda>e role. grantHolder uid role e) e rs) = e_store e"
  "e_maxDepth (foldl (\<lambda>e role. grantHolder uid role e) e rs) = e_maxDepth e"
  "e_cache (foldl (\<lambda>e role. grantHolder uid role e) e rs) = e_cache e"
  "e_directRoles (foldl (\<lambda>e role. grantHolder uid role e) e rs) = e_directRoles e"
  "v |\<in>| holders_of (foldl (\<lambda>e role. grantHolder uid role e) e rs) r \<longleftrightarrow>
     v |\<in>| holders_of e r \<or> v = uid \<and> r \<in> set rs"
  by (induction rs arbitrary: e) auto

context store_contract
begin

lemma listed_roles:
  assumes "ok s"
  obtains xs where "st_ListRoles ops s = Inr xs" and "distinct (map Name xs)"
    and "\<And>x. x \<in> set xs \<Longrightarrow> fmlookup (rof s) (Name x) = Some x"
    and "\<And>r x. fmlookup (rof s) r = Some x \<Longrightarrow> x \<in> set xs \<and> Name x = r"
  using list_roles [OF assms] role_key [OF assms] by metis

text \<open>The second loop, run on the listing of all roles.\<close>

lemma detach_all_children:
  assumes "ok (e_store e)"
  shows "\<exists>xs e'. st_ListRoles ops (e_store e) = Inr xs \<and>
    detach_children ops name xs e = (None, e') \<and> ok (e_store e') \<and>
    users_in e' = users_in e \<and> e_maxDepth e' = e_maxDepth e \<and>
    e_roleHolders e' = e_roleHolders e \<and> e_directRoles e' = e_directRoles e \<and>
    (\<forall>r. fmlookup (roles_in e') r = map_option (drop_parent name) (fmlookup (roles_in e) r)) \<and>
    (\<forall>uid. fmlookup (e_cache e') uid =
       (if \<exists>r x. fmlookup (roles_in e) r = Some x \<and> Parent x = name \<and> uid |\<in>| holders_of e r
        then None else fmlookup (e_cache e) uid))"
proof -
  obtain xs where xs: "st_ListRoles ops (e_store e) = Inr xs" "distinct (map Name xs)"
    and sound: "\<And>x. x \<in> set xs \<Longrightarrow> fmlookup (roles_in e) (Name x) = Some x"
    and complete: "\<And>r x. fmlookup (roles_in e) r = Some x \<Longrightarrow> x \<in> set xs \<and> Name x = r"
    using listed_roles [OF assms] by blast
  obtain e' where e': "detach_children ops name xs e = (None, e')" "ok (e_store e')"
    "users_in e' = users_in e" "e_maxDepth e' = e_maxDepth e"
    "e_roleHolders e' = e_roleHolders e" "e_directRoles e' = e_directRoles e"
    and roles: "\<And>r. fmlookup (roles_in e') r =
       (if r \<in> Name ` set xs then map_option (drop_parent name) (fmlookup (roles_in e) r)
        else fmlookup (roles_in e) r)"
    and cache: "\<And>uid. fmlookup (e_cache e') uid =
       (if \<exists>x \<in> set xs. Parent x = name \<and> uid |\<in>| holders_of e (Name x) then None
        else fmlookup (e_cache e) uid)"
    using detach_children_effect [OF assms xs(2) sound, of name] by auto
  have "fmlookup (roles_in e') r = map_option (drop_parent name) (fmlookup (roles_in e) r)" for r
    using complete [of r] by (cases "fmlookup (roles_in e) r") (auto simp: roles)
  moreover have "(\<exists>x \<in> set xs. Parent x = name \<and> uid |\<in>| holders_of e (Name x)) \<longleftrightarrow>
      (\<exists>r x. fmlookup (roles_in e) r = Some x \<and> Parent x = name \<and> uid |\<in>| holders_of e r)" for uid
    using sound complete by blast
  ultimately show ?thesis
    using xs(1) e' cache by (intro exI [of _ xs] exI [of _ e']) simp
qed

text \<open>The first loop, run on the holders of the deleted role.\<close>

lemma detach_all_holders:
  assumes ok: "ok (e_store e)" and ord: "go_range ord"
    and exact: "\<And>uid. uid |\<in>| holders_of e name \<longleftrightarrow>
      (\<exists>u. fmlookup (users_in e) uid = Some u \<and> name \<in> set (Roles u))"
  shows "\<exists>e'. detach_holders ops name (ord (holders_of e name)) e = (None, e') \<and>
    ok (e_store e') \<and> roles_in e' = roles_in e \<and> e_cache e' = e_cache e \<and>
    e_maxDepth e' = e_maxDepth e \<and>
    (\<forall>uid. fmlookup (users_in e') uid = map_option (drop_role name) (fmlookup (users_in e) uid)) \<and>
    (\<forall>r uid. uid |\<in>| holders_of e' r \<longleftrightarrow> r \<noteq> name \<and> uid |\<in>| holders_of e r) \<and>
    (\<forall>uid. uid |\<notin>| holders_of e name \<longrightarrow>
       fmlookup (e_directRoles e') uid = fmlookup (e_directRoles e) uid) \<and>
    (\<forall>uid. uid |\<in>| holders_of e name \<longrightarrow> direct_at (users_in e') e' uid)"
proof -
  let ?hs = "ord (holders_of e name)"
  have hs: "distinct ?hs" "set ?hs = fset (holders_of e name)"
    using ord by simp_all
  have known: "uid |\<in>| fmdom (users_in e)" if "uid \<in> set ?hs" for uid
    using that exact hs by (auto simp: fmdom_lookup)
  have others: "map_option (drop_role name) (fmlookup (users_in e) uid) = fmlookup (users_in e) uid"
    if "uid |\<notin>| holders_of e name" for uid
    using exact [of uid] that
    by (cases "fmlookup (users_in e) uid")
      (auto intro!: drop_role_same arg_cong [of _ _ length] filter_True)
  show ?thesis
    using detach_holders_effect [OF ok hs(1) known, of name] hs(2) others by auto
qed

text \<open>
  When the holder index is right about the deleted role, the role disappears from every
  user and from every role that named it as parent. The cache entries dropped are those
  of its holders and of the holders of its children.
\<close>

lemma DeleteRole_effect:
  assumes ok: "ok (e_store e)" and ord: "go_range ord" and name: "name |\<in>| fmdom (roles_in e)"
    and exact: "\<And>uid. uid |\<in>| holders_of e name \<longleftrightarrow>
      (\<exists>u. fmlookup (users_in e) uid = Some u \<and> name \<in> set (Roles u))"
    and loop: "parent_of (roles_in e) name \<noteq> Some name"
  shows "\<exists>e'. DeleteRole ord ops name e = (None, e') \<and> ok (e_store e') \<and>
    e_maxDepth e' = e_maxDepth e \<and>
    (\<forall>uid. fmlookup (users_in e') uid = map_option (drop_role name) (fmlookup (users_in e) uid)) \<and>
    (\<forall>r. fmlookup (roles_in e') r =
       (if r = name then None else map_option (drop_parent name) (fmlookup (roles_in e) r))) \<and>
    (\<forall>r uid. uid |\<in>| holders_of e' r \<longleftrightarrow> r \<noteq> name \<and> uid |\<in>| holders_of e r) \<and>
    (\<forall>uid. uid |\<notin>| holders_of e name \<longrightarrow>
       fmlookup (e_directRoles e') uid = fmlookup (e_directRoles e) uid) \<and>
    (\<forall>uid. uid |\<in>| holders_of e name \<longrightarrow> direct_at (users_in e') e' uid) \<and>
    (\<forall>uid. fmlookup (e_cache e') uid =
       (if uid |\<in>| holders_of e name \<or>
           (\<exists>r x. fmlookup (roles_in e) r = Some x \<and> Parent x = name \<and> uid |\<in>| holders_of e r)
        then None else fmlookup (e_cache e) uid))"
proof -
  let ?hs = "ord (holders_of e name)"
  obtain x where x: "fmlookup (roles_in e) name = Some x"
    using name by (auto simp: fmdom_lookup)
  then have noloop: "r \<noteq> name" if "fmlookup (roles_in e) r = Some y" "Parent y = name" for r y
    using loop that role_key [OF ok x] by (auto simp: parent_of_Some)
  obtain e1 where e1: "detach_holders ops name ?hs e = (None, e1)" "ok (e_store e1)"
    "roles_in e1 = roles_in e" "e_cache e1 = e_cache e" "e_maxDepth e1 = e_maxDepth e"
    "\<And>uid. fmlookup (users_in e1) uid = map_option (drop_role name) (fmlookup (users_in e) uid)"
    "\<And>r uid. uid |\<in>| holders_of e1 r \<longleftrightarrow> r \<noteq> name \<and> uid |\<in>| holders_of e r"
    "\<And>uid. uid |\<notin>| holders_of e name \<Longrightarrow>
       fmlookup (e_directRoles e1) uid = fmlookup (e_directRoles e) uid"
    "\<And>uid. uid |\<in>| holders_of e name \<Longrightarrow> direct_at (users_in e1) e1 uid"
    using detach_all_holders [OF ok ord exact] by auto
  obtain xs e2 where e2: "st_ListRoles ops (e_store e1) = Inr xs"
    "detach_children ops name xs e1 = (None, e2)" "ok (e_store e2)"
    "users_in e2 = users_in e1" "e_maxDepth e2 = e_maxDepth e1"
    "e_roleHolders e2 = e_roleHolders e1" "e_directRoles e2 = e_directRoles e1"
    "\<And>r. fmlookup (roles_in e2) r = map_option (drop_parent name) (fmlookup (roles_in e1) r)"
    "\<And>uid. fmlookup (e_cache e2) uid =
       (if \<exists>r x. fmlookup (roles_in e1) r = Some x \<and> Parent x = name \<and> uid |\<in>| holders_of e1 r
        then None else fmlookup (e_cache e1) uid)"
    using detach_all_children [OF e1(2), of name] by auto
  let ?e3 = "foldl (\<lambda>e uid. invalidateUser uid e)
    (e2\<lparr>e_roleHolders := fmdrop name (e_roleHolders e2)\<rparr>) ?hs"
  let ?e' = "?e3\<lparr>e_store := snd (st_DeleteRole ops name (e_store e2))\<rparr>"
  have children: "(\<exists>r y. fmlookup (roles_in e) r = Some y \<and> Parent y = name \<and> uid |\<in>| holders_of e1 r)
      \<longleftrightarrow> (\<exists>r y. fmlookup (roles_in e) r = Some y \<and> Parent y = name \<and> uid |\<in>| holders_of e r)" for uid
    using noloop e1(7) by blast
  have "DeleteRole ord ops name e = (None, ?e')"
    using x e1(1,3) e2(1,2,3,8) ok
    by (simp add: DeleteRole_def get_role split_beta Let_def delete_role fmdom_lookup)
  moreover have "fmlookup (e_cache ?e') uid =
      (if uid |\<in>| holders_of e name \<or>
          (\<exists>r x. fmlookup (roles_in e) r = Some x \<and> Parent x = name \<and> uid |\<in>| holders_of e r)
       then None else fmlookup (e_cache e) uid)" for uid
    using ord by (auto simp: e2(9) e1(3,4) children)
  moreover have "direct_at (users_in ?e') ?e' uid" if "uid |\<in>| holders_of e name" for uid
    using e1(9) [OF that] e2(3,4,7) by (simp add: direct_at_def delete_role_uof)
  ultimately show ?thesis
    using e1 e2 by (intro exI [of _ ?e']) (simp add: delete_role_uof delete_role_rof delete_role_ok)
qed

end

end
