(* ===== verification/Authz_Invariants.thy ===== *)
theory Authz_Invariants
  imports Authz_Effects
begin

text \<open>
  The enforcer's invariant and its preservation by every operation: the holder index and
  the memoised direct roles agree with the stored users, cached users exist, every stored
  permission is well formed, every parent exists, and inheritance has no cycle. Then the
  coherence of the permission cache: which operations keep it, and under which condition.
\<close>

section \<open>The invariant\<close>

definition holders_exact :: "(user_id, user) gomap \<Rightarrow> 's enforcer \<Rightarrow> bool" where
  "holders_exact us e \<longleftrightarrow>
     (\<forall>uid r. uid |\<in>| holders_of e r \<longleftrightarrow>
        (\<exists>u. fmlookup us uid = Some u \<and> r \<in> set (Roles u)))"

definition direct_exact :: "(user_id, user) gomap \<Rightarrow> 's enforcer \<Rightarrow> bool" where
  "direct_exact us e \<longleftrightarrow> (\<forall>uid. direct_at us e uid)"

definition cached_known :: "(user_id, user) gomap \<Rightarrow> 's enforcer \<Rightarrow> bool" where
  "cached_known us e \<longleftrightarrow> (\<forall>uid. fmlookup us uid = None \<longrightarrow> fmlookup (e_cache e) uid = None)"

definition users_wf :: "(user_id, user) gomap \<Rightarrow> bool" where
  "users_wf us \<longleftrightarrow> (\<forall>uid u. fmlookup us uid = Some u \<longrightarrow> list_all Permission_Valid (Direct u))"

definition roles_wf :: "(role_id, role) gomap \<Rightarrow> bool" where
  "roles_wf rs \<longleftrightarrow>
     (\<forall>r x. fmlookup rs r = Some x \<longrightarrow> list_all Permission_Valid (Permissions x)) \<and>
     (\<forall>r q. parent_of rs r = Some q \<longrightarrow> q |\<in>| fmdom rs) \<and>
     acyclic (up_rel (parent_of rs))"

definition enforcer_inv ::
  "(user_id, user) gomap \<Rightarrow> (role_id, role) gomap \<Rightarrow> 's enforcer \<Rightarrow> bool" where
  "enforcer_inv us rs e \<longleftrightarrow>
     holders_exact us e \<and> direct_exact us e \<and> cached_known us e \<and> users_wf us \<and> roles_wf rs"

text \<open>Every cached granted set is the one the store determines.\<close>

definition cache_coherent ::
  "(user_id, user) gomap \<Rightarrow> (role_id, role) gomap \<Rightarrow> 's enforcer \<Rightarrow> bool" where
  "cache_coherent us rs e \<longleftrightarrow> (\<forall>uid. coherent_at us rs e uid)"

lemma holders_exactD: "holders_exact us e \<Longrightarrow> uid |\<in>| holders_of e r \<longleftrightarrow>
    (\<exists>u. fmlookup us uid = Some u \<and> r \<in> set (Roles u))"
  by (simp add: holders_exact_def)

section \<open>Changes to the role table\<close>

text \<open>
  A role may be written when its permissions are valid and its parent passes the checks
  of \<open>validateInheritance\<close>.
\<close>

definition role_admissible :: "(role_id, role) gomap \<Rightarrow> role \<Rightarrow> bool" where
  "role_admissible rs x \<longleftrightarrow>
     list_all Permission_Valid (Permissions x) \<and>
     (Parent x \<noteq> '''' \<longrightarrow> Parent x |\<in>| fmdom rs \<and>
        Name x \<notin> up_closure (parent_of rs) {Parent x})"

lemma up_rel_upd_subset:
  "up_rel (parent_of (fmupd (Name x) x rs)) \<subseteq>
    (if Parent x = '''' then up_rel (parent_of rs)
     else insert (Name x, Parent x) (up_rel (parent_of rs)))"
  by (auto simp: parent_of_upd split: if_splits)

lemma roles_wf_upd:
  assumes "roles_wf rs" and "role_admissible rs x"
  shows "roles_wf (fmupd (Name x) x rs)"
proof -
  have "acyclic (if Parent x = '''' then up_rel (parent_of rs)
      else insert (Name x, Parent x) (up_rel (parent_of rs)))"
    using assms by (auto simp: roles_wf_def role_admissible_def up_closure_def)
  then have "acyclic (up_rel (parent_of (fmupd (Name x) x rs)))"
    using acyclic_subset up_rel_upd_subset by blast
  then show ?thesis
    using assms by (auto simp: roles_wf_def role_admissible_def parent_of_upd split: if_splits)
qed

text \<open>
  Rewriting a role without touching its parent, and cutting links, keep the table well formed.
\<close>

lemma roles_wf_same_parent:
  assumes wf: "roles_wf rs" and "fmlookup rs (Name x) = Some y" and "Parent x = Parent y"
    and "list_all Permission_Valid (Permissions x)"
  shows "roles_wf (fmupd (Name x) x rs)"
proof -
  have "parent_of (fmupd (Name x) x rs) = parent_of rs"
    using assms(2,3) by (auto simp: fun_eq_iff parent_of_upd parent_of_def)
  then show ?thesis
    using assms by (auto simp: roles_wf_def)
qed

lemma roles_wf_deleted:
  assumes wf: "roles_wf rs"
    and rs': "\<And>r. fmlookup rs' r =
      (if r = name then None else map_option (drop_parent name) (fmlookup rs r))"
  shows "roles_wf rs'"
proof -
  have parent: "parent_of rs r = Some q \<and> r \<noteq> name \<and> q \<noteq> name" if "parent_of rs' r = Some q" for r q
    using that by (auto simp: parent_of_Some rs' split: if_splits)
  then have "up_rel (parent_of rs') \<subseteq> up_rel (parent_of rs)"
    by auto
  then have "acyclic (up_rel (parent_of rs'))"
    using wf acyclic_subset by (auto simp: roles_wf_def)
  moreover have "q |\<in>| fmdom rs'" if "parent_of rs' r = Some q" for r q
    using parent [OF that] wf by (force simp: roles_wf_def fmdom_lookup rs')
  moreover have "list_all Permission_Valid (Permissions x)" if "fmlookup rs' r = Some x" for r x
    using that wf by (auto simp: rs' roles_wf_def split: if_splits)
  ultimately show ?thesis
    by (auto simp: roles_wf_def)
qed

text \<open>Grants do not depend on a role that is not effective.\<close>

lemma effective_roles_other:
  assumes "role \<notin> effective_roles rs names"
    and "\<And>r. r \<noteq> role \<Longrightarrow> fmlookup rs' r = fmlookup rs r"
  shows "effective_roles rs' names = effective_roles rs names"
  unfolding effective_roles_def
proof (rule up_closure_cong)
  fix a
  assume "a \<in> up_closure (parent_of rs) (set names)"
  with assms(1) have "a \<noteq> role"
    by (auto simp: effective_roles_def)
  with assms(2) show "parent_of rs' a = parent_of rs a"
    by (simp add: parent_of_def)
qed

lemma granted_perms_other:
  assumes "role \<notin> effective_roles rs (Roles u)"
    and "\<And>r. r \<noteq> role \<Longrightarrow> fmlookup rs' r = fmlookup rs r"
  shows "granted_perms rs' u = granted_perms rs u"
proof -
  have "role_perms rs' r = role_perms rs r" if "r \<in> effective_roles rs (Roles u)" for r
    using assms that by (cases "r = role") (auto simp: role_perms_def)
  then show ?thesis
    by (simp add: granted_perms_def effective_roles_other [OF assms])
qed

text \<open>A role that nobody names as parent is effective only for those who hold it.\<close>

definition childless :: "(role_id, role) gomap \<Rightarrow> role_id \<Rightarrow> bool" where
  "childless rs role \<longleftrightarrow> fmpred (\<lambda>r x. Parent x \<noteq> role) rs"

lemma childlessD: "childless rs role \<Longrightarrow> fmlookup rs r = Some x \<Longrightarrow> Parent x \<noteq> role"
  by (auto simp: childless_def dest: fmpredD)

lemma childless_effective:
  assumes "childless rs role" and "role \<notin> set names"
  shows "role \<notin> effective_roles rs names"
  unfolding effective_roles_def
  by (rule up_closure_no_child) (use assms in \<open>auto simp: parent_of_Some dest: childlessD\<close>)

section \<open>Writing one user, writing one role\<close>

text \<open>
  The shape shared by the four operations that rewrite a user: the holder index is exact
  for the new roles, the memoised roles are replaced or still right, the cache entry is
  dropped.
\<close>

lemma user_write_inv:
  assumes inv: "enforcer_inv us rs e" and u: "fmlookup us uid = Some u"
    and valid: "list_all Permission_Valid (Direct u')"
    and holders: "\<And>r v. v |\<in>| holders_of e' r \<longleftrightarrow>
      (if v = uid then r \<in> set (Roles u') else v |\<in>| holders_of e r)"
    and direct: "\<And>v. v \<noteq> uid \<Longrightarrow> fmlookup (e_directRoles e') v = fmlookup (e_directRoles e) v"
      "direct_at (fmupd uid u' us) e' uid"
    and cache: "e_cache e' = fmdrop uid (e_cache e)"
  shows "enforcer_inv (fmupd uid u' us) rs e'"
proof -
  have "holders_exact (fmupd uid u' us) e'"
    using inv by (auto simp: enforcer_inv_def holders_exact_def holders)
  moreover have "direct_at (fmupd uid u' us) e' v" for v
    using inv direct by (cases "v = uid") (auto simp: enforcer_inv_def direct_exact_def direct_at_def)
  ultimately show ?thesis
    using inv valid u
    by (auto simp: enforcer_inv_def cached_known_def users_wf_def direct_exact_def cache)
qed

lemma user_write_coherent:
  assumes "cache_coherent us rs e" and "e_cache e' = fmdrop uid (e_cache e)"
  shows "cache_coherent (fmupd uid u' us) rs e'"
  using assms by (auto simp: cache_coherent_def coherent_at_def)

text \<open>
  The shape shared by the four operations that rewrite a role. The invariant always holds
  after it; the cache stays coherent when nobody inherits from the role.
\<close>

lemma role_write_inv:
  assumes inv: "enforcer_inv us rs e" and "roles_wf rs'"
    and "e_roleHolders e' = e_roleHolders e" and "e_directRoles e' = e_directRoles e"
    and "e_cache e' = fmdrop_fset H (e_cache e)"
  shows "enforcer_inv us rs' e'"
  using assms
  by (auto simp: enforcer_inv_def holders_exact_def direct_exact_def direct_at_def cached_known_def)

lemma role_write_coherent:
  assumes inv: "holders_exact us e" and coh: "cache_coherent us rs e"
    and single: "\<And>r. r \<noteq> role \<Longrightarrow> fmlookup rs' r = fmlookup rs r"
    and child: "childless rs role"
    and cache: "e_cache e' = fmdrop_fset (holders_of e role) (e_cache e)"
  shows "cache_coherent us rs' e'"
  unfolding cache_coherent_def coherent_at_def
proof (intro allI impI)
  fix uid S u
  assume S: "fmlookup (e_cache e') uid = Some S" and u: "fmlookup us uid = Some u"
  then have S_old: "fmlookup (e_cache e) uid = Some S" and free: "uid |\<notin>| holders_of e role"
    by (auto simp: cache split: if_splits)
  then have "role \<notin> set (Roles u)"
    using inv u by (auto simp: holders_exact_def)
  then have "granted_perms rs' u = granted_perms rs u"
    using child single by (intro granted_perms_other childless_effective)
  then show "gs_wf S \<and> gs_perms S = granted_perms rs' u"
    using coh S_old u by (auto simp: cache_coherent_def coherent_at_def)
qed

section \<open>Every operation keeps the invariant\<close>

context store_contract
begin

abbreviation inv :: "'s enforcer \<Rightarrow> bool" where
  "inv e \<equiv> ok (e_store e) \<and> enforcer_inv (users_in e) (roles_in e) e"

abbreviation coherent :: "'s enforcer \<Rightarrow> bool" where
  "coherent e \<equiv> cache_coherent (users_in e) (roles_in e) e"

lemma user_key_same: "ok s \<Longrightarrow> fmlookup (uof s) uid = Some u \<Longrightarrow> ID u = uid"
  using user_key by blast

lemma role_key_same: "ok s \<Longrightarrow> fmlookup (rof s) r = Some x \<Longrightarrow> Name x = r"
  using role_key by blast

lemma put_user_views:
  assumes "ok (e_store e)" and "fmlookup (users_in e) (ID u) = Some v"
  shows "ok (e_store (put_user ops u e))"
    and "users_in (put_user ops u e) = fmupd (ID u) u (users_in e)"
    and "roles_in (put_user ops u e) = roles_in e"
  using assms update_user_writes [OF assms] by (simp_all add: update_user_ok update_user_rof)

lemma put_role_views:
  assumes "ok (e_store e)" and "fmlookup (roles_in e) (Name x) = Some y"
  shows "ok (e_store (put_role ops x e))"
    and "roles_in (put_role ops x e) = fmupd (Name x) x (roles_in e)"
    and "users_in (put_role ops x e) = users_in e"
  using assms update_role_writes [OF assms] by (simp_all add: update_role_ok update_role_uof)

subsection \<open>Users\<close>

lemma AssignRole_inv:
  assumes inv: "inv e"
  shows "inv (snd (AssignRole ops uid role e))"
proof (cases "fmlookup (users_in e) uid")
  case None
  then show ?thesis
    using inv by (simp add: AssignRole_effect)
next
  case (Some u)
  let ?u = "u\<lparr>Roles := Roles u @ [role]\<rparr>"
  have u: "fmlookup (users_in e) (ID ?u) = Some u" "ID u = uid"
    using Some inv user_key_same by auto
  note views = put_user_views [of e ?u, OF _ u(1)]
  have "enforcer_inv (fmupd uid ?u (users_in e)) (roles_in e)
      (invalidateUser uid (setDirectRoles uid (Roles u @ [role]) (grantHolder uid role (put_user ops ?u e))))"
    by (rule user_write_inv [of "users_in e" _ e _ u])
      (use inv Some in \<open>auto simp: enforcer_inv_def users_wf_def direct_at_def holders_exact_def\<close>)
  then show ?thesis
    using inv Some u views by (simp add: AssignRole_effect)
qed

lemma RevokeRole_inv:
  assumes inv: "inv e"
  shows "inv (snd (RevokeRole ops uid role e))"
proof (cases "fmlookup (users_in e) uid")
  case None
  then show ?thesis
    using inv by (simp add: RevokeRole_effect)
next
  case (Some u)
  let ?u = "u\<lparr>Roles := filter (\<lambda>r. r \<noteq> role) (Roles u)\<rparr>"
  have u: "fmlookup (users_in e) (ID ?u) = Some u" "ID u = uid"
    using Some inv user_key_same by auto
  note views = put_user_views [of e ?u, OF _ u(1)]
  have "enforcer_inv (fmupd uid ?u (users_in e)) (roles_in e)
      (invalidateUser uid (setDirectRoles uid (Roles ?u) (revokeHolder uid role (put_user ops ?u e))))"
    by (rule user_write_inv [of "users_in e" _ e _ u])
      (use inv Some in \<open>auto simp: enforcer_inv_def users_wf_def direct_at_def holders_exact_def\<close>)
  then show ?thesis
    using inv Some u views by (simp add: RevokeRole_effect Let_def)
qed

text \<open>The two operations on direct grants differ in the new list of grants only.\<close>

lemma direct_write_inv:
  assumes inv: "inv e" and u: "fmlookup (users_in e) uid = Some u"
    and "list_all Permission_Valid ps"
  shows "inv (invalidateUser uid (put_user ops (u\<lparr>Direct := ps\<rparr>) e))"
proof -
  have u': "fmlookup (users_in e) (ID (u\<lparr>Direct := ps\<rparr>)) = Some u" "ID u = uid"
    using u inv user_key_same by auto
  note views = put_user_views [of e "u\<lparr>Direct := ps\<rparr>", OF _ u'(1)]
  have "direct_at (users_in e) e uid"
    using inv by (simp add: enforcer_inv_def direct_exact_def)
  then have dir: "direct_at (fmupd uid (u\<lparr>Direct := ps\<rparr>) (users_in e))
      (invalidateUser uid (put_user ops (u\<lparr>Direct := ps\<rparr>) e)) uid"
    using u by (simp add: direct_at_def)
  have "enforcer_inv (fmupd uid (u\<lparr>Direct := ps\<rparr>) (users_in e)) (roles_in e)
      (invalidateUser uid (put_user ops (u\<lparr>Direct := ps\<rparr>) e))"
    by (rule user_write_inv [of "users_in e" _ e _ u])
      (use inv u assms(3) dir in
        \<open>auto simp: enforcer_inv_def holders_exact_def\<close>)
  then show ?thesis
    using inv u' views by simp
qed

lemma direct_valid: "inv e \<Longrightarrow> fmlookup (users_in e) uid = Some u \<Longrightarrow> list_all Permission_Valid (Direct u)"
  by (auto simp: enforcer_inv_def users_wf_def)

lemma GrantDirectPermission_inv: "inv e \<Longrightarrow> inv (snd (GrantDirectPermission ops uid p e))"
  using direct_write_inv direct_valid
  by (auto simp: GrantDirectPermission_effect split: option.split)

lemma RevokeDirectPermission_inv: "inv e \<Longrightarrow> inv (snd (RevokeDirectPermission ops uid p e))"
  using direct_write_inv direct_valid
  by (auto simp: RevokeDirectPermission_effect list_all_iff split: option.split)

lemma CreateUser_inv:
  assumes inv: "inv e"
  shows "inv (snd (CreateUser ops uid roles e))"
proof (cases "uid = '''' \<or> uid |\<in>| fmdom (users_in e)")
  case True
  then show ?thesis
    using inv
    by (auto simp: CreateUser_effect split_beta Let_def create_user_ok create_user_uof
        create_user_rof enforcer_inv_def holders_exact_def direct_exact_def direct_at_def
        cached_known_def)
next
  case False
  let ?u = "\<lparr>ID = uid, Roles = roles, Direct = []\<rparr>"
  let ?e = "setDirectRoles uid roles (foldl (\<lambda>e role. grantHolder uid role e)
    (e\<lparr>e_store := snd (st_CreateUser ops (Some ?u) (e_store e))\<rparr>) roles)"
  have new: "fmlookup (users_in e) uid = None"
    using False by (simp add: fmdom_notin)
  have "holders_exact (fmupd uid ?u (users_in e)) ?e"
    using inv new by (auto simp: enforcer_inv_def holders_exact_def)
  moreover have "direct_exact (fmupd uid ?u (users_in e)) ?e"
    using inv new by (auto simp: enforcer_inv_def direct_exact_def direct_at_def)
  ultimately have "enforcer_inv (fmupd uid ?u (users_in e)) (roles_in e) ?e"
    using inv by (auto simp: enforcer_inv_def cached_known_def users_wf_def)
  then show ?thesis
    using inv False
    by (simp add: CreateUser_effect split_beta Let_def create_user_ok create_user_uof create_user_rof)
qed

lemma DeleteUser_inv:
  assumes inv: "inv e"
  shows "inv (snd (DeleteUser ops uid e))"
proof -
  let ?e = "snd (DeleteUser ops uid e)"
  have "enforcer_inv (fmdrop uid (users_in e)) (roles_in e) ?e"
    using inv DeleteUser_effect [of e uid]
    by (auto simp: enforcer_inv_def holders_exact_def direct_exact_def direct_at_def
        cached_known_def users_wf_def)
  then show ?thesis
    using inv DeleteUser_effect [of e uid]
    by (simp add: delete_user_ok delete_user_uof delete_user_rof)
qed

end

subsection \<open>Roles\<close>

context store_contract
begin

lemma admissible_validated:
  assumes "ok (e_store e)" and "validateInheritance ops e x = None"
    and "list_all Permission_Valid (Permissions x)"
  shows "role_admissible (roles_in e) x"
  using validate_sound [OF assms(1,2)] assms(3) by (auto simp: role_admissible_def)

lemma role_put_inv:
  assumes inv: "inv e" and x: "fmlookup (roles_in e) (Name x) = Some y"
    and wf: "roles_wf (fmupd (Name x) x (roles_in e))"
  shows "inv (invalidateRoleHolders r (put_role ops x e))"
proof -
  have ok: "ok (e_store e)"
    using inv ..
  have "enforcer_inv (users_in e) (fmupd (Name x) x (roles_in e))
      (invalidateRoleHolders r (put_role ops x e))"
    by (rule role_write_inv [of _ "roles_in e" e _ _ "holders_of e r"]) (use inv wf in simp_all)
  then show ?thesis
    using put_role_views [OF ok x] by simp
qed

lemma CreateRole_inv:
  assumes inv: "inv e"
  shows "inv (snd (CreateRole ops name perms parent e))"
proof -
  let ?x = "\<lparr>Name = name, Permissions = perms, Parent = parent\<rparr>"
  let ?e = "e\<lparr>e_store := snd (st_CreateRole ops (Some ?x) (e_store e))\<rparr>"
  have same: "enforcer_inv (users_in e) rs ?e" if "roles_wf rs" for rs
    using inv that
    by (auto simp: enforcer_inv_def holders_exact_def direct_exact_def direct_at_def cached_known_def)
  have wf: "roles_wf (fmupd name ?x (roles_in e))"
    if "validateInheritance ops e ?x = None" and "list_all Permission_Valid perms"
    using roles_wf_upd [of "roles_in e" ?x] admissible_validated [of e ?x] inv that
    by (simp add: enforcer_inv_def)
  have wf0: "roles_wf (roles_in e)"
    using inv by (simp add: enforcer_inv_def)
  show ?thesis
    using inv same wf wf0
    by (auto simp: CreateRole_effect Let_def create_role_ok create_role_uof create_role_rof
        split: option.split)
qed

lemma UpdateRole_inv:
  assumes inv: "inv e"
  shows "inv (snd (UpdateRole ops name perms parent e))"
proof -
  let ?x = "\<lparr>Name = name, Permissions = perms, Parent = parent\<rparr>"
  have written: "inv (invalidateRoleHolders name (put_role ops ?x e))"
    if valid: "validateInheritance ops e ?x = None" "list_all Permission_Valid perms"
      and known: "name |\<in>| fmdom (roles_in e)"
  proof -
    obtain y where "fmlookup (roles_in e) (Name ?x) = Some y"
      using known by (auto simp: fmdom_lookup)
    moreover have "roles_wf (fmupd (Name ?x) ?x (roles_in e))"
      using inv valid by (intro roles_wf_upd admissible_validated) (auto simp: enforcer_inv_def)
    ultimately show ?thesis
      by (rule role_put_inv [OF inv])
  qed
  have "inv (put_role ops ?x e)" if "name |\<notin>| fmdom (roles_in e)"
    using inv that
    by (simp add: update_role_ok update_role_uof update_role_rof enforcer_inv_def
        holders_exact_def direct_exact_def direct_at_def cached_known_def)
  then show ?thesis
    using inv written by (auto simp: UpdateRole_effect Let_def split: option.split)
qed

text \<open>Granting and revoking rewrite the permissions of a stored role.\<close>

lemma role_perms_write_inv:
  assumes inv: "inv e" and x: "fmlookup (roles_in e) role = Some x"
    and "list_all Permission_Valid ps"
  shows "inv (invalidateRoleHolders r (put_role ops (x\<lparr>Permissions := ps\<rparr>) e))"
proof -
  have "Name x = role"
    using inv x role_key_same by blast
  then show ?thesis
    using inv x assms(3)
    by (intro role_put_inv [of e _ x] roles_wf_same_parent [of _ _ x]) (auto simp: enforcer_inv_def)
qed

lemma role_perms_valid: "inv e \<Longrightarrow> fmlookup (roles_in e) role = Some x \<Longrightarrow>
    list_all Permission_Valid (Permissions x)"
  by (auto simp: enforcer_inv_def roles_wf_def)

lemma GrantPermission_inv: "inv e \<Longrightarrow> inv (snd (GrantPermission ops role p e))"
  using role_perms_write_inv role_perms_valid
  by (auto simp: GrantPermission_effect split: option.split)

lemma RevokePermission_inv: "inv e \<Longrightarrow> inv (snd (RevokePermission ops role p e))"
  using role_perms_write_inv role_perms_valid
  by (auto simp: RevokePermission_effect list_all_iff split: option.split)

lemma SetParent_inv:
  assumes inv: "inv e"
  shows "inv (snd (SetParent ops role parent e))"
proof -
  have "inv (invalidateRoleHolders role (put_role ops (x\<lparr>Parent := parent\<rparr>) e))"
    if x: "fmlookup (roles_in e) role = Some x"
      and "validateInheritance ops e (x\<lparr>Parent := parent\<rparr>) = None" for x
  proof -
    have "Name x = role"
      using inv x role_key_same by blast
    then show ?thesis
      using inv x that(2) role_perms_valid [OF inv x]
      by (intro role_put_inv [of e _ x] roles_wf_upd admissible_validated) (auto simp: enforcer_inv_def)
  qed
  then show ?thesis
    using inv by (auto simp: SetParent_effect split: option.split)
qed

lemma DeleteRole_unknown:
  assumes "ok (e_store e)" and "name |\<notin>| fmdom (roles_in e)"
  shows "DeleteRole ord ops name e = (Some ErrRoleNotFound, e)"
  using assms by (simp add: DeleteRole_def get_role fmdom_notin)

lemma no_self_parent: "roles_wf rs \<Longrightarrow> parent_of rs name \<noteq> Some name"
  unfolding roles_wf_def by (metis acyclic_def r_into_trancl' up_rel_iff)

lemma DeleteRole_inv:
  assumes inv: "inv e" and ord: "go_range ord"
  shows "inv (snd (DeleteRole ord ops name e))"
proof (cases "name |\<in>| fmdom (roles_in e)")
  case False
  then show ?thesis
    using inv by (simp add: DeleteRole_unknown)
next
  case True
  have exact: "holders_exact (users_in e) e"
    using inv by (simp add: enforcer_inv_def)
  obtain e' where e': "DeleteRole ord ops name e = (None, e')" "ok (e_store e')"
    and users: "\<And>uid. fmlookup (users_in e') uid = map_option (drop_role name) (fmlookup (users_in e) uid)"
    and roles: "\<And>r. fmlookup (roles_in e') r =
       (if r = name then None else map_option (drop_parent name) (fmlookup (roles_in e) r))"
    and holders: "\<And>r uid. uid |\<in>| holders_of e' r \<longleftrightarrow> r \<noteq> name \<and> uid |\<in>| holders_of e r"
    and direct: "\<And>uid. uid |\<notin>| holders_of e name \<Longrightarrow>
       fmlookup (e_directRoles e') uid = fmlookup (e_directRoles e) uid"
      "\<And>uid. uid |\<in>| holders_of e name \<Longrightarrow> direct_at (users_in e') e' uid"
    and cache: "\<And>uid. fmlookup (e_cache e') uid =
       (if uid |\<in>| holders_of e name \<or>
           (\<exists>r x. fmlookup (roles_in e) r = Some x \<and> Parent x = name \<and> uid |\<in>| holders_of e r)
        then None else fmlookup (e_cache e) uid)"
    using DeleteRole_effect [of e ord name, OF _ ord True holders_exactD [OF exact] no_self_parent] inv
    by (auto simp: enforcer_inv_def)
  have "holders_exact (users_in e') e'"
    using exact by (auto simp: holders_exact_def holders users)
  moreover have "direct_at (users_in e') e' uid" for uid
  proof (cases "uid |\<in>| holders_of e name")
    case False
    then have "name \<notin> set (Roles u)" if "fmlookup (users_in e) uid = Some u" for u
      using exact that by (auto simp: holders_exact_def)
    then have "fmlookup (users_in e') uid = fmlookup (users_in e) uid"
      using drop_role_absent [of name] by (cases "fmlookup (users_in e) uid") (auto simp: users)
    then show ?thesis
      using inv False by (auto simp: direct_at_def direct enforcer_inv_def direct_exact_def)
  qed (rule direct(2))
  moreover have "roles_wf (roles_in e')"
    by (rule roles_wf_deleted [OF _ roles]) (use inv in \<open>simp add: enforcer_inv_def\<close>)
  moreover have "cached_known (users_in e') e'"
    using inv by (simp add: enforcer_inv_def cached_known_def users cache)
  moreover have "users_wf (users_in e')"
    using inv by (auto simp: enforcer_inv_def users_wf_def users)
  ultimately show ?thesis
    using e' by (simp add: enforcer_inv_def direct_exact_def)
qed

end

section \<open>Which operations keep the cache coherent\<close>

text \<open>Nobody holds the role.\<close>

definition unheld :: "(user_id, user) gomap \<Rightarrow> role_id \<Rightarrow> bool" where
  "unheld us role \<longleftrightarrow> fmpred (\<lambda>uid u. role \<notin> set (Roles u)) us"

text \<open>No child of the role has a child of its own.\<close>

definition grandchildless :: "(role_id, role) gomap \<Rightarrow> role_id \<Rightarrow> bool" where
  "grandchildless rs role \<longleftrightarrow> fmpred (\<lambda>r x. Parent x = role \<longrightarrow> childless rs r) rs"

lemma unheldD: "unheld us role \<Longrightarrow> fmlookup us uid = Some u \<Longrightarrow> role \<notin> set (Roles u)"
  by (auto simp: unheld_def dest: fmpredD)

lemma grandchildlessD: "grandchildless rs role \<Longrightarrow> fmlookup rs r = Some x \<Longrightarrow>
    Parent x = role \<Longrightarrow> childless rs r"
  by (auto simp: grandchildless_def dest: fmpredD)

text \<open>Without grandchildren, a role is effective only for its holders and its children's.\<close>

lemma grandchildless_effective:
  assumes "grandchildless rs role" and "role \<notin> set names"
    and "\<And>r x. fmlookup rs r = Some x \<Longrightarrow> Parent x = role \<Longrightarrow> r \<notin> set names"
  shows "role \<notin> effective_roles rs names"
proof -
  let ?B = "{a. a \<noteq> role \<and> parent_of rs a \<noteq> Some role}"
  have "effective_roles rs names \<subseteq> ?B"
    unfolding effective_roles_def
  proof (rule up_closure_least)
    show "set names \<subseteq> ?B"
      using assms(2,3) by (auto simp: parent_of_Some)
    show "b \<in> ?B" if "a \<in> ?B" and "parent_of rs a = Some b" for a b
      using that grandchildlessD [OF assms(1)] by (auto simp: parent_of_Some dest: childlessD)
  qed
  then show ?thesis
    by blast
qed

text \<open>Deleting a role that is not effective for a user does not change the user's grants.\<close>

lemma granted_perms_deleted:
  assumes "name \<notin> effective_roles rs (Roles u)"
    and rs': "\<And>r. fmlookup rs' r =
      (if r = name then None else map_option (drop_parent name) (fmlookup rs r))"
  shows "granted_perms rs' (drop_role name u) = granted_perms rs u"
proof -
  let ?E = "effective_roles rs (Roles u)"
  have "set (Roles u) \<subseteq> ?E"
    by (auto simp: effective_roles_def intro: up_closure_base)
  then have same: "drop_role name u = u"
    using assms(1) by (intro drop_role_absent) blast
  have parent: "parent_of rs' a = parent_of rs a" if "a \<in> ?E" for a
  proof -
    have "parent_of rs a \<noteq> Some name"
      using that assms(1) up_closure_step by (metis effective_roles_def)
    moreover have "a \<noteq> name"
      using that assms(1) by blast
    ultimately show ?thesis
      by (auto simp: parent_of_def rs' split: option.split)
  qed
  have "effective_roles rs' (Roles u) = ?E"
    unfolding effective_roles_def
    by (rule up_closure_cong) (rule parent [unfolded effective_roles_def])
  moreover have "role_perms rs' r = role_perms rs r" if "r \<in> ?E" for r
    using that assms(1) by (auto simp: role_perms_def rs' split: option.split)
  ultimately show ?thesis
    by (simp add: granted_perms_def same)
qed

context store_contract
begin

lemma coherent_views:
  assumes "coherent e" and "users_in e' = users_in e" and "roles_in e' = roles_in e"
    and "e_cache e' = e_cache e"
  shows "coherent e'"
  using assms by (simp add: cache_coherent_def coherent_at_def)

text \<open>Administration of users: unconditionally.\<close>

lemma AssignRole_coherent:
  assumes "inv e" and "coherent e"
  shows "coherent (snd (AssignRole ops uid role e))"
  using assms user_key_same [of "e_store e" uid] put_user_views [of e]
  by (auto simp: AssignRole_effect intro!: user_write_coherent split: option.split)

lemma RevokeRole_coherent:
  assumes "inv e" and "coherent e"
  shows "coherent (snd (RevokeRole ops uid role e))"
  using assms user_key_same [of "e_store e" uid] put_user_views [of e]
  by (auto simp: RevokeRole_effect Let_def intro!: user_write_coherent split: option.split)

lemma GrantDirectPermission_coherent:
  assumes "inv e" and "coherent e"
  shows "coherent (snd (GrantDirectPermission ops uid p e))"
  using assms user_key_same [of "e_store e" uid] put_user_views [of e]
  by (auto simp: GrantDirectPermission_effect intro!: user_write_coherent split: option.split)

lemma RevokeDirectPermission_coherent:
  assumes "inv e" and "coherent e"
  shows "coherent (snd (RevokeDirectPermission ops uid p e))"
  using assms user_key_same [of "e_store e" uid] put_user_views [of e]
  by (auto simp: RevokeDirectPermission_effect intro!: user_write_coherent split: option.split)

lemma CreateUser_coherent:
  assumes "inv e" and "coherent e"
  shows "coherent (snd (CreateUser ops uid roles e))"
  using assms
  by (auto simp: CreateUser_effect split_beta Let_def create_user_uof create_user_rof
      cache_coherent_def coherent_at_def enforcer_inv_def cached_known_def fmdom_notin)

lemma DeleteUser_coherent:
  assumes "inv e" and "coherent e"
  shows "coherent (snd (DeleteUser ops uid e))"
  using assms DeleteUser_effect [of e uid]
  by (auto simp: delete_user_uof delete_user_rof cache_coherent_def coherent_at_def)

text \<open>Administration of roles: when nobody inherits the change.\<close>

lemma role_put_coherent:
  assumes "inv e" and "coherent e" and x: "fmlookup (roles_in e) role = Some y" "Name x = role"
    and "childless (roles_in e) role"
  shows "coherent (invalidateRoleHolders role (put_role ops x e))"
  using role_write_coherent [of "users_in e" e "roles_in e" role "fmupd role x (roles_in e)"
      "invalidateRoleHolders role (put_role ops x e)"] assms put_role_views [of e x y]
  by (simp add: enforcer_inv_def)

lemma GrantPermission_coherent:
  assumes "inv e" and "coherent e" and "childless (roles_in e) role"
  shows "coherent (snd (GrantPermission ops role p e))"
proof (cases "fmlookup (roles_in e) role")
  case None
  then show ?thesis
    using assms by (simp add: GrantPermission_effect)
next
  case (Some x)
  then have "Name x = role"
    using assms role_key_same by blast
  then show ?thesis
    using assms Some role_put_coherent [OF assms(1,2) Some _ assms(3)]
    by (simp add: GrantPermission_effect split: option.split)
qed

lemma RevokePermission_coherent:
  assumes "inv e" and "coherent e" and "childless (roles_in e) role"
  shows "coherent (snd (RevokePermission ops role p e))"
proof (cases "fmlookup (roles_in e) role")
  case None
  then show ?thesis
    using assms by (simp add: RevokePermission_effect)
next
  case (Some x)
  then have "Name x = role"
    using assms role_key_same by blast
  then show ?thesis
    using assms Some role_put_coherent [OF assms(1,2) Some _ assms(3)]
    by (simp add: RevokePermission_effect split: option.split)
qed

lemma SetParent_coherent:
  assumes "inv e" and "coherent e" and "childless (roles_in e) role"
  shows "coherent (snd (SetParent ops role parent e))"
proof (cases "fmlookup (roles_in e) role")
  case None
  then show ?thesis
    using assms by (simp add: SetParent_effect)
next
  case (Some x)
  then have "Name x = role"
    using assms role_key_same by blast
  then show ?thesis
    using assms Some role_put_coherent [OF assms(1,2) Some _ assms(3)]
    by (simp add: SetParent_effect split: option.split)
qed

lemma UpdateRole_coherent:
  assumes "inv e" and "coherent e" and "childless (roles_in e) name"
  shows "coherent (snd (UpdateRole ops name perms parent e))"
proof (cases "fmlookup (roles_in e) name")
  case None
  have "coherent (put_role ops x e)" if "Name x = name" for x
    by (rule coherent_views [OF assms(2)])
      (use assms(1) that None in \<open>simp_all add: fmdom_lookup update_role_uof update_role_rof\<close>)
  then show ?thesis
    using assms None by (simp add: UpdateRole_effect Let_def fmdom_lookup split: option.split)
next
  case (Some y)
  then show ?thesis
    using assms role_put_coherent [OF assms(1,2) Some _ assms(3)]
    by (simp add: UpdateRole_effect Let_def fmdom_lookup split: option.split)
qed

lemma CreateRole_coherent:
  assumes inv: "inv e" and coh: "coherent e" and free: "unheld (users_in e) name"
  shows "coherent (snd (CreateRole ops name perms parent e))"
proof -
  let ?x = "\<lparr>Name = name, Permissions = perms, Parent = parent\<rparr>"
  let ?e = "e\<lparr>e_store := snd (st_CreateRole ops (Some ?x) (e_store e))\<rparr>"
  have exact: "holders_exact (users_in e) e" and wf: "roles_wf (roles_in e)"
    using inv by (simp_all add: enforcer_inv_def)
  have "cache_coherent (users_in e) (fmupd name ?x (roles_in e)) ?e"
    if new: "name |\<notin>| fmdom (roles_in e)" "name \<noteq> []"
  proof (rule role_write_coherent [OF exact coh, of name])
    show "childless (roles_in e) name"
      using wf new by (fastforce simp: childless_def fmpred_iff roles_wf_def parent_of_Some)
    have "holders_of e name = {||}"
      using exact free by (auto simp: holders_exact_def dest: unheldD)
    then show "e_cache ?e = fmdrop_fset (holders_of e name) (e_cache e)"
      by simp
  qed simp
  moreover have "coherent ?e" if "name |\<in>| fmdom (roles_in e)"
    by (rule coherent_views [OF coh])
      (use inv that in \<open>simp_all add: create_role_uof create_role_rof\<close>)
  ultimately show ?thesis
    using inv coh
    by (simp add: CreateRole_effect Let_def create_role_uof create_role_rof split: option.split)
qed

text \<open>Deleting a role reaches its holders and its children's holders, and no further.\<close>

lemma DeleteRole_coherent:
  assumes inv: "inv e" and coh: "coherent e" and ord: "go_range ord"
    and grand: "grandchildless (roles_in e) name"
  shows "coherent (snd (DeleteRole ord ops name e))"
proof (cases "name |\<in>| fmdom (roles_in e)")
  case False
  then show ?thesis
    using inv coh by (simp add: DeleteRole_unknown)
next
  case True
  have exact: "holders_exact (users_in e) e"
    using inv by (simp add: enforcer_inv_def)
  obtain e' where e': "DeleteRole ord ops name e = (None, e')"
    and users: "\<And>uid. fmlookup (users_in e') uid = map_option (drop_role name) (fmlookup (users_in e) uid)"
    and roles: "\<And>r. fmlookup (roles_in e') r =
       (if r = name then None else map_option (drop_parent name) (fmlookup (roles_in e) r))"
    and cache: "\<And>uid. fmlookup (e_cache e') uid =
       (if uid |\<in>| holders_of e name \<or>
           (\<exists>r x. fmlookup (roles_in e) r = Some x \<and> Parent x = name \<and> uid |\<in>| holders_of e r)
        then None else fmlookup (e_cache e) uid)"
    using DeleteRole_effect [of e ord name, OF _ ord True holders_exactD [OF exact] no_self_parent] inv
    by (auto simp: enforcer_inv_def)
  have "gs_wf S \<and> gs_perms S = granted_perms (roles_in e') u'"
    if S: "fmlookup (e_cache e') uid = Some S" and u': "fmlookup (users_in e') uid = Some u'" for uid S u'
  proof -
    obtain u where u: "fmlookup (users_in e) uid = Some u" "u' = drop_role name u"
      using u' users by auto
    have old: "fmlookup (e_cache e) uid = Some S" and far: "uid |\<notin>| holders_of e name"
      "\<And>r x. fmlookup (roles_in e) r = Some x \<Longrightarrow> Parent x = name \<Longrightarrow> uid |\<notin>| holders_of e r"
      using S cache [of uid] by (auto split: if_splits)
    have "name \<notin> effective_roles (roles_in e) (Roles u)"
      using far u(1) holders_exactD [OF exact] by (intro grandchildless_effective [OF grand]) auto
    then have "granted_perms (roles_in e') u' = granted_perms (roles_in e) u"
      using granted_perms_deleted roles u(2) by simp
    then show ?thesis
      using coh old u(1) by (simp add: cache_coherent_def coherent_at_def)
  qed
  then show ?thesis
    using e' by (simp add: cache_coherent_def coherent_at_def)
qed

end

end
