(* ===== verification/Authz_System.thy ===== *)
theory Authz_System
  imports Authz_Invariants
begin

text \<open>
  The enforcer as a transition system: one command per exported operation, the step
  relation, the states reachable from a new enforcer, and what holds in all of them.
\<close>

section \<open>Commands and steps\<close>

datatype command =
    CmdCreateUser user_id "role_id list"
  | CmdDeleteUser user_id
  | CmdAssignRole user_id role_id
  | CmdRevokeRole user_id role_id
  | CmdGrantDirect user_id permission
  | CmdRevokeDirect user_id permission
  | CmdCreateRole role_id "permission list" role_id
  | CmdUpdateRole role_id "permission list" role_id
  | CmdDeleteRole role_id
  | CmdGrant role_id permission
  | CmdRevoke role_id permission
  | CmdSetParent role_id role_id
  | CmdHasRole user_id role_id
  | CmdHasAnyRole user_id "role_id list"
  | CmdHasAllRoles user_id "role_id list"
  | CmdCheck user_id permission
  | CmdHasPermission user_id permission
  | CmdHasAll user_id "permission list"
  | CmdHasAny user_id "permission list"
  | CmdPermissionsFor user_id

text \<open>The state an operation leaves; \<open>None\<close> if it does not return.\<close>

fun exec ::
  "(string goset \<Rightarrow> string list) \<Rightarrow> 's store_ops \<Rightarrow> command \<Rightarrow> 's enforcer \<Rightarrow> 's enforcer option" where
  "exec ord ops (CmdCreateUser uid rs) e = Some (snd (CreateUser ops uid rs e))"
| "exec ord ops (CmdDeleteUser uid) e = Some (snd (DeleteUser ops uid e))"
| "exec ord ops (CmdAssignRole uid r) e = Some (snd (AssignRole ops uid r e))"
| "exec ord ops (CmdRevokeRole uid r) e = Some (snd (RevokeRole ops uid r e))"
| "exec ord ops (CmdGrantDirect uid p) e = Some (snd (GrantDirectPermission ops uid p e))"
| "exec ord ops (CmdRevokeDirect uid p) e = Some (snd (RevokeDirectPermission ops uid p e))"
| "exec ord ops (CmdCreateRole r ps q) e = Some (snd (CreateRole ops r ps q e))"
| "exec ord ops (CmdUpdateRole r ps q) e = Some (snd (UpdateRole ops r ps q e))"
| "exec ord ops (CmdDeleteRole r) e = Some (snd (DeleteRole ord ops r e))"
| "exec ord ops (CmdGrant r p) e = Some (snd (GrantPermission ops r p e))"
| "exec ord ops (CmdRevoke r p) e = Some (snd (RevokePermission ops r p e))"
| "exec ord ops (CmdSetParent r q) e = Some (snd (SetParent ops r q e))"
| "exec ord ops (CmdHasRole uid r) e = Some (snd (HasRole ops uid r e))"
| "exec ord ops (CmdHasAnyRole uid rs) e = Some (snd (HasAnyRole ops uid rs e))"
| "exec ord ops (CmdHasAllRoles uid rs) e = Some (snd (HasAllRoles ops uid rs e))"
| "exec ord ops (CmdCheck uid p) e = map_option snd (Check ops uid p e)"
| "exec ord ops (CmdHasPermission uid p) e = map_option snd (HasPermission ops uid p e)"
| "exec ord ops (CmdHasAll uid ps) e = map_option snd (HasAllPermissions ops uid ps e)"
| "exec ord ops (CmdHasAny uid ps) e = map_option snd (HasAnyPermission ops uid ps e)"
| "exec ord ops (CmdPermissionsFor uid) e = map_option snd (PermissionsFor ord ops uid e)"

fun run ::
  "(string goset \<Rightarrow> string list) \<Rightarrow> 's store_ops \<Rightarrow> command list \<Rightarrow> 's enforcer \<Rightarrow> 's enforcer option" where
  "run ord ops [] e = Some e"
| "run ord ops (c # cs) e =
     (case exec ord ops c e of None \<Rightarrow> None | Some e \<Rightarrow> run ord ops cs e)"

text \<open>A step picks a command and an order in which maps are visited.\<close>

inductive enf_step :: "'s store_ops \<Rightarrow> 's enforcer \<Rightarrow> command \<Rightarrow> 's enforcer \<Rightarrow> bool"
  for ops where
  enf_step: "go_range ord \<Longrightarrow> exec ord ops c e = Some e' \<Longrightarrow> enf_step ops e c e'"

inductive_cases enf_stepE: "enf_step ops e c e'"

inductive_simps enf_step_iff: "enf_step ops e c e'"

inductive reachable :: "'s store_ops \<Rightarrow> 's enforcer \<Rightarrow> 's enforcer \<Rightarrow> bool"
  for ops e0 where
  reachable_start: "reachable ops e0 e0"
| reachable_step: "reachable ops e0 e \<Longrightarrow> enf_step ops e c e' \<Longrightarrow> reachable ops e0 e'"

text \<open>
  The commands after which no cached set is out of date. Administration of users always
  is; administration of a role is when nobody inherits from it (creation: when nobody
  holds it yet; deletion: when none of its children has children).
\<close>

fun cache_safe ::
  "(user_id, user) gomap \<Rightarrow> (role_id, role) gomap \<Rightarrow> command \<Rightarrow> bool" where
  "cache_safe us rs (CmdCreateRole r ps q) = unheld us r"
| "cache_safe us rs (CmdUpdateRole r ps q) = childless rs r"
| "cache_safe us rs (CmdDeleteRole r) = grandchildless rs r"
| "cache_safe us rs (CmdGrant r p) = childless rs r"
| "cache_safe us rs (CmdRevoke r p) = childless rs r"
| "cache_safe us rs (CmdSetParent r q) = childless rs r"
| "cache_safe us rs c = True"

fun is_query :: "command \<Rightarrow> bool" where
  "is_query (CmdHasRole uid r) = True"
| "is_query (CmdHasAnyRole uid rs) = True"
| "is_query (CmdHasAllRoles uid rs) = True"
| "is_query (CmdCheck uid p) = True"
| "is_query (CmdHasPermission uid p) = True"
| "is_query (CmdHasAll uid ps) = True"
| "is_query (CmdHasAny uid ps) = True"
| "is_query (CmdPermissionsFor uid) = True"
| "is_query c = False"

section \<open>Queries keep the invariant and coherence\<close>

lemma fills_inv:
  assumes "fills us rs e e'" and "enforcer_inv us rs e"
  shows "enforcer_inv us rs e'"
  unfolding enforcer_inv_def
proof (intro conjI)
  show "holders_exact us e'"
    using assms by (simp add: enforcer_inv_def holders_exact_def fills_frame)
  show "direct_exact us e'"
    using assms(2) by (auto simp: enforcer_inv_def direct_exact_def intro: fills_direct [OF assms(1)])
  show "cached_known us e'"
    using assms unfolding enforcer_inv_def cached_known_def fills_def by (metis option.distinct(1))
qed (use assms in \<open>simp_all add: enforcer_inv_def\<close>)

lemma fills_cache_coherent: "fills us rs e e' \<Longrightarrow> cache_coherent us rs e \<Longrightarrow> cache_coherent us rs e'"
  by (auto simp: cache_coherent_def intro: fills_coherent)

context store_contract
begin

text \<open>Whatever the cache holds, a query adds correct entries only.\<close>

lemma getGrantedSetFull_fills:
  assumes "ok (e_store e)"
  shows "\<exists>r e'. getGrantedSetFull ops uid e = Some (r, e') \<and> fills (users_in e) (roles_in e) e e'"
proof (cases "fmlookup (users_in e) uid")
  case None
  then show ?thesis
    using getGrantedSetFull_unknown assms by auto
next
  case u: (Some u)
  show ?thesis
  proof (cases "fmlookup (e_cache e) uid")
    case None
    then have "coherent_at (users_in e) (roles_in e) e uid"
      by (simp add: coherent_at_def)
    then show ?thesis
      using getGrantedSetFull_correct [OF assms _ u] by blast
  next
    case (Some S)
    then show ?thesis
      using assms u by (simp add: getGrantedSetFull_def get_user resolveRoles_correct)
  qed
qed

lemma with_granted_fills:
  assumes "ok (e_store e)"
  shows "\<exists>r e'. with_granted ops uid f e = Some (r, e') \<and> fills (users_in e) (roles_in e) e e'"
  using getGrantedSetFull_fills [OF assms, of uid]
  by (auto simp: with_granted_def getGrantedSet_def split: sum.splits)

lemma Check_fills:
  assumes "ok (e_store e)"
  shows "\<exists>r e'. Check ops uid q e = Some (r, e') \<and> fills (users_in e) (roles_in e) e e'"
  using getGrantedSetFull_fills [OF assms, of uid]
  by (auto simp: Check_def split: sum.splits)

lemma directRolesOf_fills:
  assumes "ok (e_store e)"
  shows "fills (users_in e) (roles_in e) e (snd (directRolesOf ops uid e))"
  using assms
  by (auto simp: directRolesOf_def publishDirectRoles_def get_user fills_def split: option.split)

lemma role_query_fills:
  assumes "ok (e_store e)"
  shows "fills (users_in e) (roles_in e) e (snd (HasRole ops uid r e))"
    and "fills (users_in e) (roles_in e) e (snd (HasAnyRole ops uid rs e))"
    and "fills (users_in e) (roles_in e) e (snd (HasAllRoles ops uid rs e))"
  using directRolesOf_fills [OF assms, of uid]
  by (auto simp: HasRole_def HasAnyRole_def HasAllRoles_def split: prod.splits sum.splits)

end

context store_contract
begin

section \<open>Steps and reachable states\<close>

lemma exec_query_fills:
  assumes ok: "ok (e_store e)" and "is_query c"
  shows "\<exists>e'. exec ord ops c e = Some e' \<and> fills (users_in e) (roles_in e) e e'"
proof -
  have "\<exists>e'. map_option snd (with_granted ops uid f e) = Some e' \<and>
      fills (users_in e) (roles_in e) e e'" for uid and f :: "granted_set \<Rightarrow> permission list"
    using with_granted_fills [OF ok, of uid f] by auto
  moreover have "\<exists>e'. map_option snd (with_granted ops uid f e) = Some e' \<and>
      fills (users_in e) (roles_in e) e e'" for uid and f :: "granted_set \<Rightarrow> bool"
    using with_granted_fills [OF ok, of uid f] by auto
  moreover have "\<exists>e'. map_option snd (Check ops uid q e) = Some e' \<and>
      fills (users_in e) (roles_in e) e e'" for uid q
    using Check_fills [OF ok, of uid q] by auto
  ultimately show ?thesis
    using assms(2) role_query_fills [OF ok]
    by (cases c) (simp_all only: exec.simps is_query.simps HasPermission_def HasAllPermissions_def
        HasAnyPermission_def PermissionsFor_def option.inject ex_simps simp_thms)
qed

lemma exec_admin_inv:
  assumes "inv e" and "go_range ord" and "\<not> is_query c"
  shows "\<exists>e'. exec ord ops c e = Some e' \<and> inv e'"
  using assms(3)
  by (cases c) (simp_all add: assms(1,2) CreateUser_inv DeleteUser_inv AssignRole_inv
      RevokeRole_inv GrantDirectPermission_inv RevokeDirectPermission_inv CreateRole_inv
      UpdateRole_inv DeleteRole_inv GrantPermission_inv RevokePermission_inv SetParent_inv)

text \<open>Every command returns, and keeps the invariant.\<close>

lemma exec_inv:
  assumes "inv e" and "go_range ord"
  shows "\<exists>e'. exec ord ops c e = Some e' \<and> inv e'"
proof (cases "is_query c")
  case True
  with assms(1) obtain e' where "exec ord ops c e = Some e'" and "fills (users_in e) (roles_in e) e e'"
    using exec_query_fills by blast
  then show ?thesis
    using fills_inv fills_frame(1) assms(1) by fastforce
next
  case False
  with assms show ?thesis
    by (rule exec_admin_inv)
qed

lemma enf_step_inv:
  assumes "inv e" and "enf_step ops e c e'"
  shows "inv e'"
proof -
  obtain ord where "go_range ord" and "exec ord ops c e = Some e'"
    using assms(2) by (auto simp: enf_step_iff)
  then show ?thesis
    using exec_inv [OF assms(1), of ord c] by auto
qed

lemma reachable_inv:
  assumes "reachable ops e0 e" and "inv e0"
  shows "inv e"
  using assms
proof (induction rule: reachable.induct)
  case (reachable_step e c e')
  then show ?case
    using enf_step_inv by blast
qed

text \<open>A safe command keeps the cache coherent.\<close>

lemma exec_coherent:
  assumes "inv e" and "coherent e" and "go_range ord"
    and "cache_safe (users_in e) (roles_in e) c" and "exec ord ops c e = Some e'"
  shows "coherent e'"
proof (cases "is_query c")
  case True
  then have "fills (users_in e) (roles_in e) e e'"
    using exec_query_fills [of e c ord] assms(1,5) by auto
  then show ?thesis
    using fills_cache_coherent [OF _ assms(2)] by (simp add: fills_frame)
next
  case False
  then show ?thesis
    using assms(4,5)
    by (cases c) (auto simp: assms(1-3) CreateUser_coherent DeleteUser_coherent
        AssignRole_coherent RevokeRole_coherent GrantDirectPermission_coherent
        RevokeDirectPermission_coherent CreateRole_coherent UpdateRole_coherent
        DeleteRole_coherent GrantPermission_coherent RevokePermission_coherent SetParent_coherent)
qed

end


section \<open>New enforcers\<close>

text \<open>An enforcer whose three caches are empty.\<close>

definition cold :: "'s enforcer \<Rightarrow> bool" where
  "cold e \<longleftrightarrow> e_cache e = fmempty \<and> e_roleHolders e = fmempty \<and> e_directRoles e = fmempty"

lemma cold_options [simp]:
  "cold (WithStore s e) = cold e"
  "cold (WithMaxDepth n e) = cold e"
  by (simp_all add: cold_def WithStore_def WithMaxDepth_def)

lemma New_Nil [simp]: "e_store (New s []) = s" "e_maxDepth (New s []) = 32" "cold (New s [])"
  by (simp_all add: New_def cold_def DefaultMaxDepth_def)

lemma New_snoc [simp]: "New s (opts @ [opt]) = opt (New s opts)"
  by (simp add: New_def)

text \<open>
  Options leave the caches empty, a depth option leaves the store alone, and whatever the
  options the depth bound is positive.
\<close>

definition known_option :: "'s option_fn \<Rightarrow> bool" where
  "known_option opt \<longleftrightarrow> (\<exists>s. opt = WithStore s) \<or> (\<exists>n. opt = WithMaxDepth n)"

lemma New_cold: "list_all known_option opts \<Longrightarrow> cold (New s opts) \<and> e_maxDepth (New s opts) > 0"
  by (induction opts rule: rev_induct)
    (auto simp: known_option_def, auto simp: WithStore_def WithMaxDepth_def)

lemma New_depth_only:
  "list_all (\<lambda>opt. \<exists>n. opt = WithMaxDepth n) opts \<Longrightarrow> cold (New s opts) \<and> e_store (New s opts) = s"
  by (induction opts rule: rev_induct) (auto, auto simp: WithMaxDepth_def)

lemma cold_coherent: "cold e \<Longrightarrow> cache_coherent us rs e"
  by (simp add: cold_def cache_coherent_def coherent_at_def)

lemma cold_inv:
  assumes "cold e" and "\<And>uid u. fmlookup us uid = Some u \<Longrightarrow> Roles u = []"
    and "users_wf us" and "roles_wf rs"
  shows "enforcer_inv us rs e"
  using assms
  by (auto simp: cold_def enforcer_inv_def holders_exact_def direct_exact_def direct_at_def
      cached_known_def)

lemma roles_wf_empty [simp]: "roles_wf fmempty" "users_wf fmempty"
proof -
  have "up_rel (parent_of fmempty) = {}"
    by (simp add: up_rel_def parent_of_def)
  then show "roles_wf fmempty" "users_wf fmempty"
    by (simp_all add: roles_wf_def users_wf_def acyclic_def parent_of_def)
qed

section \<open>Runs that keep the cache coherent\<close>

text \<open>
  States reachable by commands that satisfy \<open>cache_safe\<close> where they are issued.
\<close>

inductive safe_reachable ::
  "('s \<Rightarrow> (user_id, user) gomap) \<Rightarrow> ('s \<Rightarrow> (role_id, role) gomap) \<Rightarrow>
     's store_ops \<Rightarrow> 's enforcer \<Rightarrow> 's enforcer \<Rightarrow> bool"
  for uof rof ops e0 where
  safe_start: "safe_reachable uof rof ops e0 e0"
| safe_step: "safe_reachable uof rof ops e0 e \<Longrightarrow>
    cache_safe (uof (e_store e)) (rof (e_store e)) c \<Longrightarrow> enf_step ops e c e' \<Longrightarrow>
    safe_reachable uof rof ops e0 e'"

context store_contract
begin

lemma safe_reachable_coherent:
  assumes "safe_reachable uof rof ops e0 e" and "inv e0" and "coherent e0"
  shows "inv e \<and> coherent e"
  using assms
proof (induction rule: safe_reachable.induct)
  case (safe_step e c e')
  then have "inv e" and "coherent e"
    by auto
  moreover obtain ord where "go_range ord" and "exec ord ops c e = Some e'"
    using safe_step.hyps by (auto elim: enf_stepE)
  ultimately show ?case
    using safe_step.hyps exec_coherent enf_step_inv by blast
qed simp

end

text \<open>The same for a list of commands, as a function: \<open>None\<close> once a command is not safe.\<close>

fun safe_run ::
  "('s \<Rightarrow> (user_id, user) gomap) \<Rightarrow> ('s \<Rightarrow> (role_id, role) gomap) \<Rightarrow>
     (string goset \<Rightarrow> string list) \<Rightarrow> 's store_ops \<Rightarrow> command list \<Rightarrow> 's enforcer \<Rightarrow>
     's enforcer option" where
  "safe_run uof rof ord ops [] e = Some e"
| "safe_run uof rof ord ops (c # cs) e =
     (if cache_safe (uof (e_store e)) (rof (e_store e)) c
      then (case exec ord ops c e of
          None \<Rightarrow> None
        | Some e \<Rightarrow> safe_run uof rof ord ops cs e)
      else None)"

lemma run_reachable:
  assumes "go_range ord" and "reachable ops e0 e" and "run ord ops cs e = Some e'"
  shows "reachable ops e0 e'"
  using assms(2,3)
  by (induction cs arbitrary: e)
    (auto split: option.splits intro: reachable_step enf_step [OF assms(1)])

lemma safe_run_reachable:
  assumes "go_range ord" and "safe_reachable uof rof ops e0 e"
    and "safe_run uof rof ord ops cs e = Some e'"
  shows "safe_reachable uof rof ops e0 e'"
  using assms(2,3)
  by (induction cs arbitrary: e)
    (auto split: option.splits if_splits intro: safe_step enf_step [OF assms(1)])

lemma safe_reachable_reachable: "safe_reachable uof rof ops e0 e \<Longrightarrow> reachable ops e0 e"
  by (induction rule: safe_reachable.induct) (auto intro: reachable.intros)

text \<open>An enforcer over a new memory store, whatever depth it was given.\<close>

definition fresh_enforcer :: "int list \<Rightarrow> memory_store enforcer" where
  "fresh_enforcer depths = New NewMemoryStore (map WithMaxDepth depths)"

lemma fresh_inv:
  "mem.inv (fresh_enforcer depths)" "mem.coherent (fresh_enforcer depths)"
proof -
  have "cold (fresh_enforcer depths) \<and> e_store (fresh_enforcer depths) = NewMemoryStore"
    unfolding fresh_enforcer_def by (rule New_depth_only) (auto simp: list_all_iff)
  moreover have "ms_users NewMemoryStore = fmempty" "ms_roles NewMemoryStore = fmempty"
    by (simp_all add: NewMemoryStore_def)
  moreover have "cold e \<Longrightarrow> enforcer_inv fmempty fmempty e" for e :: "memory_store enforcer"
    by (rule cold_inv) simp_all
  ultimately show "mem.inv (fresh_enforcer depths)" "mem.coherent (fresh_enforcer depths)"
    by (simp_all add: memory_ok_new cold_coherent)
qed

lemma fresh_reachable_inv: "reachable memory_ops (fresh_enforcer depths) e \<Longrightarrow> mem.inv e"
  using mem.reachable_inv fresh_inv(1) by blast

lemma fresh_safe_coherent:
  "safe_reachable ms_users ms_roles memory_ops (fresh_enforcer depths) e \<Longrightarrow>
     mem.inv e \<and> mem.coherent e"
  by (rule mem.safe_reachable_coherent [OF _ fresh_inv])

end
