(* ===== verification/Authz_Lemmas.thy ===== *)
theory Authz_Lemmas
  imports Authz_System
begin

text \<open>
  Consequences of the invariants that the properties rest on: what each operation means to
  the next query, what a failing operation leaves, what deleting a role does to the whole
  state, and the situations in which a cached set outlives the grant it was computed from.
\<close>

section \<open>Failing operations\<close>

text \<open>The error an administrative command returns.\<close>

fun admin_error ::
  "(string goset \<Rightarrow> string list) \<Rightarrow> 's store_ops \<Rightarrow> command \<Rightarrow> 's enforcer \<Rightarrow> lib_error option" where
  "admin_error ord ops (CmdCreateUser uid rs) e = fst (CreateUser ops uid rs e)"
| "admin_error ord ops (CmdDeleteUser uid) e = fst (DeleteUser ops uid e)"
| "admin_error ord ops (CmdAssignRole uid r) e = fst (AssignRole ops uid r e)"
| "admin_error ord ops (CmdRevokeRole uid r) e = fst (RevokeRole ops uid r e)"
| "admin_error ord ops (CmdGrantDirect uid p) e = fst (GrantDirectPermission ops uid p e)"
| "admin_error ord ops (CmdRevokeDirect uid p) e = fst (RevokeDirectPermission ops uid p e)"
| "admin_error ord ops (CmdCreateRole r ps q) e = fst (CreateRole ops r ps q e)"
| "admin_error ord ops (CmdUpdateRole r ps q) e = fst (UpdateRole ops r ps q e)"
| "admin_error ord ops (CmdDeleteRole r) e = fst (DeleteRole ord ops r e)"
| "admin_error ord ops (CmdGrant r p) e = fst (GrantPermission ops r p e)"
| "admin_error ord ops (CmdRevoke r p) e = fst (RevokePermission ops r p e)"
| "admin_error ord ops (CmdSetParent r q) e = fst (SetParent ops r q e)"
| "admin_error ord ops c e = None"

context store_contract
begin

abbreviation same_contents :: "'s enforcer \<Rightarrow> 's enforcer \<Rightarrow> bool" where
  "same_contents e e' \<equiv> users_in e' = users_in e \<and> roles_in e' = roles_in e"

lemma user_error_same:
  assumes "inv e"
  shows "fst (CreateUser ops uid rs e) \<noteq> None \<Longrightarrow> same_contents e (snd (CreateUser ops uid rs e))"
    and "fst (DeleteUser ops uid e) \<noteq> None \<Longrightarrow> same_contents e (snd (DeleteUser ops uid e))"
    and "fst (AssignRole ops uid r e) \<noteq> None \<Longrightarrow> same_contents e (snd (AssignRole ops uid r e))"
    and "fst (RevokeRole ops uid r e) \<noteq> None \<Longrightarrow> same_contents e (snd (RevokeRole ops uid r e))"
    and "fst (GrantDirectPermission ops uid p e) \<noteq> None \<Longrightarrow>
      same_contents e (snd (GrantDirectPermission ops uid p e))"
    and "fst (RevokeDirectPermission ops uid p e) \<noteq> None \<Longrightarrow>
      same_contents e (snd (RevokeDirectPermission ops uid p e))"
  using assms
  by (auto simp: CreateUser_effect DeleteUser_effect AssignRole_effect RevokeRole_effect
      GrantDirectPermission_effect RevokeDirectPermission_effect create_user_uof create_user_rof
      delete_user_uof delete_user_rof fmdom_notin Let_def split_beta
      split: if_splits option.splits)

lemma role_error_same:
  assumes "inv e"
  shows "fst (CreateRole ops r ps q e) \<noteq> None \<Longrightarrow> same_contents e (snd (CreateRole ops r ps q e))"
    and "fst (UpdateRole ops r ps q e) \<noteq> None \<Longrightarrow> same_contents e (snd (UpdateRole ops r ps q e))"
    and "fst (GrantPermission ops r p e) \<noteq> None \<Longrightarrow>
      same_contents e (snd (GrantPermission ops r p e))"
    and "fst (RevokePermission ops r p e) \<noteq> None \<Longrightarrow>
      same_contents e (snd (RevokePermission ops r p e))"
    and "fst (SetParent ops r q e) \<noteq> None \<Longrightarrow> same_contents e (snd (SetParent ops r q e))"
  using assms
  by (auto simp: CreateRole_effect UpdateRole_effect GrantPermission_effect
      RevokePermission_effect SetParent_effect create_role_uof create_role_rof
      update_role_uof update_role_rof Let_def split: if_splits option.splits)

text \<open>On a consistent enforcer \<open>DeleteRole\<close> fails for a missing role only.\<close>

lemma DeleteRole_done:
  assumes inv: "inv e" and ord: "go_range ord" and name: "name |\<in>| fmdom (roles_in e)"
  shows "\<exists>e'. DeleteRole ord ops name e = (None, e') \<and>
    (\<forall>uid. fmlookup (users_in e') uid = map_option (drop_role name) (fmlookup (users_in e) uid)) \<and>
    (\<forall>r. fmlookup (roles_in e') r =
       (if r = name then None else map_option (drop_parent name) (fmlookup (roles_in e) r))) \<and>
    (\<forall>r uid. uid |\<in>| holders_of e' r \<longleftrightarrow> r \<noteq> name \<and> uid |\<in>| holders_of e r)"
proof -
  have exact: "holders_exact (users_in e) e" and "parent_of (roles_in e) name \<noteq> Some name"
    using inv no_self_parent by (auto simp: enforcer_inv_def)
  with DeleteRole_effect [of e ord name, OF _ ord name holders_exactD [OF exact]] inv
  show ?thesis
    by auto
qed

lemma DeleteRole_error_same:
  assumes "inv e" and "go_range ord" and "fst (DeleteRole ord ops name e) \<noteq> None"
  shows "same_contents e (snd (DeleteRole ord ops name e))"
proof (cases "name |\<in>| fmdom (roles_in e)")
  case True
  then show ?thesis
    using DeleteRole_done [OF assms(1,2)] assms(3) by fastforce
next
  case False
  then show ?thesis
    using assms(1) by (simp add: DeleteRole_unknown)
qed

lemma admin_error_same:
  assumes "inv e" and "go_range ord" and "admin_error ord ops c e \<noteq> None"
    and "exec ord ops c e = Some e'"
  shows "same_contents e e'"
  using assms(3,4) user_error_same [OF assms(1)] role_error_same [OF assms(1)]
    DeleteRole_error_same [OF assms(1,2)]
  by (cases c) auto

end

section \<open>Effect on the next query\<close>

context store_contract
begin

lemma HasRole_inv:
  assumes "inv e"
  shows "fst (HasRole ops uid role e) =
    (case fmlookup (users_in e) uid of
       None \<Rightarrow> Inl ErrUserNotFound | Some u \<Rightarrow> Inr (role \<in> set (Roles u)))"
  using HasRole_correct [of e uid role] assms
  by (auto simp: enforcer_inv_def direct_exact_def)

lemma assign_then_has:
  assumes inv: "inv e" and "role |\<in>| fmdom (roles_in e)" and "uid |\<in>| fmdom (users_in e)"
  shows "fst (AssignRole ops uid role e) = None"
    and "fst (HasRole ops uid role (snd (AssignRole ops uid role e))) = Inr True"
proof -
  obtain u where u: "fmlookup (users_in e) uid = Some u" "ID u = uid"
    using assms user_key_same by (fastforce simp: fmdom_lookup)
  show "fst (AssignRole ops uid role e) = None"
    using assms u by (simp add: AssignRole_effect)
  have "\<exists>v. fmlookup (users_in (snd (AssignRole ops uid role e))) uid = Some v \<and> role \<in> set (Roles v)"
    using assms u put_user_views(2) [of e "u\<lparr>Roles := Roles u @ [role]\<rparr>" u]
    by (simp add: AssignRole_effect)
  then show "fst (HasRole ops uid role (snd (AssignRole ops uid role e))) = Inr True"
    using HasRole_inv [OF AssignRole_inv [OF inv]] by auto
qed

lemma revoke_then_lacks:
  assumes inv: "inv e" and "role |\<in>| fmdom (roles_in e)" and "uid |\<in>| fmdom (users_in e)"
  shows "fst (RevokeRole ops uid role e) = None"
    and "fst (HasRole ops uid role (snd (RevokeRole ops uid role e))) = Inr False"
proof -
  obtain u where u: "fmlookup (users_in e) uid = Some u" "ID u = uid"
    using assms user_key_same by (fastforce simp: fmdom_lookup)
  show "fst (RevokeRole ops uid role e) = None"
    using assms u by (simp add: RevokeRole_effect Let_def)
  have "\<exists>v. fmlookup (users_in (snd (RevokeRole ops uid role e))) uid = Some v \<and> role \<notin> set (Roles v)"
    using assms u put_user_views(2) [of e "u\<lparr>Roles := filter (\<lambda>r. r \<noteq> role) (Roles u)\<rparr>" u]
    by (simp add: RevokeRole_effect Let_def)
  then show "fst (HasRole ops uid role (snd (RevokeRole ops uid role e))) = Inr False"
    using HasRole_inv [OF RevokeRole_inv [OF inv]] by auto
qed

lemma grant_direct_stored:
  assumes inv: "inv e" and "Permission_Valid p" and "uid |\<in>| fmdom (users_in e)"
  shows "\<exists>u. fmlookup (users_in (snd (GrantDirectPermission ops uid p e))) uid = Some u \<and>
    p \<in> set (Direct u)"
proof -
  obtain u where u: "fmlookup (users_in e) uid = Some u" "ID u = uid"
    using assms user_key_same by (fastforce simp: fmdom_lookup)
  then show ?thesis
    using assms put_user_views(2) [of e "u\<lparr>Direct := Direct u @ [p]\<rparr>" u]
    by (simp add: GrantDirectPermission_effect)
qed

lemma Check_coherent:
  assumes "inv e" and "coherent e"
  shows "map_option fst (Check ops uid q e) = Some
    (case fmlookup (users_in e) uid of
       None \<Rightarrow> Some ErrUserNotFound
     | Some u \<Rightarrow>
         if allowed (roles_in e) u q then None
         else Some (PermissionDeniedError uid (Some u) q
           (sorted_list_of_set (effective_roles (roles_in e) (Roles u)))))"
  using Check_correct [of e uid q] assms by (auto simp: cache_coherent_def)

text \<open>The four permission queries say the same thing.\<close>

lemma queries_agree:
  assumes "inv e" and "coherent e" and "fmlookup (users_in e) uid = Some u"
  shows "map_option fst (HasPermission ops uid q e) = Some (Inr (allowed (roles_in e) u q))"
    and "map_option fst (HasAllPermissions ops uid qs e) =
      Some (Inr (\<forall>q \<in> set qs. allowed (roles_in e) u q))"
    and "map_option fst (HasAnyPermission ops uid qs e) =
      Some (Inr (\<exists>q \<in> set qs. allowed (roles_in e) u q))"
proof -
  have coh: "coherent_at (users_in e) (roles_in e) e uid" and ok: "ok (e_store e)"
    using assms by (simp_all add: cache_coherent_def)
  show "map_option fst (HasPermission ops uid q e) = Some (Inr (allowed (roles_in e) u q))"
    using HasPermission_correct [OF ok coh] assms(3) by auto
  show "map_option fst (HasAllPermissions ops uid qs e) =
      Some (Inr (\<forall>q \<in> set qs. allowed (roles_in e) u q))"
    using HasAllPermissions_correct [OF ok coh] assms(3) by auto
  show "map_option fst (HasAnyPermission ops uid qs e) =
      Some (Inr (\<exists>q \<in> set qs. allowed (roles_in e) u q))"
    using HasAnyPermission_correct [OF ok coh] assms(3) by auto
qed

section \<open>Cached sets that outlive their grants\<close>

text \<open>A check of a cached user asks the cached set, whatever the store says.\<close>

lemma Check_cached:
  assumes "ok (e_store e)" and "fmlookup (e_cache e) uid = Some S"
    and "fmlookup (users_in e) uid = Some u" and "gs_has (Some S) q"
  shows "map_option fst (Check ops uid q e) = Some None"
  using assms by (simp add: Check_def getGrantedSetFull_def get_user resolveRoles_correct)

text \<open>
  Revoking a permission of a role drops the cached sets of its direct holders only. Someone
  who inherits the role keeps the permission.
\<close>

lemma revoked_inherited:
  assumes inv: "inv e" and coh: "coherent e"
    and u: "fmlookup (users_in e) uid = Some u" and "role \<notin> set (Roles u)"
    and cached: "fmlookup (e_cache e) uid \<noteq> None" and "allowed (roles_in e) u q"
  shows "map_option fst (Check ops uid q (snd (RevokePermission ops role p e))) = Some None"
proof -
  obtain S where S: "fmlookup (e_cache e) uid = Some S"
    using cached by auto
  with assms have has: "gs_has (Some S) q"
    by (simp add: cache_coherent_def coherent_at_def allowed_def gs_has_perms)
  have "uid |\<notin>| holders_of e role"
    using inv u assms(4) by (auto simp: enforcer_inv_def holders_exact_def)
  then have "fmlookup (e_cache (snd (RevokePermission ops role p e))) uid = Some S"
    using inv S by (simp add: RevokePermission_effect split: option.split)
  moreover have "fmlookup (users_in (snd (RevokePermission ops role p e))) uid = Some u"
    using inv u role_key_same
    by (auto simp: RevokePermission_effect update_role_uof split: option.split)
  ultimately show ?thesis
    using Check_cached RevokePermission_inv [OF inv] has by blast
qed

text \<open>
  A granted set computed from the store before a change is published after it: the
  publication does not look at the store again.
\<close>

lemma published_stale:
  assumes inv: "inv e" and u: "fmlookup (users_in e) uid = Some u"
    and S: "computeSet ops (e_store e) u = Some (Inr (S, rs))"
    and q: "allowed (roles_in e) u q"
    and e1: "inv e1" "fmlookup (e_cache e1) uid = None"
    and u1: "fmlookup (users_in e1) uid = Some u1"
  shows "map_option fst (Check ops uid q (snd (publishGranted u S e1))) = Some None"
proof -
  have "gs_wf S" and "gs_perms S = granted_perms (roles_in e) u"
    using computeSet_correct [of "e_store e" u] inv S by auto
  then have "gs_has (Some S) q"
    using q by (simp add: allowed_def gs_has_perms)
  moreover have "ID u = uid"
    using inv u user_key_same by blast
  then have "e_store (snd (publishGranted u S e1)) = e_store e1"
    and "fmlookup (e_cache (snd (publishGranted u S e1))) uid = Some S"
    using e1(2) by (auto simp: publishGranted_def split: option.split)
  ultimately show ?thesis
    using Check_cached [of "snd (publishGranted u S e1)" uid S u1 q] e1(1) u1 by simp
qed

end

end
