(* ===== verification/Authz_Properties.thy ===== *)
theory Authz_Properties
  imports Authz_Lemmas
begin

text \<open>
  The properties of the RBAC core over the store the code ships, \<open>MemoryStore\<close>: what holds
  in every state a new enforcer can reach, what holds in the states reached by commands
  that leave no stale cache entry, and the states in which a stale entry answers.
\<close>

section \<open>Worked states\<close>

text \<open>
  A scenario the witnesses use: an article role, an editor role that inherits from it, and
  a user of each kind.
\<close>

abbreviation perm :: "string \<Rightarrow> string \<Rightarrow> permission" where
  "perm r a \<equiv> \<lparr>Resource = r, Action = a\<rparr>"

abbreviation start :: "memory_store enforcer" where
  "start \<equiv> fresh_enforcer []"

definition after :: "command list \<Rightarrow> memory_store enforcer" where
  "after cs = the (run sorted_list_of_fset memory_ops cs start)"

definition safely :: "command list \<Rightarrow> bool" where
  "safely cs \<longleftrightarrow> safe_run ms_users ms_roles sorted_list_of_fset memory_ops cs start \<noteq> None"

definition staff :: "command list" where
  "staff =
     [CmdCreateRole ''reader'' [perm ''article'' ''read''] '''',
      CmdCreateRole ''editor'' [perm ''article'' ''edit''] ''reader'',
      CmdCreateUser ''ann'' [''reader''],
      CmdCreateUser ''bob'' [''editor''],
      CmdCheck ''bob'' (perm ''article'' ''read'')]"

lemma after_reachable:
  assumes "run sorted_list_of_fset memory_ops cs start \<noteq> None"
  shows "reachable memory_ops start (after cs)"
  unfolding after_def
  by (rule run_reachable [OF go_range_sorted reachable_start]) (use assms in simp)

lemma safe_run_run:
  "safe_run uof rof ord ops cs e = Some e' \<Longrightarrow> run ord ops cs e = Some e'"
  by (induction cs arbitrary: e) (auto split: option.splits if_splits)

lemma safely_reachable:
  assumes "safely cs"
  shows "safe_reachable ms_users ms_roles memory_ops start (after cs)"
proof -
  obtain e where e: "safe_run ms_users ms_roles sorted_list_of_fset memory_ops cs start = Some e"
    using assms by (auto simp: safely_def)
  then have "after cs = e"
    using safe_run_run [OF e] by (simp add: after_def)
  then show ?thesis
    using safe_run_reachable [OF go_range_sorted safe_start e] by simp
qed

lemma reachable_inv_ok: "reachable memory_ops (fresh_enforcer depths) e \<Longrightarrow> memory_ok (e_store e)"
  using fresh_reachable_inv by blast

lemma drop_role_fun: "drop_role name = (\<lambda>u. u\<lparr>Roles := filter (\<lambda>r. r \<noteq> name) (Roles u)\<rparr>)"
  by (simp add: fun_eq_iff drop_role_def)

lemma drop_parent_fun:
  "drop_parent name = (\<lambda>x. if Parent x = name then x\<lparr>Parent := ''''\<rparr> else x)"
  by (simp add: fun_eq_iff drop_parent_def)

lemma safely_staff: "safely staff"
  by code_simp

lemma staff_reachable: "reachable memory_ops start (after staff)"
  by (rule safe_reachable_reachable [OF safely_reachable [OF safely_staff]])

section \<open>Access control\<close>

text \<open>C1: After any sequence of operations that leaves no stale cache entry (administration of
users, and of roles nobody inherits from), \<open>Check\<close> returns, and answers exactly what the stored
users and roles say: \<open>nil\<close> if a grant of an effective role or a direct grant matches, a denial
that lists the effective roles in order otherwise, \<open>ErrUserNotFound\<close> for a missing user.\<close>

theorem check_exact:
  assumes "safe_reachable ms_users ms_roles memory_ops (fresh_enforcer depths) e"
  shows "map_option fst (Check memory_ops uid q e) = Some
    (case fmlookup (ms_users (e_store e)) uid of
       None \<Rightarrow> Some ErrUserNotFound
     | Some u \<Rightarrow>
         if allowed (ms_roles (e_store e)) u q then None
         else Some (PermissionDeniedError uid (Some u) q
           (sorted_list_of_set (effective_roles (ms_roles (e_store e)) (Roles u)))))"
  using fresh_safe_coherent [OF assms] by (intro mem.Check_coherent) blast+

theorem check_exact_witness:
  "\<exists>u. fmlookup (ms_users (e_store (after staff))) ''bob'' = Some u \<and>
     allowed (ms_roles (e_store (after staff))) u (perm ''article'' ''read'')"
proof -
  have "map_option fst (Check memory_ops ''bob'' (perm ''article'' ''read'') (after staff)) = Some None"
    by code_simp
  then show ?thesis
    using check_exact [OF safely_reachable [OF safely_staff], of "''bob''" "perm ''article'' ''read''"]
    by (auto split: option.splits if_splits)
qed

text \<open>C4: In every state a new enforcer can reach, stale caches or not, the holder index names
exactly the users who hold each role, the memoised direct roles are those of the stored user,
every cached user exists, every stored permission is valid, every parent exists, inheritance
has no cycle, and every object is filed under its own non-empty name.\<close>

theorem reachable_invariant:
  assumes "reachable memory_ops (fresh_enforcer depths) e"
  shows "memory_ok (e_store e) \<and> enforcer_inv (ms_users (e_store e)) (ms_roles (e_store e)) e"
  using fresh_reachable_inv [OF assms] .

theorem reachable_invariant_witness:
  "enforcer_inv (ms_users (e_store (after staff))) (ms_roles (e_store (after staff))) (after staff)"
  using reachable_invariant [OF staff_reachable] by blast

text \<open>C15: Revoking a permission from a role does not reach the users who inherit the role. If
a user who is cached and allowed \<open>q\<close> does not hold the role directly, the user still passes a check
of \<open>q\<close> after the revocation succeeded, also when no stored grant allows \<open>q\<close> any more.\<close>

theorem revoked_inherited_permission_survives:
  assumes "safe_reachable ms_users ms_roles memory_ops (fresh_enforcer depths) e"
    and "fmlookup (ms_users (e_store e)) uid = Some u" and "role \<notin> set (Roles u)"
    and "fmlookup (e_cache e) uid \<noteq> None" and "allowed (ms_roles (e_store e)) u q"
  shows "map_option fst (Check memory_ops uid q (snd (RevokePermission memory_ops role p e))) =
    Some None"
  using fresh_safe_coherent [OF assms(1)] assms(2-5) by (intro mem.revoked_inherited) blast+

theorem revoked_inherited_permission_survives_witness:
  "map_option fst (Check memory_ops ''bob'' (perm ''article'' ''read'')
     (snd (RevokePermission memory_ops ''reader'' (perm ''article'' ''read'') (after staff)))) = Some None"
proof (rule revoked_inherited_permission_survives [OF safely_reachable [OF safely_staff]])
  show u: "fmlookup (ms_users (e_store (after staff))) ''bob'' =
      Some \<lparr>ID = ''bob'', Roles = [''editor''], Direct = []\<rparr>"
    by code_simp
  show "''reader'' \<notin> set (Roles \<lparr>ID = ''bob'', Roles = [''editor''], Direct = []\<rparr>)"
    by simp
  show "fmlookup (e_cache (after staff)) ''bob'' \<noteq> None"
    by code_simp
  have "map_option fst (Check memory_ops ''bob'' (perm ''article'' ''read'') (after staff)) = Some None"
    by code_simp
  then show "allowed (ms_roles (e_store (after staff)))
      \<lparr>ID = ''bob'', Roles = [''editor''], Direct = []\<rparr> (perm ''article'' ''read'')"
    using mem.Check_coherent [of "after staff" "''bob''" "perm ''article'' ''read''"]
      fresh_safe_coherent [OF safely_reachable [OF safely_staff]] u
    by (auto split: if_splits)
qed

text \<open>The revocation of an inherited permission, end to end: after the role \<open>reader\<close> lost the
permission, a fresh enforcer over the same store denies it to \<open>bob\<close>, while the enforcer that had
cached him still grants it.\<close>

theorem revocation_not_effective:
  "let e = after (staff @ [CmdRevoke ''reader'' (perm ''article'' ''read'')]) in
     map_option fst (Check memory_ops ''bob'' (perm ''article'' ''read'') e) = Some None \<and>
     map_option fst (Check memory_ops ''bob'' (perm ''article'' ''read'')
       (New NewMemoryStore [WithStore (e_store e)])) =
       Some (Some (PermissionDeniedError ''bob'' (Some \<lparr>ID = ''bob'', Roles = [''editor''], Direct = []\<rparr>)
         (perm ''article'' ''read'') [''editor'', ''reader'']))"
  by code_simp

section \<open>Stale caches\<close>

text \<open>Creating a role drops no cached set. A user who was created with a role that did not
exist, and was checked, is denied the role's permissions after it was created, while an enforcer
with empty caches grants them.\<close>

theorem created_role_not_effective:
  "let e = after [CmdCreateUser ''eve'' [''auditor''], CmdCheck ''eve'' (perm ''log'' ''read''),
       CmdCreateRole ''auditor'' [perm ''log'' ''read''] ''''] in
     map_option fst (Check memory_ops ''eve'' (perm ''log'' ''read'') e) =
       Some (Some (PermissionDeniedError ''eve'' (Some \<lparr>ID = ''eve'', Roles = [''auditor''], Direct = []\<rparr>)
         (perm ''log'' ''read'') [''auditor''])) \<and>
     map_option fst (Check memory_ops ''eve'' (perm ''log'' ''read'')
       (New NewMemoryStore [WithStore (e_store e)])) = Some None"
  by code_simp

text \<open>Deleting a role drops the cached sets of its holders and of the holders of its
children, but not of the holders of its grandchildren: \<open>kim\<close> keeps what she inherited through
two links after the role is gone.\<close>

theorem deleted_role_still_effective:
  "let e = after [CmdCreateRole ''a'' [perm ''db'' ''drop''] '''', CmdCreateRole ''b'' [] ''a'',
       CmdCreateRole ''c'' [] ''b'', CmdCreateUser ''kim'' [''c''],
       CmdCheck ''kim'' (perm ''db'' ''drop''), CmdDeleteRole ''a''] in
     GetRole memory_ops ''a'' e = Inl ErrRoleNotFound \<and>
     map_option fst (Check memory_ops ''kim'' (perm ''db'' ''drop'') e) = Some None \<and>
     map_option fst (HasPermission memory_ops ''kim'' (perm ''db'' ''drop'')
       (New NewMemoryStore [WithStore (e_store e)])) = Some (Inr False)"
  by code_simp

text \<open>A check that computed a user's grants, was overtaken by any operations that leave the
user uncached, and then publishes what it had computed, leaves the old grants in the cache: the next
check answers from them.\<close>

theorem overtaken_check_publishes_stale_grants:
  assumes "reachable memory_ops (fresh_enforcer depths) e"
    and "fmlookup (ms_users (e_store e)) uid = Some u"
    and "computeSet memory_ops (e_store e) u = Some (Inr (S, roles))"
    and "allowed (ms_roles (e_store e)) u q"
    and "reachable memory_ops e e1" and "fmlookup (e_cache e1) uid = None"
    and "fmlookup (ms_users (e_store e1)) uid = Some u1"
  shows "map_option fst (Check memory_ops uid q (snd (publishGranted u S e1))) = Some None"
proof (rule mem.published_stale [where e = e and rs = roles])
  show "mem.inv e"
    by (rule fresh_reachable_inv [OF assms(1)])
  then show "mem.inv e1"
    by (rule mem.reachable_inv [OF assms(5)])
qed (use assms in blast)+

theorem overtaken_check_publishes_stale_grants_witness:
  "let ann = \<lparr>ID = ''ann'', Roles = [], Direct = [perm ''door'' ''open'']\<rparr>;
       e = after [CmdCreateUser ''ann'' [], CmdGrantDirect ''ann'' (perm ''door'' ''open'')];
       e1 = snd (RevokeDirectPermission memory_ops ''ann'' (perm ''door'' ''open'') e) in
     map_option fst (Check memory_ops ''ann'' (perm ''door'' ''open'')
       (snd (publishGranted ann
         \<lparr>byResource = fmupd ''door'' {|''open''|} fmempty\<rparr> e1))) = Some None \<and>
     map_option fst (HasPermission memory_ops ''ann'' (perm ''door'' ''open'') e1) = Some (Inr False)"
  unfolding Let_def
proof (intro conjI overtaken_check_publishes_stale_grants)
  let ?cs = "[CmdCreateUser ''ann'' [], CmdGrantDirect ''ann'' (perm ''door'' ''open'')]"
  let ?ann = "\<lparr>ID = ''ann'', Roles = [], Direct = [perm ''door'' ''open'']\<rparr>"
  have safe: "safely ?cs"
    by code_simp
  show "reachable memory_ops (fresh_enforcer []) (after ?cs)"
    by (rule safe_reachable_reachable [OF safely_reachable [OF safe]])
  show "fmlookup (ms_users (e_store (after ?cs))) ''ann'' = Some ?ann"
    by code_simp
  show "computeSet memory_ops (e_store (after ?cs)) ?ann =
      Some (Inr (\<lparr>byResource = fmupd ''door'' {|''open''|} fmempty\<rparr>, []))"
    by code_simp
  show "allowed (ms_roles (e_store (after ?cs))) ?ann (perm ''door'' ''open'')"
    by (simp add: allowed_def granted_perms_def)
  show "reachable memory_ops (after ?cs)
      (snd (RevokeDirectPermission memory_ops ''ann'' (perm ''door'' ''open'') (after ?cs)))"
    by (rule reachable_step [OF reachable_start enf_step [OF go_range_sorted,
        where c = "CmdRevokeDirect ''ann'' (perm ''door'' ''open'')"]]) simp
  show "fmlookup (e_cache (snd (RevokeDirectPermission memory_ops ''ann'' (perm ''door'' ''open'')
      (after ?cs)))) ''ann'' = None"
    by code_simp
  show "fmlookup (ms_users (e_store (snd (RevokeDirectPermission memory_ops ''ann''
      (perm ''door'' ''open'') (after ?cs))))) ''ann'' = Some \<lparr>ID = ''ann'', Roles = [], Direct = []\<rparr>"
    by code_simp
  show "map_option fst (HasPermission memory_ops ''ann'' (perm ''door'' ''open'')
      (snd (RevokeDirectPermission memory_ops ''ann'' (perm ''door'' ''open'') (after ?cs)))) =
      Some (Inr False)"
    by code_simp
qed

text \<open>\<open>WithStore\<close> builds no holder index. Over a store that already has users, deleting a role
succeeds but does not detach it from them, contrary to what \<open>DeleteRole\<close> promises; \<open>HasRole\<close>
goes on reporting it.\<close>

theorem with_store_delete_does_not_detach:
  "let e = New NewMemoryStore [WithStore (e_store (after staff))];
       (err, e') = DeleteRole sorted_list_of_fset memory_ops ''reader'' e in
     err = None \<and>
     GetUser memory_ops ''ann'' e' = Inr \<lparr>ID = ''ann'', Roles = [''reader''], Direct = []\<rparr> \<and>
     fst (HasRole memory_ops ''ann'' ''reader'' e') = Inr True"
  by code_simp

section \<open>Inheritance\<close>

text \<open>C21: Over any memory store whose objects are filed under their own names (cyclic or dangling
parent links included) the inheritance walk ends, and yields the roles reachable from the user's
roles by parent links, each once, in order.\<close>

theorem resolve_roles_terminates:
  assumes "memory_ok s"
  shows "resolveRoles memory_ops s u =
    Some (Inr (sorted_list_of_set (effective_roles (ms_roles s) (Roles u))))"
  by (rule mem.resolveRoles_correct [OF assms])

theorem resolve_roles_terminates_witness:
  "let r = (\<lambda>n p. \<lparr>Name = n, Permissions = [], Parent = p\<rparr>);
       s = \<lparr>ms_users = fmempty,
            ms_roles = fmupd ''a'' (r ''a'' ''b'') (fmupd ''b'' (r ''b'' ''a'') fmempty)\<rparr>;
       u = \<lparr>ID = ''u'', Roles = [''a''], Direct = []\<rparr> in
     sorted_list_of_set (effective_roles (ms_roles s) (Roles u)) = [''a'', ''b'']"
proof -
  let ?r = "\<lambda>n p. \<lparr>Name = n, Permissions = [], Parent = p\<rparr>"
  let ?s = "\<lparr>ms_users = fmempty,
    ms_roles = fmupd ''a'' (?r ''a'' ''b'') (fmupd ''b'' (?r ''b'' ''a'') fmempty)\<rparr>"
  let ?u = "\<lparr>ID = ''u'', Roles = [''a''], Direct = []\<rparr>"
  have ok: "memory_ok ?s"
    by (auto simp: memory_ok_def fmpred_iff)
  have "resolveRoles memory_ops ?s ?u = Some (Inr [''a'', ''b''])"
    by code_simp
  then show ?thesis
    using resolve_roles_terminates [OF ok, of ?u] by (simp add: Let_def)
qed

text \<open>C23: \<open>validateInheritance\<close> accepts a role exactly if it has no parent, or its parent exists,
the role is not among the parent's ancestors or the parent itself, and no ancestor of the role is
further away than the depth bound.\<close>

theorem validate_inheritance_exact:
  assumes "memory_ok (e_store e)"
  shows "validateInheritance memory_ops e r = None \<longleftrightarrow> Parent r = '''' \<or>
    Parent r |\<in>| fmdom (ms_roles (e_store e)) \<and>
    Name r \<notin> up_closure (parent_of (ms_roles (e_store e))) {Parent r} \<and>
    (\<forall>n b. (Parent r, b) \<in> up_rel (parent_of (ms_roles (e_store e))) ^^ n \<longrightarrow>
       int (n + 1) \<le> e_maxDepth e)"
  by (rule mem.validate_iff [OF assms])

theorem validate_inheritance_exact_witness:
  "let r = \<lparr>Name = ''reader'', Permissions = [], Parent = ''editor''\<rparr>; e = after staff in
     validateInheritance memory_ops e r = Some ErrCyclicInheritance \<and>
     ''editor'' |\<in>| fmdom (ms_roles (e_store e)) \<and>
     (''reader'' \<in> up_closure (parent_of (ms_roles (e_store e))) {''editor''} \<or>
      (\<exists>n b. (''editor'', b) \<in> up_rel (parent_of (ms_roles (e_store e))) ^^ n \<and>
         e_maxDepth e < int (n + 1)))"
proof -
  let ?r = "\<lparr>Name = ''reader'', Permissions = [], Parent = ''editor''\<rparr>"
  have "validateInheritance memory_ops (after staff) ?r = Some ErrCyclicInheritance"
    and "''editor'' |\<in>| fmdom (ms_roles (e_store (after staff)))"
    by code_simp+
  moreover have "memory_ok (e_store (after staff))"
    using reachable_inv_ok [OF staff_reachable] .
  ultimately show ?thesis
    using validate_inheritance_exact [of "after staff" ?r] by (auto simp: Let_def not_le)
qed

text \<open>The depth bound can be passed: the walk looks at the ancestors of the role that gets a
parent, not at its descendants. With a bound of 2, hanging the chain \<open>d -> c\<close> below \<open>b -> a\<close> is
accepted, and \<open>d\<close> then inherits through three links, a chain that \<open>CreateRole\<close> refuses.\<close>

theorem set_parent_exceeds_depth:
  "let cmds = [CmdCreateRole ''a'' [] '''', CmdCreateRole ''b'' [] ''a'',
         CmdCreateRole ''c'' [] '''', CmdCreateRole ''d'' [] ''c''];
       e = the (run sorted_list_of_fset memory_ops cmds (fresh_enforcer [2]));
       (err, e') = SetParent memory_ops ''c'' ''b'' e in
     e_maxDepth e = 2 \<and> err = None \<and>
     resolveRoles memory_ops (e_store e') \<lparr>ID = ''u'', Roles = [''d''], Direct = []\<rparr> =
       Some (Inr [''a'', ''b'', ''c'', ''d'']) \<and>
     fst (CreateRole memory_ops ''d2'' [] ''c'' e') = Some ErrInheritanceDepth"
  by code_simp

section \<open>Administration\<close>

text \<open>C25: In every reachable state, deleting an existing role succeeds and removes it everywhere:
from the role table, from the role list of every user (whose other roles keep their order), from
the parent link of every role, and from the holder index; nothing else in the store changes.\<close>

theorem delete_role_cascades:
  assumes "reachable memory_ops (fresh_enforcer depths) e" and "go_range ord"
    and "name |\<in>| fmdom (ms_roles (e_store e))"
  shows "\<exists>e'. DeleteRole ord memory_ops name e = (None, e') \<and>
    (\<forall>uid. fmlookup (ms_users (e_store e')) uid =
       map_option (\<lambda>u. u\<lparr>Roles := filter (\<lambda>r. r \<noteq> name) (Roles u)\<rparr>)
         (fmlookup (ms_users (e_store e)) uid)) \<and>
    (\<forall>r. fmlookup (ms_roles (e_store e')) r =
       (if r = name then None
        else map_option (\<lambda>x. if Parent x = name then x\<lparr>Parent := ''''\<rparr> else x)
          (fmlookup (ms_roles (e_store e)) r))) \<and>
    (\<forall>r uid. uid |\<in>| holders_of e' r \<longleftrightarrow> r \<noteq> name \<and> uid |\<in>| holders_of e r)"
  using mem.DeleteRole_done [OF fresh_reachable_inv [OF assms(1)] assms(2,3)]
  unfolding drop_role_fun drop_parent_fun .

theorem delete_role_cascades_witness:
  "\<exists>e'. DeleteRole sorted_list_of_fset memory_ops ''reader'' (after staff) = (None, e') \<and>
     fmlookup (ms_users (e_store e')) ''ann'' = Some \<lparr>ID = ''ann'', Roles = [], Direct = []\<rparr> \<and>
     fmlookup (ms_roles (e_store e')) ''reader'' = None"
proof -
  have "''reader'' |\<in>| fmdom (ms_roles (e_store (after staff)))"
    by code_simp
  moreover have "fmlookup (ms_users (e_store (after staff))) ''ann'' =
      Some \<lparr>ID = ''ann'', Roles = [''reader''], Direct = []\<rparr>"
    by code_simp
  ultimately show ?thesis
    using delete_role_cascades [OF staff_reachable go_range_sorted, of "''reader''"] by auto
qed

text \<open>C34: In every reachable state an administrative operation that returns an error, whichever
operation and whichever of its error branches, leaves the stored users and roles as they were.\<close>

theorem failed_operation_changes_nothing:
  assumes "reachable memory_ops (fresh_enforcer depths) e" and "go_range ord"
    and "admin_error ord memory_ops c e \<noteq> None" and "exec ord memory_ops c e = Some e'"
  shows "ms_users (e_store e') = ms_users (e_store e) \<and> ms_roles (e_store e') = ms_roles (e_store e)"
  by (rule mem.admin_error_same [OF fresh_reachable_inv [OF assms(1)] assms(2-4)])

theorem failed_operation_changes_nothing_witness:
  "ms_users (e_store (snd (SetParent memory_ops ''reader'' ''editor'' (after staff)))) =
     ms_users (e_store (after staff)) \<and>
   ms_roles (e_store (snd (SetParent memory_ops ''reader'' ''editor'' (after staff)))) =
     ms_roles (e_store (after staff))"
proof (rule failed_operation_changes_nothing [OF staff_reachable go_range_sorted])
  let ?c = "CmdSetParent ''reader'' ''editor''"
  show "admin_error sorted_list_of_fset memory_ops ?c (after staff) \<noteq> None"
    by code_simp
  show "exec sorted_list_of_fset memory_ops ?c (after staff) =
      Some (snd (SetParent memory_ops ''reader'' ''editor'' (after staff)))"
    by simp
qed

text \<open>In every reachable state, with a known user and a known role: assigning the role
succeeds and \<open>HasRole\<close> reports it at once; revoking it succeeds and \<open>HasRole\<close> denies it at once.\<close>

theorem assign_and_revoke_take_effect:
  assumes "reachable memory_ops (fresh_enforcer depths) e"
    and "role |\<in>| fmdom (ms_roles (e_store e))" and "uid |\<in>| fmdom (ms_users (e_store e))"
  shows "fst (AssignRole memory_ops uid role e) = None \<and>
    fst (HasRole memory_ops uid role (snd (AssignRole memory_ops uid role e))) = Inr True \<and>
    fst (RevokeRole memory_ops uid role e) = None \<and>
    fst (HasRole memory_ops uid role (snd (RevokeRole memory_ops uid role e))) = Inr False"
  using mem.assign_then_has mem.revoke_then_lacks fresh_reachable_inv [OF assms(1)] assms(2,3)
  by blast

theorem assign_and_revoke_take_effect_witness:
  "fst (HasRole memory_ops ''ann'' ''editor''
     (snd (AssignRole memory_ops ''ann'' ''editor'' (after staff)))) = Inr True"
proof -
  have "''editor'' |\<in>| fmdom (ms_roles (e_store (after staff)))"
    and "''ann'' |\<in>| fmdom (ms_users (e_store (after staff)))"
    by code_simp+
  then show ?thesis
    using assign_and_revoke_take_effect [OF staff_reachable] by blast
qed

section \<open>Queries\<close>

text \<open>In every reachable state every query returns, whatever the role graph and the caches
hold, and leaves the store, the holder index and the depth bound untouched.\<close>

theorem queries_return_and_only_fill_caches:
  assumes "reachable memory_ops (fresh_enforcer depths) e" and "is_query c"
  shows "\<exists>e'. exec ord memory_ops c e = Some e' \<and> e_store e' = e_store e \<and>
    e_roleHolders e' = e_roleHolders e \<and> e_maxDepth e' = e_maxDepth e"
  using mem.exec_query_fills [of e c ord] reachable_inv_ok [OF assms(1)] assms(2) fills_frame by metis

theorem queries_return_and_only_fill_caches_witness:
  "\<exists>e'. exec sorted_list_of_fset memory_ops (CmdPermissionsFor ''ann'') (after staff) = Some e' \<and>
     e_store e' = e_store (after staff)"
  using queries_return_and_only_fill_caches
    [OF staff_reachable, of "CmdPermissionsFor ''ann''" sorted_list_of_fset]
  by auto

text \<open>After safe operations the permission queries agree with one another: for a known user
\<open>HasPermission\<close> answers whether the stored grants allow the permission, \<open>HasAllPermissions\<close>
whether they allow all of a list (true for none), \<open>HasAnyPermission\<close> whether they allow one of it
(false for none).\<close>

theorem permission_queries_agree:
  assumes "safe_reachable ms_users ms_roles memory_ops (fresh_enforcer depths) e"
    and "fmlookup (ms_users (e_store e)) uid = Some u"
  shows "map_option fst (HasPermission memory_ops uid q e) =
      Some (Inr (allowed (ms_roles (e_store e)) u q)) \<and>
    map_option fst (HasAllPermissions memory_ops uid qs e) =
      Some (Inr (\<forall>q \<in> set qs. allowed (ms_roles (e_store e)) u q)) \<and>
    map_option fst (HasAnyPermission memory_ops uid qs e) =
      Some (Inr (\<exists>q \<in> set qs. allowed (ms_roles (e_store e)) u q))"
  using mem.queries_agree fresh_safe_coherent [OF assms(1)] assms(2) by blast

theorem permission_queries_agree_witness:
  "map_option fst (HasAllPermissions memory_ops ''bob'' [] (after staff)) = Some (Inr True) \<and>
   map_option fst (HasAnyPermission memory_ops ''bob'' [] (after staff)) = Some (Inr False)"
proof -
  have "fmlookup (ms_users (e_store (after staff))) ''bob'' =
      Some \<lparr>ID = ''bob'', Roles = [''editor''], Direct = []\<rparr>"
    by code_simp
  from permission_queries_agree [OF safely_reachable [OF safely_staff] this, of _ "[]"]
  show ?thesis
    by simp
qed

text \<open>After safe operations \<open>PermissionsFor\<close> lists exactly the granted patterns of a known user,
each once, in the order of their printed form, in whatever order the maps are visited.\<close>

theorem permissions_for_exact:
  assumes "safe_reachable ms_users ms_roles memory_ops (fresh_enforcer depths) e"
    and "fmlookup (ms_users (e_store e)) uid = Some u" and "go_range ord"
  shows "\<exists>ps e'. PermissionsFor ord memory_ops uid e = Some (Inr ps, e') \<and>
    set ps = granted_perms (ms_roles (e_store e)) u \<and> distinct ps \<and>
    sorted (map Permission_String ps)"
  using mem.PermissionsFor_correct [of e uid u ord] fresh_safe_coherent [OF assms(1)] assms(2,3)
  by (auto simp: cache_coherent_def)

theorem permissions_for_exact_witness:
  "\<exists>ps. map_option fst (PermissionsFor sorted_list_of_fset memory_ops ''bob'' (after staff)) =
       Some (Inr ps) \<and>
     set ps = granted_perms (ms_roles (e_store (after staff)))
       \<lparr>ID = ''bob'', Roles = [''editor''], Direct = []\<rparr> \<and> sorted (map Permission_String ps)"
proof -
  have "fmlookup (ms_users (e_store (after staff))) ''bob'' =
      Some \<lparr>ID = ''bob'', Roles = [''editor''], Direct = []\<rparr>"
    by code_simp
  from permissions_for_exact [OF safely_reachable [OF safely_staff] this go_range_sorted]
  show ?thesis
    by fastforce
qed

section \<open>Wildcards\<close>

text \<open>A direct grant whose resource is \<open>*\<close> opens every resource for every action, whatever its
own action says: after granting \<open>*:read\<close> to a known user, each check of that user passes.\<close>

theorem resource_wildcard_ignores_action:
  assumes "safe_reachable ms_users ms_roles memory_ops (fresh_enforcer depths) e"
    and "uid |\<in>| fmdom (ms_users (e_store e))"
  shows "map_option fst (Check memory_ops uid q
    (snd (GrantDirectPermission memory_ops uid (perm ''*'' a) e))) = Some None"
proof -
  let ?e' = "snd (GrantDirectPermission memory_ops uid (perm ''*'' a) e)"
  have e: "mem.inv e" "mem.coherent e"
    using fresh_safe_coherent [OF assms(1)] by auto
  obtain u where u: "fmlookup (ms_users (e_store ?e')) uid = Some u" and "perm ''*'' a \<in> set (Direct u)"
    using mem.grant_direct_stored [OF e(1) _ assms(2), of "perm ''*'' a"]
    by (auto simp: Permission_Valid_def)
  then have "allowed (ms_roles (e_store ?e')) u q"
    unfolding allowed_def granted_perms_def
    by (intro bexI [of _ "perm ''*'' a"]) (simp_all add: Matches_iff)
  then show ?thesis
    using mem.Check_coherent [OF mem.GrantDirectPermission_inv mem.GrantDirectPermission_coherent,
        OF e(1) e, of uid q uid "perm ''*'' a"] u by simp
qed

theorem resource_wildcard_ignores_action_witness:
  "map_option fst (Check memory_ops ''ann'' (perm ''article'' ''delete'')
     (snd (GrantDirectPermission memory_ops ''ann'' (perm ''*'' ''read'') (after staff)))) = Some None"
proof (rule resource_wildcard_ignores_action [OF safely_reachable [OF safely_staff]])
  show "''ann'' |\<in>| fmdom (ms_users (e_store (after staff)))"
    by code_simp
qed

section \<open>The order of a permission listing\<close>

text \<open>The order of \<open>PermissionsFor\<close> is not deterministic: two different permissions can have the
one printed form \<open>a:b:c\<close>, the listing is sorted by the printed form alone, and so two orders in which
Go may visit the maps give two listings.\<close>

theorem permission_listing_order_unspecified:
  "let e = after [CmdCreateUser ''u'' [], CmdGrantDirect ''u'' (perm ''a'' ''b:c''),
         CmdGrantDirect ''u'' (perm ''a:b'' ''c'')] in
     go_range (\<lambda>S. rev (sorted_list_of_fset S) :: string list) \<and>
     map_option fst (PermissionsFor sorted_list_of_fset memory_ops ''u'' e) =
       Some (Inr [perm ''a'' ''b:c'', perm ''a:b'' ''c'']) \<and>
     map_option fst (PermissionsFor (\<lambda>S. rev (sorted_list_of_fset S)) memory_ops ''u'' e) =
       Some (Inr [perm ''a:b'' ''c'', perm ''a'' ''b:c''])"
proof -
  let ?e = "after [CmdCreateUser ''u'' [], CmdGrantDirect ''u'' (perm ''a'' ''b:c''),
    CmdGrantDirect ''u'' (perm ''a:b'' ''c'')]"
  let ?S = "\<lparr>byResource = fmupd ''a:b'' {|''c''|} (fmupd ''a'' {|''b:c''|} fmempty)\<rparr>"
  have "map_option fst (getGrantedSet memory_ops ''u'' ?e) = Some (Inr ?S)"
    by code_simp
  then obtain e' where S: "getGrantedSet memory_ops ''u'' ?e = Some (Inr ?S, e')"
    by auto
  have "sort_key Permission_String (gs_flatten sorted_list_of_fset ?S) =
      [perm ''a'' ''b:c'', perm ''a:b'' ''c'']"
    and "sort_key Permission_String (gs_flatten (\<lambda>S. rev (sorted_list_of_fset S)) ?S) =
      [perm ''a:b'' ''c'', perm ''a'' ''b:c'']"
    by code_simp+
  moreover have "go_range (\<lambda>S. rev (sorted_list_of_fset S) :: string list)"
    using go_range_sorted by (simp add: go_range_def)
  ultimately show ?thesis
    by (simp add: PermissionsFor_def with_granted_def S)
qed

end
