(* ===== verification/Authz_Concurrent.thy ===== *)
theory Authz_Concurrent
  imports Authz_Properties
begin

text \<open>
  Two goroutines that administer users of one enforcer at the same time. The calls that
  change one user (\<open>authz/users.go\<close>) read the user from the store, change their copy, write
  it back and maintain the caches, and hold no lock from one of these to the next; here
  they are cut at these points. Run alone the pieces are the operations of \<open>Authz_Admin\<close>.
  Calls for different users can be interleaved at will; calls for the same user cannot.
  The same is done for \<open>SetParent\<close> (\<open>authz/roles.go\<close>), whose check and write can be overtaken.
\<close>

section \<open>Interleaving\<close>

text \<open>A schedule names the goroutine that takes each step: \<open>True\<close> the first, \<open>False\<close> the second.\<close>

fun interleave :: "('t \<Rightarrow> 's \<Rightarrow> 't \<times> 's) \<Rightarrow> bool list \<Rightarrow> 't \<times> 't \<times> 's \<Rightarrow> 't \<times> 't \<times> 's" where
  "interleave step [] st = st"
| "interleave step (b # bs) (t1, t2, s) =
     interleave step bs
       (if b then let (t1, s) = step t1 s in (t1, t2, s)
        else let (t2, s) = step t2 s in (t1, t2, s))"

fun solo :: "('t \<Rightarrow> 's \<Rightarrow> 't \<times> 's) \<Rightarrow> nat \<Rightarrow> 't \<times> 's \<Rightarrow> 't \<times> 's" where
  "solo step 0 st = st"
| "solo step (Suc n) (t, s) = solo step n (step t s)"

lemma interleave_append: "interleave step (bs @ cs) st = interleave step cs (interleave step bs st)"
  by (induction step bs st rule: interleave.induct) (auto split: prod.splits)

lemma interleave_first:
  "interleave step (replicate n True) (t1, t2, s) = (case solo step n (t1, s) of (t1, s) \<Rightarrow> (t1, t2, s))"
  by (induction n arbitrary: t1 s) (auto split: prod.splits)

lemma solo_add: "solo step (m + n) st = solo step n (solo step m st)"
  by (induction m arbitrary: st) (simp, metis add_Suc solo.simps(2) surj_pair)

text \<open>Threads whose steps commute: what one does is the same before and after a step of the other.\<close>

locale commuting_threads =
  fixes step :: "'t \<Rightarrow> 's \<Rightarrow> 't \<times> 's" and apart :: "'t \<Rightarrow> 't \<Rightarrow> 's \<Rightarrow> bool"
  assumes commute: "apart t1 t2 s \<Longrightarrow> step t1 s = (t1', s1) \<Longrightarrow> step t2 s1 = (t2', s12) \<Longrightarrow>
      \<exists>s2. step t2 s = (t2', s2) \<and> step t1 s2 = (t1', s12)"
    and apart_first: "apart t1 t2 s \<Longrightarrow> step t1 s = (t1', s1) \<Longrightarrow> apart t1' t2 s1"
    and apart_second: "apart t1 t2 s \<Longrightarrow> step t2 s = (t2', s2) \<Longrightarrow> apart t1 t2' s2"
begin

lemma swap:
  assumes "apart t1 t2 s" and "step t2 s = (t2', s2)" and "step t1 s2 = (t1', s12)"
  obtains s1 where "step t1 s = (t1', s1)" and "step t2 s1 = (t2', s12)"
proof -
  obtain x s1 where x: "step t1 s = (x, s1)"
    by (cases "step t1 s")
  obtain y s' where y: "step t2 s1 = (y, s')"
    by (cases "step t2 s1")
  show ?thesis
    using commute [OF assms(1) x y] assms(2,3) x y that by auto
qed

lemma postpone:
  assumes "apart t1 t2 s" and "step t2 s = (t2', s2)" and "solo step n (t1, s2) = (t1', s12)"
  shows "\<exists>s1. solo step n (t1, s) = (t1', s1) \<and> step t2 s1 = (t2', s12)"
  using assms
proof (induction n arbitrary: t1 s s2)
  case (Suc n)
  obtain x s3 where x: "step t1 s2 = (x, s3)"
    by (cases "step t1 s2")
  obtain s1 where s1: "step t1 s = (x, s1)" "step t2 s1 = (t2', s3)"
    using swap [OF Suc.prems(1,2) x] by blast
  show ?case
    using Suc.IH [OF apart_first [OF Suc.prems(1) s1(1)] s1(2)] Suc.prems(3) x s1(1) by simp
qed simp

theorem serial:
  assumes "apart t1 t2 s"
  shows "interleave step bs (t1, t2, s) =
    (case solo step (count_list bs True) (t1, s) of (t1, s) \<Rightarrow>
     case solo step (count_list bs False) (t2, s) of (t2, s) \<Rightarrow> (t1, t2, s))"
  using assms
proof (induction bs arbitrary: t1 t2 s)
  case (Cons b bs)
  show ?case
  proof (cases b)
    case True
    then show ?thesis
      using Cons.IH [OF apart_first [OF Cons.prems]] by (cases "step t1 s") simp
  next
    case False
    obtain t2' s2 where t2: "step t2 s = (t2', s2)"
      by (cases "step t2 s")
    obtain t1' s12 where t1: "solo step (count_list bs True) (t1, s2) = (t1', s12)"
      by (cases "solo step (count_list bs True) (t1, s2)")
    obtain s1 where "solo step (count_list bs True) (t1, s) = (t1', s1)" "step t2 s1 = (t2', s12)"
      using postpone [OF Cons.prems t2 t1] by blast
    then show ?thesis
      using False t1 t2 Cons.IH [OF apart_second [OF Cons.prems t2]] by simp
  qed
qed simp

end

section \<open>Calls that change one user\<close>

datatype user_call =
    AssignCall user_id role_id
  | RevokeCall user_id role_id
  | GrantCall user_id permission
  | UngrantCall user_id permission

fun call_user :: "user_call \<Rightarrow> user_id" where
  "call_user (AssignCall uid r) = uid"
| "call_user (RevokeCall uid r) = uid"
| "call_user (GrantCall uid p) = uid"
| "call_user (UngrantCall uid p) = uid"

fun call_alone :: "'s store_ops \<Rightarrow> user_call \<Rightarrow> 's enforcer \<Rightarrow> lib_error option \<times> 's enforcer" where
  "call_alone ops (AssignCall uid r) e = AssignRole ops uid r e"
| "call_alone ops (RevokeCall uid r) e = RevokeRole ops uid r e"
| "call_alone ops (GrantCall uid p) e = GrantDirectPermission ops uid p e"
| "call_alone ops (UngrantCall uid p) e = RevokeDirectPermission ops uid p e"

text \<open>
  Where a goroutine is: before its first read of the store, between the two reads, with its
  changed copy of the user about to be written, before each of the sections on the caches,
  or returned.
\<close>

datatype user_thread =
    Begin user_call
  | RoleRead user_id role_id
  | UserRead user_id role_id user
  | Writing user_call user
  | Indexing user_call user
  | Memoising user_id user
  | Evicting user_id
  | Returned "lib_error option"

definition grant_write :: "user_id \<Rightarrow> permission \<Rightarrow> lib_error + user \<Rightarrow> user_thread" where
  "grant_write uid p res =
     (case res of
        Inl err \<Rightarrow> Returned (Some err)
      | Inr u \<Rightarrow> if p \<in> set (Direct u) then Returned None
                 else Writing (GrantCall uid p) (u\<lparr>Direct := Direct u @ [p]\<rparr>))"

definition ungrant_write :: "user_id \<Rightarrow> permission \<Rightarrow> lib_error + user \<Rightarrow> user_thread" where
  "ungrant_write uid p res =
     (case res of
        Inl err \<Rightarrow> Returned (Some err)
      | Inr u \<Rightarrow> Writing (UngrantCall uid p) (u\<lparr>Direct := filter (\<lambda>g. g \<noteq> p) (Direct u)\<rparr>))"

definition assign_write :: "user_id \<Rightarrow> role_id \<Rightarrow> lib_error + user \<Rightarrow> user_thread" where
  "assign_write uid r res =
     (case res of
        Inl err \<Rightarrow> Returned (Some err)
      | Inr u \<Rightarrow> if r \<in> set (Roles u) then Returned None
                 else Writing (AssignCall uid r) (u\<lparr>Roles := Roles u @ [r]\<rparr>))"

fun after_write :: "user_call \<Rightarrow> user \<Rightarrow> user_thread" where
  "after_write (AssignCall uid r) u = Indexing (AssignCall uid r) u"
| "after_write (RevokeCall uid r) u = Indexing (RevokeCall uid r) u"
| "after_write (GrantCall uid p) u = Evicting uid"
| "after_write (UngrantCall uid p) u = Evicting uid"

fun index_section :: "user_call \<Rightarrow> 's enforcer \<Rightarrow> 's enforcer" where
  "index_section (AssignCall uid r) e = grantHolder uid r e"
| "index_section (RevokeCall uid r) e = revokeHolder uid r e"
| "index_section c e = e"

fun user_step :: "'s store_ops \<Rightarrow> user_thread \<Rightarrow> 's enforcer \<Rightarrow> user_thread \<times> 's enforcer" where
  "user_step ops (Begin (AssignCall uid r)) e =
     (case st_GetRole ops r (e_store e) of
        Inl err \<Rightarrow> (Returned (Some err), e)
      | Inr _ \<Rightarrow> (RoleRead uid r, e))"
| "user_step ops (Begin (RevokeCall uid r)) e =
     (case st_GetUser ops uid (e_store e) of
        Inl err \<Rightarrow> (Returned (Some err), e)
      | Inr u \<Rightarrow> (UserRead uid r u, e))"
| "user_step ops (Begin (GrantCall uid p)) e =
     (if \<not> Permission_Valid p then (Returned (Some ErrInvalidPermission), e)
      else (grant_write uid p (st_GetUser ops uid (e_store e)), e))"
| "user_step ops (Begin (UngrantCall uid p)) e =
     (if \<not> Permission_Valid p then (Returned (Some ErrInvalidPermission), e)
      else (ungrant_write uid p (st_GetUser ops uid (e_store e)), e))"
| "user_step ops (RoleRead uid r) e = (assign_write uid r (st_GetUser ops uid (e_store e)), e)"
| "user_step ops (UserRead uid r u) e =
     (case st_GetRole ops r (e_store e) of
        Inl err \<Rightarrow> (Returned (Some err), e)
      | Inr _ \<Rightarrow> (Writing (RevokeCall uid r) (u\<lparr>Roles := filter (\<lambda>x. x \<noteq> r) (Roles u)\<rparr>), e))"
| "user_step ops (Writing c u) e =
     (case st_UpdateUser ops (Some u) (e_store e) of
        (Some err, s) \<Rightarrow> (Returned (Some err), e\<lparr>e_store := s\<rparr>)
      | (None, s) \<Rightarrow> (after_write c u, e\<lparr>e_store := s\<rparr>))"
| "user_step ops (Indexing c u) e = (Memoising (call_user c) u, index_section c e)"
| "user_step ops (Memoising uid u) e = (Evicting uid, setDirectRoles uid (Roles u) e)"
| "user_step ops (Evicting uid) e = (Returned None, invalidateUser uid e)"
| "user_step ops (Returned res) e = (Returned res, e)"

lemmas write_defs = grant_write_def ungrant_write_def assign_write_def

lemma solo_Returned [simp]: "solo (user_step ops) n (Returned res, e) = (Returned res, e)"
  by (induction n) simp_all

text \<open>Alone, six steps are enough, and they are the operation.\<close>

lemma solo_six: "solo (user_step ops) 6 (Begin c, e) =
  (case call_alone ops c e of (res, e') \<Rightarrow> (Returned res, e'))"
proof -
  have six: "(6::nat) = Suc (Suc (Suc (Suc (Suc (Suc 0)))))"
    by simp
  show ?thesis
    unfolding six by (cases c) (auto simp: AssignRole_def RevokeRole_def GrantDirectPermission_def
      RevokeDirectPermission_def write_defs Let_def split: sum.splits option.splits prod.splits)
qed

section \<open>Different users\<close>

text \<open>What a step over the memory store does, as one of few effects that concern one user.\<close>

datatype effect =
    NoEffect
  | Store user
  | Hold user_id role_id
  | Unhold user_id role_id
  | Memo user_id "role_id list"
  | Evict user_id

fun touches :: "user_id \<Rightarrow> effect \<Rightarrow> bool" where
  "touches uid NoEffect = False"
| "touches uid (Store u) = (ID u = uid)"
| "touches uid (Hold v r) = (v = uid)"
| "touches uid (Unhold v r) = (v = uid)"
| "touches uid (Memo v rs) = (v = uid)"
| "touches uid (Evict v) = (v = uid)"

fun run_effect :: "effect \<Rightarrow> memory_store enforcer \<Rightarrow> memory_store enforcer" where
  "run_effect NoEffect e = e"
| "run_effect (Store u) e = e\<lparr>e_store := snd (UpdateUser_mem (Some u) (e_store e))\<rparr>"
| "run_effect (Hold uid r) e = grantHolder uid r e"
| "run_effect (Unhold uid r) e = revokeHolder uid r e"
| "run_effect (Memo uid rs) e = setDirectRoles uid rs e"
| "run_effect (Evict uid) e = invalidateUser uid e"

fun thread_effect :: "user_thread \<Rightarrow> effect" where
  "thread_effect (Writing c u) = Store u"
| "thread_effect (Indexing (AssignCall uid r) u) = Hold uid r"
| "thread_effect (Indexing (RevokeCall uid r) u) = Unhold uid r"
| "thread_effect (Memoising uid u) = Memo uid (Roles u)"
| "thread_effect (Evicting uid) = Evict uid"
| "thread_effect t = NoEffect"

text \<open>A thread that works on the user \<open>uid\<close> carries copies of that user only.\<close>

fun works_on :: "user_id \<Rightarrow> user_thread \<Rightarrow> bool" where
  "works_on uid (Begin c) = (call_user c = uid)"
| "works_on uid (RoleRead v r) = (v = uid)"
| "works_on uid (UserRead v r u) = (v = uid \<and> ID u = uid)"
| "works_on uid (Writing c u) = (call_user c = uid \<and> ID u = uid)"
| "works_on uid (Indexing c u) = (call_user c = uid \<and> ID u = uid)"
| "works_on uid (Memoising v u) = (v = uid \<and> ID u = uid)"
| "works_on uid (Evicting v) = (v = uid)"
| "works_on uid (Returned res) = True"

lemma step_effect: "snd (user_step memory_ops t e) = run_effect (thread_effect t) e"
proof (cases t)
  case (Begin c)
  then show ?thesis
    by (cases c) (auto split: sum.split)
next
  case (Writing c u)
  then show ?thesis
    by (auto simp: memory_ops_def split: prod.split option.split)
next
  case (Indexing c u)
  then show ?thesis
    by (cases c) simp_all
qed (auto split: sum.split)

lemma effect_touches: "works_on uid t \<Longrightarrow> touches v (thread_effect t) \<Longrightarrow> v = uid"
  by (induction t rule: thread_effect.induct) auto

text \<open>An effect on one user leaves the others and the roles as they are.\<close>

lemma effect_frame:
  "ms_roles (e_store (run_effect f e)) = ms_roles (e_store e)"
  "\<not> touches uid f \<Longrightarrow> fmlookup (ms_users (e_store (run_effect f e))) uid = fmlookup (ms_users (e_store e)) uid"
  "memory_ok (e_store e) \<Longrightarrow> memory_ok (e_store (run_effect f e))"
  by (cases f; auto simp: UpdateUser_mem_def memory_ok_def split: option.split)+

lemma effect_dom: "fmdom (ms_users (e_store (run_effect f e))) = fmdom (ms_users (e_store e))"
  by (cases f) (auto simp: UpdateUser_mem_def fmdom_lookup split: option.split)

lemma effects_commute:
  assumes "\<And>uid. touches uid f \<Longrightarrow> \<not> touches uid g"
  shows "run_effect f (run_effect g e) = run_effect g (run_effect f e)"
proof -
  have holders: "e\<lparr>e_roleHolders := h\<rparr> = e\<lparr>e_roleHolders := h'\<rparr>"
    if "\<And>r. fmlookup h r = fmlookup h' r" for h h' and e :: "memory_store enforcer"
    using fmap_ext [OF that] by simp
  show ?thesis
    using assms
    by (cases f; cases g) (auto simp: UpdateUser_mem_def section_defs Let_def fmupd_reorder_neq fmdrop_comm
        fmdrop_fmupd split: option.split intro!: holders)
qed

lemma step_local:
  assumes "works_on uid t" and "fmlookup (ms_users (e_store e)) uid = fmlookup (ms_users (e_store e')) uid"
    and "ms_roles (e_store e) = ms_roles (e_store e')"
  shows "fst (user_step memory_ops t e) = fst (user_step memory_ops t e')"
proof (cases t)
  case (Begin c)
  then show ?thesis
    using assms by (cases c) (auto simp: memory_ops_def GetUser_mem_def GetRole_mem_def split: option.split)
next
  case (Writing c u)
  then show ?thesis
    using assms by (auto simp: memory_ops_def UpdateUser_mem_def split: option.split)
qed (use assms in \<open>auto simp: memory_ops_def GetUser_mem_def GetRole_mem_def split: option.split\<close>)

lemma step_works_on:
  assumes "works_on uid t" and "memory_ok (e_store e)"
  shows "works_on uid (fst (user_step memory_ops t e))"
proof (cases t)
  case (Begin c)
  then show ?thesis
    using assms memory_okD(1) [OF assms(2)]
    by (cases c) (auto simp: memory_ops_def GetUser_mem_def GetRole_mem_def write_defs split: option.split)
next
  case (Writing c u)
  then show ?thesis
    using assms by (cases c) (auto simp: memory_ops_def UpdateUser_mem_def split: option.split)
qed (use assms memory_okD(1) [OF assms(2)] in
    \<open>auto simp: memory_ops_def GetUser_mem_def GetRole_mem_def write_defs split: option.split\<close>)

definition different_users :: "user_thread \<Rightarrow> user_thread \<Rightarrow> memory_store enforcer \<Rightarrow> bool" where
  "different_users t1 t2 e \<longleftrightarrow>
     (\<exists>uid1 uid2. uid1 \<noteq> uid2 \<and> works_on uid1 t1 \<and> works_on uid2 t2) \<and> memory_ok (e_store e)"

interpretation users: commuting_threads "user_step memory_ops" different_users
proof (unfold_locales, goal_cases)
  case (1 t1 t2 e t1' e1 t2' e12)
  let ?f = "thread_effect t1" and ?g = "thread_effect t2" and ?step = "user_step memory_ops"
  obtain uid1 uid2 where uids: "uid1 \<noteq> uid2" "works_on uid1 t1" "works_on uid2 t2"
    using 1(1) by (auto simp: different_users_def)
  have free: "\<not> touches uid2 ?f" "\<not> touches uid1 ?g" "touches uid ?f \<Longrightarrow> \<not> touches uid ?g" for uid
    using effect_touches uids by blast+
  define e2 where "e2 = run_effect ?g e"
  have e1: "e1 = run_effect ?f e" "e12 = run_effect ?g e1"
    using 1(2,3) step_effect by (metis snd_conv)+
  have "fst (?step t2 e) = t2'"
    using step_local [OF uids(3), of e e1] 1(3) free(1) by (simp add: e1(1) effect_frame)
  then have "?step t2 e = (t2', e2)"
    by (intro prod_eqI) (simp_all add: step_effect e2_def)
  moreover have "fst (?step t1 e2) = t1'"
    using step_local [OF uids(2), of e2 e] 1(2) free(2) by (simp add: e2_def effect_frame)
  then have "?step t1 e2 = (t1', e12)"
    by (intro prod_eqI) (simp_all add: step_effect e1 e2_def effects_commute [OF free(3)])
  ultimately show ?case
    by blast
next
  case (2 t1 t2 e t1' e1)
  then show ?case
    using step_works_on [of _ t1 e] effect_frame(3) [of e "thread_effect t1"] step_effect [of t1 e]
    by (auto simp: different_users_def)
next
  case (3 t1 t2 e t2' e2)
  then show ?case
    using step_works_on [of _ t2 e] effect_frame(3) [of e "thread_effect t2"] step_effect [of t2 e]
    by (auto simp: different_users_def)
qed

section \<open>Properties\<close>

lemma solo_at_least_six:
  assumes "6 \<le> n"
  shows "solo (user_step ops) n (Begin c, e) = (case call_alone ops c e of (res, e') \<Rightarrow> (Returned res, e'))"
proof -
  have "solo (user_step ops) (6 + (n - 6)) (Begin c, e) = (case call_alone ops c e of (res, e') \<Rightarrow> (Returned res, e'))"
    unfolding solo_add solo_six by (simp split: prod.split)
  then show ?thesis
    using assms by simp
qed

text \<open>Calls on different users take their effects as if the first had run before the second.\<close>

lemma serial_calls:
  assumes "mem.inv e" and "call_user c \<noteq> call_user d" and "6 \<le> count_list bs True" and "6 \<le> count_list bs False"
  shows "interleave (user_step memory_ops) bs (Begin c, Begin d, e) =
    (let (res1, e1) = call_alone memory_ops c e; (res2, e12) = call_alone memory_ops d e1 in
     (Returned res1, Returned res2, e12))"
proof -
  have "different_users (Begin c) (Begin d) e"
    using assms(1,2) by (simp add: different_users_def)
  from users.serial [OF this] show ?thesis
    by (simp add: solo_at_least_six assms(3,4) split: prod.split)
qed

text \<open>C5: Administration of different users is serializable. In a state that a new enforcer can reach, two
goroutines that change two different users both return under every schedule that gives each six steps,
with the errors and in the very state, caches included, of running the calls one after the other, in
either order.\<close>

theorem different_users_serializable:
  assumes "reachable memory_ops (fresh_enforcer depths) e" and "call_user c1 \<noteq> call_user c2"
    and "6 \<le> count_list bs True" and "6 \<le> count_list bs False"
  shows "let (res1, e1) = call_alone memory_ops c1 e; (res2, e12) = call_alone memory_ops c2 e1 in
    interleave (user_step memory_ops) bs (Begin c1, Begin c2, e) = (Returned res1, Returned res2, e12) \<and>
    (let (res2', e2) = call_alone memory_ops c2 e; (res1', e21) = call_alone memory_ops c1 e2 in
      res1' = res1 \<and> res2' = res2 \<and> e21 = e12)"
proof -
  note serial = serial_calls [OF fresh_reachable_inv [OF assms(1)]]
  have flip: "interleave step (map Not bs) (t2, t1, s) =
      (case interleave step bs (t1, t2, s) of (t1, t2, s) \<Rightarrow> (t2, t1, s))" for step t1 t2 s bs
    by (induction bs arbitrary: t1 t2 s) (auto split: prod.split)
  have counts: "count_list (map Not bs) True = count_list bs False" "count_list (map Not bs) False = count_list bs True"
    by (induction bs) auto
  show ?thesis
    using serial [OF assms(2-4)] serial [of c2 c1 "map Not bs"] assms(2-4)
      flip [of "user_step memory_ops" bs "Begin c2" "Begin c1" e]
    by (auto simp: counts flip split: prod.splits)
qed

lemma different_users_serializable_witness:
  "snd (snd (interleave (user_step memory_ops) (concat (replicate 6 [True, False]))
     (Begin (AssignCall ''ann'' ''editor''), Begin (RevokeCall ''bob'' ''editor''), after staff))) =
   snd (RevokeRole memory_ops ''bob'' ''editor'' (snd (AssignRole memory_ops ''ann'' ''editor'' (after staff))))"
proof -
  have "6 \<le> count_list (concat (replicate 6 [True, False])) True"
      "6 \<le> count_list (concat (replicate 6 [True, False])) False"
    by code_simp+
  from different_users_serializable [OF staff_reachable _ this,
      of "AssignCall ''ann'' ''editor''" "RevokeCall ''bob'' ''editor''"]
  show ?thesis
    by (simp add: Let_def split_beta)
qed

text \<open>A call on a user leaves the user there, and the roles as they were.\<close>

lemma solo_frame:
  assumes "memory_ok (e_store e)"
  shows "ms_roles (e_store (snd (solo (user_step memory_ops) n (t, e)))) = ms_roles (e_store e) \<and>
    fmdom (ms_users (e_store (snd (solo (user_step memory_ops) n (t, e))))) = fmdom (ms_users (e_store e)) \<and>
    memory_ok (e_store (snd (solo (user_step memory_ops) n (t, e))))"
  using assms
proof (induction n arbitrary: t e)
  case (Suc n)
  obtain t1 e1 where step: "user_step memory_ops t e = (t1, e1)"
    by (cases "user_step memory_ops t e")
  then have e1: "e1 = run_effect (thread_effect t) e"
    using step_effect by (metis snd_conv)
  show ?case
    using Suc.IH [of e1 t1] Suc.prems by (simp add: step) (simp add: e1 effect_frame effect_dom)
qed simp

lemma call_alone_user:
  assumes "mem.inv e" and "fmlookup (ms_users (e_store e)) (call_user c) = Some u"
  shows "memory_ok (e_store (snd (call_alone memory_ops c e)))"
    and "\<exists>v. fmlookup (ms_users (e_store (snd (call_alone memory_ops c e)))) (call_user c) = Some v"
    and "ms_roles (e_store (snd (call_alone memory_ops c e))) = ms_roles (e_store e)"
proof -
  have "memory_ok (e_store e)"
    using assms(1) by simp
  from solo_frame [OF this, of 6 "Begin c"] assms(2)
  show "memory_ok (e_store (snd (call_alone memory_ops c e)))"
    "\<exists>v. fmlookup (ms_users (e_store (snd (call_alone memory_ops c e)))) (call_user c) = Some v"
    "ms_roles (e_store (snd (call_alone memory_ops c e))) = ms_roles (e_store e)"
    by (auto simp: solo_six split_beta fmdom_lookup [symmetric] intro: fmdomI)
qed

text \<open>C16: An \<open>Enforcer\<close> is said to be safe for concurrent use, but a change of a user can be undone by a
concurrent one. Whatever call is made on a user, there is a schedule in which a direct grant to the same
user overlaps it, both return what they return alone, and the stored user is the one from before the
call, with the new grant: a role that was revoked without error is back, and every check it allowed
passes.\<close>

theorem concurrent_grant_undoes_call:
  assumes "reachable memory_ops (fresh_enforcer depths) e"
    and "fmlookup (ms_users (e_store e)) (call_user c) = Some u"
    and "Permission_Valid p" and "p \<notin> set (Direct u)"
  shows "\<exists>bs e'. interleave (user_step memory_ops) bs (Begin c, Begin (GrantCall (call_user c) p), e) =
      (Returned (fst (call_alone memory_ops c e)), Returned None, e') \<and>
    fmlookup (ms_users (e_store e')) (call_user c) = Some (u\<lparr>Direct := Direct u @ [p]\<rparr>) \<and>
    (\<forall>q. allowed (ms_roles (e_store e)) u q \<longrightarrow>
       map_option fst (Check memory_ops (call_user c) q e') = Some None)"
proof -
  let ?uid = "call_user c" and ?step = "user_step memory_ops" and ?u = "u\<lparr>Direct := Direct u @ [p]\<rparr>"
  define e1 where "e1 = snd (call_alone memory_ops c e)"
  define e2 where "e2 = e1\<lparr>e_store := snd (UpdateUser_mem (Some ?u) (e_store e1))\<rparr>"
  define e' where "e' = invalidateUser ?uid e2"
  have inv: "mem.inv e"
    by (rule fresh_reachable_inv [OF assms(1)])
  obtain v where e1: "memory_ok (e_store e1)" "fmlookup (ms_users (e_store e1)) ?uid = Some v"
      "ms_roles (e_store e1) = ms_roles (e_store e)"
    using call_alone_user [OF inv assms(2)] by (auto simp: e1_def)
  have id: "ID u = ?uid" "?uid \<noteq> ''''"
    using memory_okD(1) inv assms(2) by blast+
  have stored: "fmlookup (ms_users (e_store e')) ?uid = Some ?u" "memory_ok (e_store e')"
      "ms_roles (e_store e') = ms_roles (e_store e)" "fmlookup (e_cache e') ?uid = None"
    using e1 id by (auto simp: e'_def e2_def UpdateUser_mem_def memory_ok_def)
  have "?step (Begin (GrantCall ?uid p)) e = (Writing (GrantCall ?uid p) ?u, e)"
    using assms(2-4) by (simp add: memory_ops_def GetUser_mem_def grant_write_def)
  moreover have "solo ?step 6 (Begin c, e) = (Returned (fst (call_alone memory_ops c e)), e1)"
    by (simp add: solo_six e1_def split: prod.split)
  moreover have "?step (Writing (GrantCall ?uid p) ?u) e1 = (Evicting ?uid, e2)"
    using e1(2) id by (simp add: memory_ops_def UpdateUser_mem_def e2_def)
  ultimately have "interleave ?step ([False] @ replicate 6 True @ [False, False])
      (Begin c, Begin (GrantCall ?uid p), e) = (Returned (fst (call_alone memory_ops c e)), Returned None, e')"
    unfolding interleave_append by (simp add: interleave_first e'_def del: replicate.simps)
  moreover have "map_option fst (Check memory_ops ?uid q e') = Some None"
    if "allowed (ms_roles (e_store e)) u q" for q
  proof -
    have "allowed (ms_roles (e_store e')) ?u q"
      using that by (auto simp: allowed_def granted_perms_def stored(3))
    then show ?thesis
      using mem.Check_correct [of e' ?uid q] stored by (auto simp: coherent_at_def)
  qed
  ultimately show ?thesis
    using stored(1) by blast
qed

lemma concurrent_grant_undoes_call_witness:
  "\<exists>bs e'. interleave (user_step memory_ops) bs (Begin (RevokeCall ''bob'' ''editor''),
       Begin (GrantCall ''bob'' (perm ''door'' ''open'')), after staff) = (Returned None, Returned None, e') \<and>
     map_option fst (Check memory_ops ''bob'' (perm ''article'' ''edit'') e') = Some None"
proof -
  let ?c = "RevokeCall ''bob'' ''editor''"
  have bob: "fmlookup (ms_users (e_store (after staff))) (call_user ?c) =
      Some \<lparr>ID = ''bob'', Roles = [''editor''], Direct = []\<rparr>"
    by code_simp
  have "Permission_Valid (perm ''door'' ''open'')"
      "perm ''door'' ''open'' \<notin> set (Direct \<lparr>ID = ''bob'', Roles = [''editor''], Direct = []\<rparr>)"
    by code_simp+
  note undone = concurrent_grant_undoes_call [OF staff_reachable bob this]
  have "fst (call_alone memory_ops ?c (after staff)) = None"
    by code_simp
  moreover have "map_option fst (HasPermission memory_ops ''bob'' (perm ''article'' ''edit'') (after staff)) = Some (Inr True)"
    by code_simp
  then have "allowed (ms_roles (e_store (after staff))) \<lparr>ID = ''bob'', Roles = [''editor''], Direct = []\<rparr>
      (perm ''article'' ''edit'')"
    using mem.HasPermission_correct [of "after staff" "''bob''" "perm ''article'' ''edit''"] bob
      fresh_safe_coherent [OF safely_reachable [OF safely_staff]] by (auto simp: cache_coherent_def)
  moreover obtain bs e' where "interleave (user_step memory_ops) bs
      (Begin ?c, Begin (GrantCall ''bob'' (perm ''door'' ''open'')), after staff) =
      (Returned (fst (call_alone memory_ops ?c (after staff))), Returned None, e')"
    and "\<forall>q. allowed (ms_roles (e_store (after staff))) \<lparr>ID = ''bob'', Roles = [''editor''], Direct = []\<rparr> q \<longrightarrow>
       map_option fst (Check memory_ops ''bob'' q e') = Some None"
    using undone by (elim exE conjE) simp
  ultimately show ?thesis
    by (intro exI [of _ bs] exI [of _ e']) simp
qed

section \<open>Parents\<close>

text \<open>
  \<open>SetParent\<close> checks the inheritance against the store and then writes the role. Its reads up to
  and with \<open>validateInheritance\<close> are one step here, the write and the eviction the others.
\<close>

datatype parent_thread =
    ParentBegin role_id role_id
  | ParentChecked role_id role
  | ParentWritten role_id
  | ParentReturned "lib_error option"

fun parent_step :: "'s store_ops \<Rightarrow> parent_thread \<Rightarrow> 's enforcer \<Rightarrow> parent_thread \<times> 's enforcer" where
  "parent_step ops (ParentBegin role parent) e =
     (case st_GetRole ops role (e_store e) of
        Inl err \<Rightarrow> (ParentReturned (Some err), e)
      | Inr r \<Rightarrow>
     (case (st_GetRole ops parent (e_store e), parent \<noteq> '''') of
        (Inl err, True) \<Rightarrow> (ParentReturned (Some err), e)
      | _ \<Rightarrow>
          if Parent r = parent then (ParentReturned None, e)
          else let r = r\<lparr>Parent := parent\<rparr> in
     (case validateInheritance ops e r of
        Some err \<Rightarrow> (ParentReturned (Some err), e)
      | None \<Rightarrow> (ParentChecked role r, e))))"
| "parent_step ops (ParentChecked role r) e =
     (case st_UpdateRole ops (Some r) (e_store e) of
        (Some err, s) \<Rightarrow> (ParentReturned (Some err), e\<lparr>e_store := s\<rparr>)
      | (None, s) \<Rightarrow> (ParentWritten role, e\<lparr>e_store := s\<rparr>))"
| "parent_step ops (ParentWritten role) e = (ParentReturned None, invalidateRoleHolders role e)"
| "parent_step ops (ParentReturned res) e = (ParentReturned res, e)"

lemma parent_solo_three: "solo (parent_step ops) 3 (ParentBegin role parent, e) =
  (ParentReturned (fst (SetParent ops role parent e)), snd (SetParent ops role parent e))"
proof -
  have three: "(3::nat) = Suc (Suc (Suc 0))"
    by simp
  show ?thesis
    unfolding three by (simp add: SetParent_def Let_def split: sum.split option.split prod.split bool.split)
qed

text \<open>C17: Two \<open>SetParent\<close> calls at the same time can build the cycle that each of them checks for. Of two
roles without a parent each can be made the parent of the other: both calls return without error and
the store then holds a cycle. One after the other, the second is refused as cyclic.\<close>

theorem concurrent_set_parent_builds_cycle:
  assumes "reachable memory_ops (fresh_enforcer depths) e" and "1 \<le> e_maxDepth e" and "a \<noteq> b"
    and "fmlookup (ms_roles (e_store e)) a = Some x" and "Parent x = ''''"
    and "fmlookup (ms_roles (e_store e)) b = Some y" and "Parent y = ''''"
  shows "(\<exists>bs e'. interleave (parent_step memory_ops) bs (ParentBegin a b, ParentBegin b a, e) =
      (ParentReturned None, ParentReturned None, e') \<and>
      parent_of (ms_roles (e_store e')) a = Some b \<and> parent_of (ms_roles (e_store e')) b = Some a) \<and>
    fst (SetParent memory_ops a b e) = None \<and>
    fst (SetParent memory_ops b a (snd (SetParent memory_ops a b e))) = Some ErrCyclicInheritance"
proof -
  have "memory_ok (e_store e)"
    using fresh_reachable_inv [OF assms(1)] by blast
  then have key: "Name x = a" "a \<noteq> ''''" "Name y = b" "b \<noteq> ''''"
    using memory_okD(2) assms(4,6) by blast+
  let ?step = "parent_step memory_ops" and ?x = "x\<lparr>Parent := b\<rparr>" and ?y = "y\<lparr>Parent := a\<rparr>"
  have check: "validateInheritance memory_ops e ?x = None" "validateInheritance memory_ops e ?y = None"
    using assms key
    by (simp_all add: validateInheritance_def memory_ops_def GetRole_mem_def validate_walk.simps [of _ _ _ _ 1]
        validate_walk.simps [of _ _ _ "''''"])
  define e1 where "e1 = e\<lparr>e_store := (e_store e)\<lparr>ms_roles := fmupd a ?x (ms_roles (e_store e))\<rparr>\<rparr>"
  define e2 where "e2 = e1\<lparr>e_store := (e_store e1)\<lparr>ms_roles := fmupd b ?y (ms_roles (e_store e1))\<rparr>\<rparr>"
  have steps: "?step (ParentBegin a b) e = (ParentChecked a ?x, e)" "?step (ParentBegin b a) e = (ParentChecked b ?y, e)"
      "?step (ParentChecked a ?x) e = (ParentWritten a, e1)" "?step (ParentChecked b ?y) e1 = (ParentWritten b, e2)"
    using assms key check
    by (simp_all add: memory_ops_def GetRole_mem_def UpdateRole_mem_def e1_def e2_def)
  have run: "interleave ?step [True, False, True, False, True, False] (ParentBegin a b, ParentBegin b a, e) =
      (ParentReturned None, ParentReturned None, invalidateRoleHolders b (invalidateRoleHolders a e2))"
    by (simp add: steps del: parent_step.simps(1,2))
  have cycle: "parent_of (ms_roles (e_store e2)) a = Some b" "parent_of (ms_roles (e_store e2)) b = Some a"
    using assms(3) key by (simp_all add: e2_def e1_def parent_of_def)
  have alone: "SetParent memory_ops a b e = (None, invalidateRoleHolders a e1)"
    using parent_solo_three [of memory_ops a b e]
    by (simp add: steps numeral_3_eq_3 prod_eq_iff del: parent_step.simps(1,2))
  have "fst (SetParent memory_ops b a (invalidateRoleHolders a e1)) = Some ErrCyclicInheritance"
    using assms key
    by (simp add: SetParent_def validateInheritance_def memory_ops_def GetRole_mem_def e1_def
        validate_walk.simps [of _ _ _ _ 1] validate_walk.simps [of _ _ _ _ 2])
  then show ?thesis
    using alone run cycle by (intro conjI exI [of _ "[True, False, True, False, True, False]"]
        exI [of _ "invalidateRoleHolders b (invalidateRoleHolders a e2)"]) simp_all
qed

lemma concurrent_set_parent_builds_cycle_witness:
  "\<exists>bs e'. interleave (parent_step memory_ops) bs (ParentBegin ''a'' ''b'', ParentBegin ''b'' ''a'',
       after [CmdCreateRole ''a'' [] '''', CmdCreateRole ''b'' [] '''']) = (ParentReturned None, ParentReturned None, e') \<and>
     parent_of (ms_roles (e_store e')) ''a'' = Some ''b'' \<and> parent_of (ms_roles (e_store e')) ''b'' = Some ''a''"
proof -
  let ?cs = "[CmdCreateRole ''a'' [] '''', CmdCreateRole ''b'' [] '''']"
  have "safely ?cs"
    by code_simp
  then have e: "reachable memory_ops (fresh_enforcer []) (after ?cs)"
    by (rule safe_reachable_reachable [OF safely_reachable])
  have "1 \<le> e_maxDepth (after ?cs)"
      "fmlookup (ms_roles (e_store (after ?cs))) ''a'' = Some \<lparr>Name = ''a'', Permissions = [], Parent = ''''\<rparr>"
      "fmlookup (ms_roles (e_store (after ?cs))) ''b'' = Some \<lparr>Name = ''b'', Permissions = [], Parent = ''''\<rparr>"
    by code_simp+
  from concurrent_set_parent_builds_cycle [OF e this(1) _ this(2) _ this(3)] show ?thesis
    by simp
qed

end
