(* ===== verification/Authz_Reference.thy ===== *)
theory Authz_Reference
  imports Authz_Properties
begin

text \<open>
  The abstract specification of the enforcer: a reference monitor whose state is the two
  stored tables and nothing else. It has no cache, no index and no loop; access is what the
  tables say. The enforcer of \<open>authz/*.go\<close>, over any store that keeps the contract, answers
  every sequence of commands as the reference monitor does, as long as no command leaves a
  stale cached set, and all but the permission queries whatever the commands.
\<close>

section \<open>Replies\<close>

text \<open>What an operation returns: no error, an error, a \<open>bool\<close> or a listing of permissions.\<close>

datatype 'p reply =
    Done
  | Refused lib_error
  | Answer bool
  | Listed 'p

fun error_reply :: "lib_error option \<Rightarrow> 'p reply" where
  "error_reply None = Done"
| "error_reply (Some err) = Refused err"

fun flag_reply :: "lib_error + bool \<Rightarrow> 'p reply" where
  "flag_reply (Inl err) = Refused err"
| "flag_reply (Inr b) = Answer b"

fun list_reply :: "lib_error + permission list \<Rightarrow> permission list reply" where
  "list_reply (Inl err) = Refused err"
| "list_reply (Inr ps) = Listed ps"

text \<open>The enforcer's reply to a command, with the state it leaves.\<close>

fun serve ::
  "(string goset \<Rightarrow> string list) \<Rightarrow> 's store_ops \<Rightarrow> command \<Rightarrow> 's enforcer
     \<Rightarrow> (permission list reply \<times> 's enforcer) option" where
  "serve ord ops (CmdCreateUser uid rs) e = Some (apfst error_reply (CreateUser ops uid rs e))"
| "serve ord ops (CmdDeleteUser uid) e = Some (apfst error_reply (DeleteUser ops uid e))"
| "serve ord ops (CmdAssignRole uid r) e = Some (apfst error_reply (AssignRole ops uid r e))"
| "serve ord ops (CmdRevokeRole uid r) e = Some (apfst error_reply (RevokeRole ops uid r e))"
| "serve ord ops (CmdGrantDirect uid p) e = Some (apfst error_reply (GrantDirectPermission ops uid p e))"
| "serve ord ops (CmdRevokeDirect uid p) e = Some (apfst error_reply (RevokeDirectPermission ops uid p e))"
| "serve ord ops (CmdCreateRole r ps q) e = Some (apfst error_reply (CreateRole ops r ps q e))"
| "serve ord ops (CmdUpdateRole r ps q) e = Some (apfst error_reply (UpdateRole ops r ps q e))"
| "serve ord ops (CmdDeleteRole r) e = Some (apfst error_reply (DeleteRole ord ops r e))"
| "serve ord ops (CmdGrant r p) e = Some (apfst error_reply (GrantPermission ops r p e))"
| "serve ord ops (CmdRevoke r p) e = Some (apfst error_reply (RevokePermission ops r p e))"
| "serve ord ops (CmdSetParent r q) e = Some (apfst error_reply (SetParent ops r q e))"
| "serve ord ops (CmdHasRole uid r) e = Some (apfst flag_reply (HasRole ops uid r e))"
| "serve ord ops (CmdHasAnyRole uid rs) e = Some (apfst flag_reply (HasAnyRole ops uid rs e))"
| "serve ord ops (CmdHasAllRoles uid rs) e = Some (apfst flag_reply (HasAllRoles ops uid rs e))"
| "serve ord ops (CmdCheck uid p) e = map_option (apfst error_reply) (Check ops uid p e)"
| "serve ord ops (CmdHasPermission uid p) e = map_option (apfst flag_reply) (HasPermission ops uid p e)"
| "serve ord ops (CmdHasAll uid ps) e = map_option (apfst flag_reply) (HasAllPermissions ops uid ps e)"
| "serve ord ops (CmdHasAny uid ps) e = map_option (apfst flag_reply) (HasAnyPermission ops uid ps e)"
| "serve ord ops (CmdPermissionsFor uid) e = map_option (apfst list_reply) (PermissionsFor ord ops uid e)"

text \<open>The state is the one \<open>exec\<close> leaves.\<close>

lemma serve_exec: "exec ord ops c e = map_option snd (serve ord ops c e)"
  by (cases c) (simp_all add: option.map_comp comp_def)

text \<open>The replies to a list of commands, each with the order in which it visits maps.\<close>

fun serve_all ::
  "'s store_ops \<Rightarrow> ((string goset \<Rightarrow> string list) \<times> command) list \<Rightarrow> 's enforcer
     \<Rightarrow> (permission list reply list \<times> 's enforcer) option" where
  "serve_all ops [] e = Some ([], e)"
| "serve_all ops ((ord, c) # cs) e =
     (case serve ord ops c e of
        None \<Rightarrow> None
      | Some (r, e) \<Rightarrow> map_option (apfst ((#) r)) (serve_all ops cs e))"

section \<open>The reference monitor\<close>

record access_tables =
  at_users :: "(user_id, user) gomap"
  at_roles :: "(role_id, role) gomap"

definition no_tables :: access_tables where
  "no_tables = \<lparr>at_users = fmempty, at_roles = fmempty\<rparr>"

text \<open>Why a role may not have a parent: the role is among the parent's ancestors within the
bound, or the parent has an ancestor at the bound or beyond. A parent is its own ancestor at distance 0.\<close>

definition ancestor_at :: "(role_id, role) gomap \<Rightarrow> nat \<Rightarrow> role_id \<Rightarrow> role_id \<Rightarrow> bool" where
  "ancestor_at rs n r a \<longleftrightarrow> (r, a) \<in> up_rel (parent_of rs) ^^ n"

definition parent_error ::
  "int \<Rightarrow> (role_id, role) gomap \<Rightarrow> role_id \<Rightarrow> role_id \<Rightarrow> lib_error option" where
  "parent_error depth rs role parent =
     (if parent = '''' then None
      else if parent = role then Some ErrCyclicInheritance
      else if parent |\<notin>| fmdom rs then Some ErrRoleNotFound
      else if \<exists>n. int n \<le> depth \<and> ancestor_at rs n parent role then Some ErrCyclicInheritance
      else if \<exists>a n. depth \<le> int n \<and> ancestor_at rs n parent a then Some ErrInheritanceDepth
      else None)"

definition add_once :: "'a \<Rightarrow> 'a list \<Rightarrow> 'a list" where
  "add_once x xs = (if x \<in> set xs then xs else xs @ [x])"

definition change_user ::
  "user_id \<Rightarrow> (user \<Rightarrow> user) \<Rightarrow> access_tables \<Rightarrow> lib_error option \<times> access_tables" where
  "change_user uid f t =
     (case fmlookup (at_users t) uid of
        None \<Rightarrow> (Some ErrUserNotFound, t)
      | Some u \<Rightarrow> (None, t\<lparr>at_users := fmupd uid (f u) (at_users t)\<rparr>))"

definition change_role ::
  "role_id \<Rightarrow> (role \<Rightarrow> role) \<Rightarrow> access_tables \<Rightarrow> lib_error option \<times> access_tables" where
  "change_role r f t =
     (case fmlookup (at_roles t) r of
        None \<Rightarrow> (Some ErrRoleNotFound, t)
      | Some x \<Rightarrow> (None, t\<lparr>at_roles := fmupd r (f x) (at_roles t)\<rparr>))"

text \<open>A change that is made only if there is nothing against it.\<close>

definition unless ::
  "lib_error option \<Rightarrow> access_tables \<Rightarrow> lib_error option \<times> access_tables
     \<Rightarrow> lib_error option \<times> access_tables" where
  "unless err t change = (case err of Some e \<Rightarrow> (Some e, t) | None \<Rightarrow> change)"

abbreviation when_not :: "bool \<Rightarrow> lib_error \<Rightarrow> lib_error option" where
  "when_not b err \<equiv> (if b then None else Some err)"

fun ref_admin :: "int \<Rightarrow> command \<Rightarrow> access_tables \<Rightarrow> lib_error option \<times> access_tables" where
  "ref_admin d (CmdCreateUser uid rs) t =
     unless (when_not (uid \<noteq> '''') ErrEmptyName) t
    (unless (when_not (uid |\<notin>| fmdom (at_users t)) ErrUserExists) t
       (None, t\<lparr>at_users := fmupd uid \<lparr>ID = uid, Roles = rs, Direct = []\<rparr> (at_users t)\<rparr>))"
| "ref_admin d (CmdDeleteUser uid) t =
     unless (when_not (uid |\<in>| fmdom (at_users t)) ErrUserNotFound) t
       (None, t\<lparr>at_users := fmdrop uid (at_users t)\<rparr>)"
| "ref_admin d (CmdAssignRole uid r) t =
     unless (when_not (r |\<in>| fmdom (at_roles t)) ErrRoleNotFound) t
       (change_user uid (\<lambda>u. u\<lparr>Roles := add_once r (Roles u)\<rparr>) t)"
| "ref_admin d (CmdRevokeRole uid r) t =
     unless (when_not (uid |\<in>| fmdom (at_users t)) ErrUserNotFound) t
    (unless (when_not (r |\<in>| fmdom (at_roles t)) ErrRoleNotFound) t
       (change_user uid (\<lambda>u. u\<lparr>Roles := removeAll r (Roles u)\<rparr>) t))"
| "ref_admin d (CmdGrantDirect uid p) t =
     unless (when_not (Permission_Valid p) ErrInvalidPermission) t
       (change_user uid (\<lambda>u. u\<lparr>Direct := add_once p (Direct u)\<rparr>) t)"
| "ref_admin d (CmdRevokeDirect uid p) t =
     unless (when_not (Permission_Valid p) ErrInvalidPermission) t
       (change_user uid (\<lambda>u. u\<lparr>Direct := removeAll p (Direct u)\<rparr>) t)"
| "ref_admin d (CmdCreateRole r ps q) t =
     unless (when_not (r \<noteq> '''') ErrEmptyName) t
    (unless (when_not (\<forall>p \<in> set ps. Permission_Valid p) ErrInvalidPermission) t
    (unless (parent_error d (at_roles t) r q) t
    (unless (when_not (r |\<notin>| fmdom (at_roles t)) ErrRoleExists) t
       (None, t\<lparr>at_roles := fmupd r \<lparr>Name = r, Permissions = ps, Parent = q\<rparr> (at_roles t)\<rparr>))))"
| "ref_admin d (CmdUpdateRole r ps q) t =
     unless (when_not (r \<noteq> '''') ErrEmptyName) t
    (unless (when_not (\<forall>p \<in> set ps. Permission_Valid p) ErrInvalidPermission) t
    (unless (parent_error d (at_roles t) r q) t
       (change_role r (\<lambda>x. \<lparr>Name = r, Permissions = ps, Parent = q\<rparr>) t)))"
| "ref_admin d (CmdDeleteRole r) t =
     unless (when_not (r |\<in>| fmdom (at_roles t)) ErrRoleNotFound) t
       (None, \<lparr>at_users = fmmap (drop_role r) (at_users t),
               at_roles = fmmap (drop_parent r) (fmdrop r (at_roles t))\<rparr>)"
| "ref_admin d (CmdGrant r p) t =
     unless (when_not (Permission_Valid p) ErrInvalidPermission) t
       (change_role r (\<lambda>x. x\<lparr>Permissions := add_once p (Permissions x)\<rparr>) t)"
| "ref_admin d (CmdRevoke r p) t =
     unless (when_not (Permission_Valid p) ErrInvalidPermission) t
       (change_role r (\<lambda>x. x\<lparr>Permissions := removeAll p (Permissions x)\<rparr>) t)"
| "ref_admin d (CmdSetParent r q) t =
     unless (when_not (r |\<in>| fmdom (at_roles t)) ErrRoleNotFound) t
    (unless (when_not (q = '''' \<or> q |\<in>| fmdom (at_roles t)) ErrRoleNotFound) t
    (unless (if parent_of (at_roles t) r = Some q then None else parent_error d (at_roles t) r q) t
       (change_role r (\<lambda>x. x\<lparr>Parent := q\<rparr>) t)))"
| "ref_admin d c t = (None, t)"

text \<open>A query about a user: not found, or what is asked of the stored user.\<close>

definition ask_user :: "user_id \<Rightarrow> (user \<Rightarrow> 'p reply) \<Rightarrow> access_tables \<Rightarrow> 'p reply" where
  "ask_user uid f t =
     (case fmlookup (at_users t) uid of None \<Rightarrow> Refused ErrUserNotFound | Some u \<Rightarrow> f u)"

fun ref_query :: "command \<Rightarrow> access_tables \<Rightarrow> permission set reply" where
  "ref_query (CmdHasRole uid r) t = ask_user uid (\<lambda>u. Answer (r \<in> set (Roles u))) t"
| "ref_query (CmdHasAnyRole uid rs) t =
     (if rs = [] then Answer False else ask_user uid (\<lambda>u. Answer (set rs \<inter> set (Roles u) \<noteq> {})) t)"
| "ref_query (CmdHasAllRoles uid rs) t =
     (if rs = [] then Answer True else ask_user uid (\<lambda>u. Answer (set rs \<subseteq> set (Roles u))) t)"
| "ref_query (CmdCheck uid p) t =
     ask_user uid (\<lambda>u.
       if allowed (at_roles t) u p then Done
       else Refused (PermissionDeniedError uid (Some u) p
         (sorted_list_of_set (effective_roles (at_roles t) (Roles u))))) t"
| "ref_query (CmdHasPermission uid p) t = ask_user uid (\<lambda>u. Answer (allowed (at_roles t) u p)) t"
| "ref_query (CmdHasAll uid ps) t =
     ask_user uid (\<lambda>u. Answer (\<forall>p \<in> set ps. allowed (at_roles t) u p)) t"
| "ref_query (CmdHasAny uid ps) t =
     ask_user uid (\<lambda>u. Answer (\<exists>p \<in> set ps. allowed (at_roles t) u p)) t"
| "ref_query (CmdPermissionsFor uid) t = ask_user uid (\<lambda>u. Listed (granted_perms (at_roles t) u)) t"
| "ref_query c t = Done"

definition ref_serve :: "int \<Rightarrow> command \<Rightarrow> access_tables \<Rightarrow> permission set reply \<times> access_tables" where
  "ref_serve d c t = (if is_query c then (ref_query c t, t) else apfst error_reply (ref_admin d c t))"

fun ref_all :: "int \<Rightarrow> command list \<Rightarrow> access_tables \<Rightarrow> permission set reply list \<times> access_tables" where
  "ref_all d [] t = ([], t)"
| "ref_all d (c # cs) t = (case ref_serve d c t of (r, t) \<Rightarrow> apfst ((#) r) (ref_all d cs t))"

text \<open>Whether a list of commands leaves no stale cached set can be read off the tables.\<close>

fun ref_safe :: "int \<Rightarrow> command list \<Rightarrow> access_tables \<Rightarrow> bool" where
  "ref_safe d [] t = True"
| "ref_safe d (c # cs) t =
     (cache_safe (at_users t) (at_roles t) c \<and> ref_safe d cs (snd (ref_serve d c t)))"

section \<open>The ancestor walk\<close>

lemma ancestor_at_0 [simp]: "ancestor_at rs 0 r a \<longleftrightarrow> r = a"
  by (auto simp: ancestor_at_def)

lemma ancestor_at_Suc: "ancestor_at rs (Suc n) r a \<longleftrightarrow>
    (\<exists>q. parent_of rs r = Some q \<and> ancestor_at rs n q a)"
  unfolding ancestor_at_def by (metis relpow_Suc_D2 relpow_Suc_I2 up_rel_iff)

lemma ancestor_split: "(\<exists>n. P n \<and> ancestor_at rs n r a) \<longleftrightarrow>
    P 0 \<and> r = a \<or> (\<exists>q. parent_of rs r = Some q \<and> (\<exists>n. P (Suc n) \<and> ancestor_at rs n q a))"
proof -
  have "(\<exists>n. P n \<and> ancestor_at rs n r a) \<longleftrightarrow>
      P 0 \<and> ancestor_at rs 0 r a \<or> (\<exists>n. P (Suc n) \<and> ancestor_at rs (Suc n) r a)"
    by (metis not0_implies_Suc)
  then show ?thesis
    by (auto simp: ancestor_at_Suc)
qed

lemma validate_walk_spec:
  assumes "name \<noteq> ''''" and "depth \<le> maxDepth + 1"
  shows "validate_walk (table_get rs) self maxDepth name depth =
    (if \<exists>n. depth + int n \<le> maxDepth + 1 \<and> ancestor_at rs n name self then Some ErrCyclicInheritance
     else if \<exists>a n. depth + int n > maxDepth \<and> ancestor_at rs n name a then Some ErrInheritanceDepth
     else None)"
  using assms
proof (induction "table_get rs" self maxDepth name depth rule: validate_walk.induct)
  case (1 self maxDepth name depth)
  consider (self) "name = self" | (bound) "name \<noteq> self" "depth > maxDepth"
    | (inside) "name \<noteq> self" "depth \<le> maxDepth"
    by force
  then show ?case
  proof cases
    case self
    then have "\<exists>n. depth + int n \<le> maxDepth + 1 \<and> ancestor_at rs n name self"
      using "1.prems"(2) by (intro exI [of _ 0]) simp
    with self show ?thesis
      using "1.prems"(1) by (simp add: validate_walk.simps [of _ _ _ self depth])
  next
    case bound
    then have "\<not> (\<exists>n. depth + int n \<le> maxDepth + 1 \<and> ancestor_at rs n name self)"
      using "1.prems"(2) by (auto simp: order.strict_iff_order dest: antisym_conv [THEN iffD1])
    moreover have "\<exists>a n. depth + int n > maxDepth \<and> ancestor_at rs n name a"
      using bound(2) by (intro exI [of _ name] exI [of _ 0]) simp
    ultimately show ?thesis
      using bound "1.prems"(1) by (simp add: validate_walk.simps [of _ _ _ name depth])
  next
    case here: inside
    note up = ancestor_split [of "\<lambda>n. depth + int n \<le> maxDepth + 1"]
      ancestor_split [of "\<lambda>n. depth + int n > maxDepth"]
    show ?thesis
    proof (cases "parent_of rs name")
      case None
      then have "validate_walk (table_get rs) self maxDepth name depth = None"
        using here by (auto simp: validate_walk.simps parent_of_def split: option.splits if_splits)
      then show ?thesis
        using None here unfolding up by simp
    next
      case (Some q)
      then obtain x where x: "fmlookup rs name = Some x" "Parent x = q" "q \<noteq> ''''"
        by (auto simp: parent_of_Some)
      then have "validate_walk (table_get rs) self maxDepth name depth =
          validate_walk (table_get rs) self maxDepth q (depth + 1)"
        using here "1.prems"(1) by (simp add: validate_walk.simps [of _ _ _ name depth])
      then show ?thesis
        using "1.hyps" [OF "1.prems"(1) here(1)] x here Some "1.prems"(1) unfolding up
        by (simp add: add.assoc add.commute [of 1])
    qed
  qed
qed

section \<open>Administration\<close>

context store_contract
begin

abbreviation view :: "'s enforcer \<Rightarrow> access_tables" where
  "view e \<equiv> \<lparr>at_users = users_in e, at_roles = roles_in e\<rparr>"

lemma validate_ref:
  assumes "ok (e_store e)" and "e_maxDepth e \<ge> 0"
  shows "validateInheritance ops e r = parent_error (e_maxDepth e) (roles_in e) (Name r) (Parent r)"
proof -
  have walk: "validate_walk (table_get rs) self (e_maxDepth e) p 1 =
      (if \<exists>n. int n \<le> e_maxDepth e \<and> ancestor_at rs n p self then Some ErrCyclicInheritance
       else if \<exists>a n. e_maxDepth e \<le> int n \<and> ancestor_at rs n p a then Some ErrInheritanceDepth
       else None)" if "p \<noteq> ''''" for p self rs
  proof -
    have "1 + int n \<le> e_maxDepth e + 1 \<longleftrightarrow> int n \<le> e_maxDepth e"
      and "e_maxDepth e < 1 + int n \<longleftrightarrow> e_maxDepth e \<le> int n" for n
      by linarith+
    then show ?thesis
      using validate_walk_spec [OF that, of 1 "e_maxDepth e" rs self] assms(2) by simp
  qed
  show ?thesis
    unfolding validate_walk_contract [OF assms(1)] parent_error_def by (simp add: walk)
qed

lemma removeAll_filter: "removeAll x xs = filter (\<lambda>y. y \<noteq> x) xs"
  by (induction xs) auto

lemmas ref_simps =
  unless_def change_user_def change_role_def add_once_def removeAll_filter fmdom_lookup fmdom_notin

lemma user_admin_ref:
  assumes "ok (e_store e)"
  shows "apsnd view (CreateUser ops uid rs e) = ref_admin d (CmdCreateUser uid rs) (view e)"
    and "apsnd view (DeleteUser ops uid e) = ref_admin d (CmdDeleteUser uid) (view e)"
    and "apsnd view (AssignRole ops uid r e) = ref_admin d (CmdAssignRole uid r) (view e)"
    and "apsnd view (RevokeRole ops uid r e) = ref_admin d (CmdRevokeRole uid r) (view e)"
    and "apsnd view (GrantDirectPermission ops uid p e) = ref_admin d (CmdGrantDirect uid p) (view e)"
    and "apsnd view (RevokeDirectPermission ops uid p e) = ref_admin d (CmdRevokeDirect uid p) (view e)"
proof -
  have keys: "fmlookup (users_in e) v = Some u \<Longrightarrow> ID u = v" for v u
    using user_key_same [OF assms] by blast
  show "apsnd view (CreateUser ops uid rs e) = ref_admin d (CmdCreateUser uid rs) (view e)"
    using assms by (simp add: CreateUser_effect ref_simps Let_def split_beta create_user_uof create_user_rof)
  show "apsnd view (DeleteUser ops uid e) = ref_admin d (CmdDeleteUser uid) (view e)"
    using assms by (simp add: DeleteUser_effect ref_simps apsnd_def map_prod_def split_beta delete_user_uof delete_user_rof)
  show "apsnd view (AssignRole ops uid r e) = ref_admin d (CmdAssignRole uid r) (view e)"
    using assms keys
    by (auto simp: AssignRole_effect ref_simps update_user_writes update_user_rof split: option.split)
  show "apsnd view (RevokeRole ops uid r e) = ref_admin d (CmdRevokeRole uid r) (view e)"
    using assms keys
    by (auto simp: RevokeRole_effect ref_simps Let_def update_user_writes update_user_rof split: option.split)
  show "apsnd view (GrantDirectPermission ops uid p e) = ref_admin d (CmdGrantDirect uid p) (view e)"
    using assms keys
    by (auto simp: GrantDirectPermission_effect ref_simps update_user_writes update_user_rof split: option.split)
  show "apsnd view (RevokeDirectPermission ops uid p e) = ref_admin d (CmdRevokeDirect uid p) (view e)"
    using assms keys
    by (auto simp: RevokeDirectPermission_effect ref_simps update_user_writes update_user_rof split: option.split)
qed

lemma role_admin_ref:
  assumes "ok (e_store e)" and depth: "0 \<le> e_maxDepth e"
  defines "d \<equiv> e_maxDepth e"
  shows "apsnd view (CreateRole ops r ps q e) = ref_admin d (CmdCreateRole r ps q) (view e)"
    and "apsnd view (UpdateRole ops r ps q e) = ref_admin d (CmdUpdateRole r ps q) (view e)"
    and "apsnd view (GrantPermission ops r p e) = ref_admin d (CmdGrant r p) (view e)"
    and "apsnd view (RevokePermission ops r p e) = ref_admin d (CmdRevoke r p) (view e)"
    and "apsnd view (SetParent ops r q e) = ref_admin d (CmdSetParent r q) (view e)"
proof -
  have keys: "fmlookup (roles_in e) v = Some x \<Longrightarrow> Name x = v" for v x
    using role_key_same [OF assms(1)] by blast
  note rules = ref_simps Let_def update_role_writes update_role_uof validate_ref [OF assms(1) depth] d_def list_all_iff
  show "apsnd view (CreateRole ops r ps q e) = ref_admin d (CmdCreateRole r ps q) (view e)"
    using assms(1) by (auto simp: CreateRole_effect rules create_role_uof create_role_rof split: option.split)
  show "apsnd view (UpdateRole ops r ps q e) = ref_admin d (CmdUpdateRole r ps q) (view e)"
    using assms(1) by (auto simp: UpdateRole_effect rules update_role_rof split: option.split)
  show "apsnd view (GrantPermission ops r p e) = ref_admin d (CmdGrant r p) (view e)"
    using assms(1) keys by (auto simp: GrantPermission_effect rules split: option.split)
  show "apsnd view (RevokePermission ops r p e) = ref_admin d (CmdRevoke r p) (view e)"
    using assms(1) keys by (auto simp: RevokePermission_effect rules split: option.split)
  show "apsnd view (SetParent ops r q e) = ref_admin d (CmdSetParent r q) (view e)"
  proof (cases "fmlookup (roles_in e) r")
    case None
    then show ?thesis
      using assms(1) by (simp add: SetParent_effect ref_simps)
  next
    case (Some x)
    note x = keys [OF Some] update_role_writes [OF assms(1)] update_role_uof [OF assms(1)]
    have same: "fmupd r (x\<lparr>Parent := Parent x\<rparr>) (roles_in e) = roles_in e"
      using Some by simp
    have linked: "parent_of (roles_in e) r = Some q \<longleftrightarrow> q \<noteq> '''' \<and> Parent x = q"
      using Some by (auto simp: parent_of_Some)
    show ?thesis
      using Some x same
      by (cases "q = ''''"; cases "Parent x = q"; cases "fmlookup (roles_in e) q")
        (simp_all add: SetParent_effect [OF assms(1)] validate_ref [OF assms(1) depth] d_def linked
          unless_def change_role_def fmdom_lookup parent_error_def split: option.split)
  qed
qed

lemma DeleteRole_ref:
  assumes inv: "inv e" and ord: "go_range ord"
  shows "apsnd view (DeleteRole ord ops r e) = ref_admin d (CmdDeleteRole r) (view e)"
    and "e_maxDepth (snd (DeleteRole ord ops r e)) = e_maxDepth e"
proof -
  have "apsnd view (DeleteRole ord ops r e) = ref_admin d (CmdDeleteRole r) (view e) \<and>
      e_maxDepth (snd (DeleteRole ord ops r e)) = e_maxDepth e"
  proof (cases "r |\<in>| fmdom (roles_in e)")
    case False
    then show ?thesis
      using inv by (simp add: DeleteRole_unknown unless_def)
  next
    case True
    have exact: "holders_exact (users_in e) e" and "parent_of (roles_in e) r \<noteq> Some r"
      using inv no_self_parent by (auto simp: enforcer_inv_def)
    then obtain e' where e': "DeleteRole ord ops r e = (None, e')" "e_maxDepth e' = e_maxDepth e"
      "\<And>uid. fmlookup (users_in e') uid = map_option (drop_role r) (fmlookup (users_in e) uid)"
      "\<And>x. fmlookup (roles_in e') x =
         (if x = r then None else map_option (drop_parent r) (fmlookup (roles_in e) x))"
      using DeleteRole_effect [of e ord r, OF _ ord True holders_exactD [OF exact]] inv by auto
    then have "users_in e' = fmmap (drop_role r) (users_in e)"
      and "roles_in e' = fmmap (drop_parent r) (fmdrop r (roles_in e))"
      by (auto intro!: fmap_ext)
    then show ?thesis
      using True e' by (simp add: unless_def)
  qed
  then show "apsnd view (DeleteRole ord ops r e) = ref_admin d (CmdDeleteRole r) (view e)"
    and "e_maxDepth (snd (DeleteRole ord ops r e)) = e_maxDepth e"
    by blast+
qed

lemma admin_depth:
  assumes "ok (e_store e)"
  shows "e_maxDepth (snd (CreateUser ops uid rs e)) = e_maxDepth e"
    and "e_maxDepth (snd (DeleteUser ops uid e)) = e_maxDepth e"
    and "e_maxDepth (snd (AssignRole ops uid r e)) = e_maxDepth e"
    and "e_maxDepth (snd (RevokeRole ops uid r e)) = e_maxDepth e"
    and "e_maxDepth (snd (GrantDirectPermission ops uid p e)) = e_maxDepth e"
    and "e_maxDepth (snd (RevokeDirectPermission ops uid p e)) = e_maxDepth e"
    and "e_maxDepth (snd (CreateRole ops r ps q e)) = e_maxDepth e"
    and "e_maxDepth (snd (UpdateRole ops r ps q e)) = e_maxDepth e"
    and "e_maxDepth (snd (GrantPermission ops r p e)) = e_maxDepth e"
    and "e_maxDepth (snd (RevokePermission ops r p e)) = e_maxDepth e"
    and "e_maxDepth (snd (SetParent ops r q e)) = e_maxDepth e"
  using assms
  by (simp_all add: CreateUser_effect DeleteUser_effect AssignRole_effect RevokeRole_effect
      GrantDirectPermission_effect RevokeDirectPermission_effect CreateRole_effect UpdateRole_effect
      GrantPermission_effect RevokePermission_effect SetParent_effect Let_def split_beta
      split: option.split)

text \<open>Every administrative command does to the stored tables what the reference monitor does, and
returns its error, whatever the caches hold.\<close>

lemma serve_admin:
  assumes "inv e" and "go_range ord" and "0 \<le> e_maxDepth e" and "\<not> is_query c"
  shows "\<exists>r e'. serve ord ops c e = Some (r, e') \<and> e_maxDepth e' = e_maxDepth e \<and>
    (map_reply set r, view e') = ref_serve (e_maxDepth e) c (view e)"
proof -
  have reply: "map_reply set (error_reply err) = error_reply err" for err
    by (cases err) simp_all
  have "\<exists>r e'. Some (apfst error_reply res) = Some (r, e') \<and> e_maxDepth e' = e_maxDepth e \<and>
      (map_reply set r, view e') = ref_serve (e_maxDepth e) c (view e)"
    if "apsnd view res = ref_admin (e_maxDepth e) c (view e)" "e_maxDepth (snd res) = e_maxDepth e" for res
    using that assms(4) by (cases res) (auto simp: ref_serve_def reply simp flip: that(1))
  then show ?thesis
    using assms user_admin_ref role_admin_ref DeleteRole_ref admin_depth
    by (cases c) (simp_all only: serve.simps is_query.simps simp_thms)
qed

end

section \<open>Queries\<close>

text \<open>The queries that ask the cached sets.\<close>

fun asks_cache :: "command \<Rightarrow> bool" where
  "asks_cache (CmdCheck uid p) = True"
| "asks_cache (CmdHasPermission uid p) = True"
| "asks_cache (CmdHasAll uid ps) = True"
| "asks_cache (CmdHasAny uid ps) = True"
| "asks_cache (CmdPermissionsFor uid) = True"
| "asks_cache c = False"

context store_contract
begin

lemma query_reply:
  assumes inv: "inv e" and ord: "go_range ord" and "is_query c" and coh: "asks_cache c \<Longrightarrow> coherent e"
  shows "map_option (map_reply set \<circ> fst) (serve ord ops c e) = Some (ref_query c (view e))"
proof -
  have ok: "ok (e_store e)" and direct: "direct_at (users_in e) e uid" for uid
    using inv by (auto simp: enforcer_inv_def direct_exact_def)
  have at: "coherent_at (users_in e) (roles_in e) e uid" if "asks_cache c" for uid
    using coh [OF that] by (auto simp: cache_coherent_def)
  show ?thesis
    using assms(3)
  proof (cases c)
    case (CmdHasRole uid r)
    then show ?thesis
      using HasRole_correct [OF ok direct, of uid r] by (auto simp: ask_user_def split: option.split)
  next
    case (CmdHasAnyRole uid rs)
    then show ?thesis
      using HasAnyRole_correct [OF ok direct, of rs uid]
      by (cases "rs = []") (auto simp: ask_user_def HasAnyRole_def split: option.split)
  next
    case (CmdHasAllRoles uid rs)
    then show ?thesis
      using HasAllRoles_correct [OF ok direct, of rs uid]
      by (cases "rs = []") (auto simp: ask_user_def HasAllRoles_def split: option.split)
  next
    case (CmdCheck uid q)
    then show ?thesis
      using Check_correct [OF ok at, of uid q] by (auto simp: ask_user_def split: option.split)
  next
    case (CmdHasPermission uid q)
    then show ?thesis
      using HasPermission_correct [OF ok at, of uid q] by (auto simp: ask_user_def split: option.split)
  next
    case (CmdHasAll uid qs)
    then show ?thesis
      using HasAllPermissions_correct [OF ok at, of uid qs] by (auto simp: ask_user_def split: option.split)
  next
    case (CmdHasAny uid qs)
    then show ?thesis
      using HasAnyPermission_correct [OF ok at, of uid qs] by (auto simp: ask_user_def split: option.split)
  next
    case (CmdPermissionsFor uid)
    show ?thesis
    proof (cases "fmlookup (users_in e) uid")
      case None
      then show ?thesis
        using CmdPermissionsFor by (simp add: PermissionsFor_def with_granted_unknown [OF ok] ask_user_def)
    next
      case (Some u)
      then show ?thesis
        using PermissionsFor_correct [OF ok at Some ord] CmdPermissionsFor by (auto simp: ask_user_def)
    qed
  qed simp_all
qed

lemma serve_query:
  assumes inv: "inv e" and ord: "go_range ord" and c: "is_query c" and "asks_cache c \<Longrightarrow> coherent e"
  shows "\<exists>r e'. serve ord ops c e = Some (r, e') \<and> e_maxDepth e' = e_maxDepth e \<and>
    (map_reply set r, view e') = ref_serve (e_maxDepth e) c (view e)"
proof -
  obtain e' where "map_option snd (serve ord ops c e) = Some e'" "fills (users_in e) (roles_in e) e e'"
    using exec_query_fills [OF _ c, of e ord] inv by (auto simp: serve_exec)
  then show ?thesis
    using query_reply [OF assms] c by (auto simp: ref_serve_def fills_frame)
qed

section \<open>Runs\<close>

lemma serve_step:
  assumes "inv e" and "go_range ord" and "0 \<le> e_maxDepth e" and "asks_cache c \<Longrightarrow> coherent e"
  shows "\<exists>r e'. serve ord ops c e = Some (r, e') \<and> inv e' \<and> e_maxDepth e' = e_maxDepth e \<and>
    (map_reply set r, view e') = ref_serve (e_maxDepth e) c (view e)"
proof -
  obtain r e' where step: "serve ord ops c e = Some (r, e')" "e_maxDepth e' = e_maxDepth e"
      "(map_reply set r, view e') = ref_serve (e_maxDepth e) c (view e)"
    using serve_query [OF assms(1,2), of c] serve_admin [OF assms(1-3), of c] assms(4)
    by (cases "is_query c") blast+
  moreover have "inv e'"
    using exec_inv [OF assms(1,2), of c] step(1) by (simp add: serve_exec)
  ultimately show ?thesis
    by blast
qed

text \<open>A run of commands that leave no stale cached set is a run of the reference monitor.\<close>

lemma serve_all_refines:
  assumes "inv e" and "coherent e" and "0 \<le> e_maxDepth e" and "list_all (go_range \<circ> fst) cs"
    and "ref_safe (e_maxDepth e) (map snd cs) (view e)"
  shows "\<exists>rs e'. serve_all ops cs e = Some (rs, e') \<and>
    (map (map_reply set) rs, view e') = ref_all (e_maxDepth e) (map snd cs) (view e)"
  using assms
proof (induction cs arbitrary: e)
  case (Cons oc cs)
  obtain ord c where oc: "oc = (ord, c)" "go_range ord"
    using Cons.prems(4) by (cases oc) simp
  obtain r e1 where e1: "serve ord ops c e = Some (r, e1)" "inv e1" "e_maxDepth e1 = e_maxDepth e"
      "(map_reply set r, view e1) = ref_serve (e_maxDepth e) c (view e)"
    using serve_step [OF Cons.prems(1) oc(2) Cons.prems(3)] Cons.prems(2) by blast
  have "coherent e1"
    using exec_coherent [OF Cons.prems(1,2) oc(2), of c e1] Cons.prems(5) e1(1) oc(1) by (simp add: serve_exec)
  moreover have "ref_safe (e_maxDepth e1) (map snd cs) (view e1)"
    using Cons.prems(5) oc(1) e1(3) by (simp add: e1(4) [symmetric])
  ultimately obtain rs e' where rest: "serve_all ops cs e1 = Some (rs, e')"
      "(map (map_reply set) rs, view e') = ref_all (e_maxDepth e) (map snd cs) (view e1)"
    using Cons.IH [OF e1(2)] Cons.prems(3,4) e1(3) by auto
  then have "serve_all ops (oc # cs) e = Some (r # rs, e')"
    and "ref_all (e_maxDepth e) (map snd (oc # cs)) (view e) = (map_reply set r # map (map_reply set) rs, view e')"
    using e1(1) oc(1) rest(1) by (simp_all flip: e1(4) rest(2))
  then show ?case
    by simp
qed simp

text \<open>Any run at all agrees with the reference monitor but for the permission queries.\<close>

lemma serve_any:
  assumes "inv e" and "go_range ord" and "0 \<le> e_maxDepth e"
  shows "\<exists>r e'. serve ord ops c e = Some (r, e') \<and> inv e' \<and> e_maxDepth e' = e_maxDepth e \<and>
    view e' = snd (ref_serve (e_maxDepth e) c (view e)) \<and>
    (asks_cache c \<or> map_reply set r = fst (ref_serve (e_maxDepth e) c (view e)))"
proof (cases "asks_cache c")
  case False
  then show ?thesis
    using serve_step [OF assms, of c] by (metis fst_conv snd_conv)
next
  case True
  then have c: "is_query c"
    by (cases c) simp_all
  obtain e' where e': "exec ord ops c e = Some e'" "fills (users_in e) (roles_in e) e e'" "inv e'"
    using exec_query_fills [OF _ c, of e ord] exec_inv [OF assms(1,2), of c] assms(1) by auto
  then show ?thesis
    using True c by (auto simp: serve_exec ref_serve_def fills_frame)
qed

lemma serve_all_any:
  assumes "inv e" and "0 \<le> e_maxDepth e" and "list_all (go_range \<circ> fst) cs"
  shows "\<exists>rs e'. serve_all ops cs e = Some (rs, e') \<and>
    view e' = snd (ref_all (e_maxDepth e) (map snd cs) (view e)) \<and>
    list_all2 (\<lambda>c rr. asks_cache c \<or> map_reply set (fst rr) = snd rr) (map snd cs)
      (zip rs (fst (ref_all (e_maxDepth e) (map snd cs) (view e)))) \<and>
    length rs = length cs"
  using assms
proof (induction cs arbitrary: e)
  case (Cons oc cs)
  obtain ord c where oc: "oc = (ord, c)" "go_range ord"
    using Cons.prems(3) by (cases oc) simp
  obtain r e1 where e1: "serve ord ops c e = Some (r, e1)" "inv e1" "e_maxDepth e1 = e_maxDepth e"
      "view e1 = snd (ref_serve (e_maxDepth e) c (view e))"
      "asks_cache c \<or> map_reply set r = fst (ref_serve (e_maxDepth e) c (view e))"
    using serve_any [OF Cons.prems(1) oc(2) Cons.prems(2)] by blast
  obtain rs e' where "serve_all ops cs e1 = Some (rs, e')"
      "view e' = snd (ref_all (e_maxDepth e1) (map snd cs) (view e1))"
      "list_all2 (\<lambda>c rr. asks_cache c \<or> map_reply set (fst rr) = snd rr) (map snd cs)
        (zip rs (fst (ref_all (e_maxDepth e1) (map snd cs) (view e1))))" "length rs = length cs"
    using Cons.IH [OF e1(2)] Cons.prems(2,3) e1(3) by auto
  then show ?case
    using e1 oc(1) by (auto simp: split_beta)
qed simp

end

section \<open>Properties\<close>

lemma fresh_view:
  "ms_users (e_store (fresh_enforcer depths)) = fmempty" "ms_roles (e_store (fresh_enforcer depths)) = fmempty"
  "0 \<le> e_maxDepth (fresh_enforcer depths)"
proof -
  have "e_store (fresh_enforcer depths) = NewMemoryStore"
    using New_depth_only [of "map WithMaxDepth depths" NewMemoryStore]
    by (auto simp: fresh_enforcer_def list_all_iff)
  then show "ms_users (e_store (fresh_enforcer depths)) = fmempty" "ms_roles (e_store (fresh_enforcer depths)) = fmempty"
    by (simp_all add: NewMemoryStore_def)
  have "list_all known_option (map WithMaxDepth depths)"
    by (auto simp: list_all_iff known_option_def)
  from New_cold [OF this, of NewMemoryStore] show "0 \<le> e_maxDepth (fresh_enforcer depths)"
    by (simp add: fresh_enforcer_def order.strict_implies_order)
qed

text \<open>The depth stays what it was, and queries leave the tables alone.\<close>

lemma reachable_depth:
  assumes "reachable memory_ops (fresh_enforcer depths) e"
  shows "0 \<le> e_maxDepth e"
  using assms
proof (induction rule: reachable.induct)
  case (reachable_step e c e')
  obtain ord where "go_range ord" "exec ord memory_ops c e = Some e'"
    using reachable_step.hyps(2) by (auto elim: enf_stepE)
  then show ?case
    using mem.serve_any [OF fresh_reachable_inv [OF reachable_step.hyps(1)], of ord c] reachable_step.IH
    by (auto simp: serve_exec)
qed (rule fresh_view)

lemma ref_all_append: "ref_all d (cs @ ds) t =
    (case ref_all d cs t of (rs, t) \<Rightarrow> apfst ((@) rs) (ref_all d ds t))"
  by (induction cs arbitrary: t) (auto simp: apfst_def map_prod_def split: prod.split)

lemma ref_safe_append: "ref_safe d (cs @ ds) t \<longleftrightarrow> ref_safe d cs t \<and> ref_safe d ds (snd (ref_all d cs t))"
  by (induction cs arbitrary: t) (auto split: prod.split)

lemma query_safe: "is_query c \<Longrightarrow> cache_safe us rs c"
  by (cases c) simp_all

lemma ref_queries: "list_all is_query cs \<Longrightarrow> ref_safe d cs t \<and> snd (ref_all d cs t) = t"
  by (induction cs) (auto simp: ref_serve_def query_safe split: prod.split)

lemma map_snd_Pair [simp]: "map (snd \<circ> Pair x) xs = xs"
  by (simp add: comp_def)

text \<open>C2: The enforcer refines the reference monitor. From a new enforcer over a memory store, whatever depth
it was given, every list of commands that leaves no stale cached set returns command by command, each
with its own order of visiting maps; every reply, error or listing is the one of the reference monitor,
which reads two tables and has no cache, and the stored users and roles end as its tables.\<close>

theorem enforcer_refines_reference:
  assumes "list_all (go_range \<circ> fst) cs"
    and "ref_safe (e_maxDepth (fresh_enforcer depths)) (map snd cs) no_tables"
  shows "\<exists>rs e. serve_all memory_ops cs (fresh_enforcer depths) = Some (rs, e) \<and>
    (map (map_reply set) rs, \<lparr>at_users = ms_users (e_store e), at_roles = ms_roles (e_store e)\<rparr>) =
      ref_all (e_maxDepth (fresh_enforcer depths)) (map snd cs) no_tables"
  using mem.serve_all_refines [OF fresh_inv fresh_view(3) assms(1)] assms(2)
  by (simp add: fresh_view no_tables_def)

lemma enforcer_refines_reference_witness:
  "let cs = [CmdCreateRole ''reader'' [perm ''article'' ''read''] '''', CmdCreateUser ''ann'' [''reader''],
       CmdCheck ''ann'' (perm ''article'' ''read''), CmdRevokeRole ''ann'' ''reader'', CmdHasRole ''ann'' ''reader''] in
   \<exists>rs e. serve_all memory_ops (map (Pair sorted_list_of_fset) cs) start = Some (rs, e) \<and>
     map (map_reply set) rs = fst (ref_all 32 cs no_tables) \<and> last rs = Answer False"
proof -
  let ?cs = "[CmdCreateRole ''reader'' [perm ''article'' ''read''] '''', CmdCreateUser ''ann'' [''reader''],
       CmdCheck ''ann'' (perm ''article'' ''read''), CmdRevokeRole ''ann'' ''reader'', CmdHasRole ''ann'' ''reader'']"
  have depth: "e_maxDepth (fresh_enforcer []) = 32"
    by code_simp
  have "ref_safe 32 ?cs no_tables"
    by (simp add: unheld_def no_tables_def)
  moreover have "list_all (go_range \<circ> fst) (map (Pair sorted_list_of_fset) ?cs)"
    by simp
  moreover have "map_option (last \<circ> fst) (serve_all memory_ops (map (Pair sorted_list_of_fset) ?cs) start) = Some (Answer False)"
    by code_simp
  ultimately show ?thesis
    using enforcer_refines_reference [of "map (Pair sorted_list_of_fset) ?cs" "[]"]
    unfolding Let_def depth by (auto simp: comp_def dest: arg_cong [of _ _ fst])
qed

text \<open>C20: Whatever the commands, stale cached sets or not, every administrative operation and every role
query replies as the reference monitor does, each command returns, and the stored users and roles end
as the tables of the reference monitor. Only the five permission queries may reply otherwise.\<close>

theorem administration_refines_reference:
  assumes "list_all (go_range \<circ> fst) cs"
  shows "\<exists>rs e. serve_all memory_ops cs (fresh_enforcer depths) = Some (rs, e) \<and> length rs = length cs \<and>
    (let (rs', t) = ref_all (e_maxDepth (fresh_enforcer depths)) (map snd cs) no_tables in
     \<lparr>at_users = ms_users (e_store e), at_roles = ms_roles (e_store e)\<rparr> = t \<and>
     list_all2 (\<lambda>c rr. asks_cache c \<or> map_reply set (fst rr) = snd rr) (map snd cs) (zip rs rs'))"
  using mem.serve_all_any [OF fresh_inv(1) fresh_view(3) assms]
  by (simp add: fresh_view no_tables_def split_beta) blast

lemma administration_refines_reference_witness:
  "let cs = staff @ [CmdRevoke ''reader'' (perm ''article'' ''read''), CmdCheck ''bob'' (perm ''article'' ''read''),
       CmdRevokeRole ''bob'' ''editor'', CmdHasRole ''bob'' ''editor''] in
   \<exists>rs e. serve_all memory_ops (map (Pair sorted_list_of_fset) cs) start = Some (rs, e) \<and>
     ms_users (e_store e) = at_users (snd (ref_all 32 cs no_tables)) \<and> last rs = Answer False"
proof -
  let ?cs = "staff @ [CmdRevoke ''reader'' (perm ''article'' ''read''), CmdCheck ''bob'' (perm ''article'' ''read''),
       CmdRevokeRole ''bob'' ''editor'', CmdHasRole ''bob'' ''editor'']"
  have depth: "e_maxDepth (fresh_enforcer []) = 32"
    by code_simp
  have "list_all (go_range \<circ> fst) (map (Pair sorted_list_of_fset) ?cs)"
    by (simp add: list_all_iff)
  from administration_refines_reference [OF this, of "[]"]
  obtain rs e where "serve_all memory_ops (map (Pair sorted_list_of_fset) ?cs) start = Some (rs, e)"
      and "\<lparr>at_users = ms_users (e_store e), at_roles = ms_roles (e_store e)\<rparr> = snd (ref_all 32 ?cs no_tables)"
    unfolding Let_def depth by (elim exE conjE) (simp add: split_beta)
  moreover have "map_option (last \<circ> fst) (serve_all memory_ops (map (Pair sorted_list_of_fset) ?cs) start) = Some (Answer False)"
    by code_simp
  ultimately show ?thesis
    unfolding Let_def by (intro exI [of _ rs] exI [of _ e]) (auto dest: arg_cong [of _ _ at_users])
qed

end
