(* ===== verification/Authz_Races.thy ===== *)
theory Authz_Races
  imports Authz_Concurrent Authz_Reference
begin

text \<open>
  Queries that run at the same time as other calls. A query of \<open>authz/check.go\<close> looks into a
  cache, reads the store, and publishes what it found, and holds no lock from one of these
  to the next; here it is cut at these points, and \<open>DeleteUser\<close> between the eviction and the
  call of the store. Any number of queries at once answer as each would alone. A query
  between the two halves of \<open>DeleteUser\<close> brings back what the eviction had removed. Changes of two
  different users at the same time (\<open>Authz_Concurrent\<close>) refine the reference monitor.
\<close>

section \<open>Threads that rely on one another\<close>

text \<open>Any number of goroutines; a schedule lists whose turn it is.\<close>

fun run_threads :: "('t \<Rightarrow> 's \<Rightarrow> 't \<times> 's) \<Rightarrow> nat list \<Rightarrow> 't list \<times> 's \<Rightarrow> 't list \<times> 's" where
  "run_threads step [] st = st"
| "run_threads step (i # is) (ts, s) =
     run_threads step is
       (if i < length ts then let (t, s) = step (ts ! i) s in (ts[i := t], s) else (ts, s))"

text \<open>
  What each thread guarantees of the shared state, and that no thread needs more than that of
  the others. A step brings a thread nearer to its end.
\<close>

locale stable_threads =
  fixes step :: "'t \<Rightarrow> 's \<Rightarrow> 't \<times> 's" and guar :: "'s \<Rightarrow> 's \<Rightarrow> bool"
    and fine :: "'t \<Rightarrow> 's \<Rightarrow> bool" and rank :: "'t \<Rightarrow> nat"
  assumes guar_refl: "guar s s"
    and guar_trans: "guar s s' \<Longrightarrow> guar s' s'' \<Longrightarrow> guar s s''"
    and step_guar: "fine t s \<Longrightarrow> step t s = (t', s') \<Longrightarrow> guar s s'"
    and step_fine: "fine t s \<Longrightarrow> step t s = (t', s') \<Longrightarrow> fine t' s'"
    and step_rank: "fine t s \<Longrightarrow> step t s = (t', s') \<Longrightarrow> rank t' \<le> rank t - 1"
    and stable: "fine t s \<Longrightarrow> guar s s' \<Longrightarrow> fine t s'"
begin

theorem parallel:
  assumes "list_all (\<lambda>t. fine t s) ts" and "run_threads step is (ts, s) = (ts', s')"
  shows "guar s s' \<and> length ts' = length ts \<and> list_all (\<lambda>t. fine t s') ts' \<and>
    (\<forall>i < length ts. rank (ts' ! i) \<le> rank (ts ! i) - count_list is i)"
  using assms
proof (induction "is" arbitrary: ts s)
  case Nil
  then show ?case
    by (simp add: guar_refl)
next
  case (Cons i "is")
  show ?case
  proof (cases "i < length ts")
    case False
    then have "count_list (i # is) j = count_list is j" if "j < length ts" for j
      using that by auto
    then show ?thesis
      using Cons.IH [OF Cons.prems(1)] Cons.prems(2) False by simp
  next
    case True
    obtain t s1 where t: "step (ts ! i) s = (t, s1)"
      by (cases "step (ts ! i) s")
    have "fine (ts ! i) s"
      using Cons.prems(1) True by (simp add: list_all_length)
    note now = step_guar [OF this t] step_fine [OF this t] step_rank [OF this t]
    have "list_all (\<lambda>t. fine t s1) (ts[i := t])"
      using Cons.prems(1) True now(2) stable [OF _ now(1)]
      by (auto simp: list_all_length nth_list_update)
    then have rest: "guar s1 s' \<and> length ts' = length ts \<and> list_all (\<lambda>t. fine t s') ts' \<and>
        (\<forall>j < length ts. rank (ts' ! j) \<le> rank (ts[i := t] ! j) - count_list is j)"
      using Cons.IH [of s1 "ts[i := t]"] Cons.prems(2) True t by simp
    moreover have "rank (ts' ! j) \<le> rank (ts ! j) - count_list (i # is) j" if "j < length ts" for j
    proof (cases "j = i")
      case True
      have "rank (ts' ! i) \<le> rank t - count_list is i"
        using rest \<open>i < length ts\<close> by (metis nth_list_update_eq)
      then show ?thesis
        using True now(3) by (simp add: diff_le_mono order_trans [of _ _ "rank (ts ! i) - 1 - count_list is i"])
    next
      case False
      then have "ts[i := t] ! j = ts ! j"
        by simp
      then show ?thesis
        using rest that False by (metis count_list.simps(2))
    qed
    ultimately show ?thesis
      using guar_trans [OF now(1)] by blast
  qed
qed

end

section \<open>Queries in pieces\<close>

fun query_user :: "command \<Rightarrow> user_id" where
  "query_user (CmdHasRole uid r) = uid"
| "query_user (CmdHasAnyRole uid rs) = uid"
| "query_user (CmdHasAllRoles uid rs) = uid"
| "query_user (CmdCheck uid p) = uid"
| "query_user (CmdHasPermission uid p) = uid"
| "query_user (CmdHasAll uid ps) = uid"
| "query_user (CmdHasAny uid ps) = uid"
| "query_user (CmdPermissionsFor uid) = uid"
| "query_user c = ''''"

text \<open>What a query makes of the granted set, the user and the effective roles ...\<close>

fun granted_reply ::
  "(string goset \<Rightarrow> string list) \<Rightarrow> command \<Rightarrow> granted_set \<Rightarrow> user \<Rightarrow> role_id list \<Rightarrow> permission list reply" where
  "granted_reply ord (CmdCheck uid p) S u rs =
     (if gs_has (Some S) p then Done else Refused (PermissionDeniedError uid (Some u) p rs))"
| "granted_reply ord (CmdHasPermission uid p) S u rs = Answer (gs_has (Some S) p)"
| "granted_reply ord (CmdHasAll uid ps) S u rs = Answer (has_all S ps)"
| "granted_reply ord (CmdHasAny uid ps) S u rs = Answer (has_any S ps)"
| "granted_reply ord (CmdPermissionsFor uid) S u rs = Listed (sort_key Permission_String (gs_flatten ord S))"
| "granted_reply ord c S u rs = Done"

text \<open>... and of the direct roles.\<close>

fun roles_reply :: "command \<Rightarrow> role_id goset \<Rightarrow> permission list reply" where
  "roles_reply (CmdHasRole uid r) S = Answer (r |\<in>| S)"
| "roles_reply (CmdHasAnyRole uid rs) S = Answer (any_role S rs)"
| "roles_reply (CmdHasAllRoles uid rs) S = Answer (all_roles S rs)"
| "roles_reply c S = Done"

text \<open>The role queries about no role at all are answered without a look at the user.\<close>

fun trivial_reply :: "command \<Rightarrow> bool option" where
  "trivial_reply (CmdHasAnyRole uid rs) = (if length rs = 0 then Some False else None)"
| "trivial_reply (CmdHasAllRoles uid rs) = (if length rs = 0 then Some True else None)"
| "trivial_reply c = None"

text \<open>
  Where a query is: before its first look at a cache, with the cached set it found or
  without, with the user it read, with the set it computed and has yet to publish, or done.
  The reads of roles that compute a set are one step. A walk that does not return leaves its
  thread where it is.
\<close>

datatype query_thread =
    Asked command
  | CacheHit command granted_set
  | HitUser command granted_set user
  | CacheMiss command
  | MissUser command user
  | Computed command user granted_set "role_id list"
  | RolesMiss command
  | RolesUser command user
  | Replied command "permission list reply"

fun query_step ::
  "(string goset \<Rightarrow> string list) \<Rightarrow> 's store_ops \<Rightarrow> query_thread \<Rightarrow> 's enforcer \<Rightarrow> query_thread \<times> 's enforcer" where
  "query_step ord ops (Asked c) e =
     (if asks_cache c then
        (case fmlookup (e_cache e) (query_user c) of
           Some S \<Rightarrow> (CacheHit c S, e)
         | None \<Rightarrow> (CacheMiss c, e))
      else (case trivial_reply c of
          Some b \<Rightarrow> (Replied c (Answer b), e)
        | None \<Rightarrow>
            (case fmlookup (e_directRoles e) (query_user c) of
               Some S \<Rightarrow> (Replied c (roles_reply c S), e)
             | None \<Rightarrow> (RolesMiss c, e))))"
| "query_step ord ops (CacheHit c S) e =
     (case st_GetUser ops (query_user c) (e_store e) of
        Inl err \<Rightarrow> (Replied c (Refused err), e)
      | Inr u \<Rightarrow> (HitUser c S u, e))"
| "query_step ord ops (HitUser c S u) e =
     (case resolveRoles ops (e_store e) u of
        None \<Rightarrow> (HitUser c S u, e)
      | Some (Inl err) \<Rightarrow> (Replied c (granted_reply ord c S u (Roles u)), e)
      | Some (Inr roles) \<Rightarrow> (Replied c (granted_reply ord c S u roles), e))"
| "query_step ord ops (CacheMiss c) e =
     (case st_GetUser ops (query_user c) (e_store e) of
        Inl err \<Rightarrow> (Replied c (Refused err), e)
      | Inr u \<Rightarrow> (MissUser c u, e))"
| "query_step ord ops (MissUser c u) e =
     (case computeSet ops (e_store e) u of
        None \<Rightarrow> (MissUser c u, e)
      | Some (Inl err) \<Rightarrow> (Replied c (Refused err), e)
      | Some (Inr (S, roles)) \<Rightarrow> (Computed c u S roles, e))"
| "query_step ord ops (Computed c u S roles) e =
     (let (S, e) = publishGranted u S e in (Replied c (granted_reply ord c S u roles), e))"
| "query_step ord ops (RolesMiss c) e =
     (case st_GetUser ops (query_user c) (e_store e) of
        Inl err \<Rightarrow> (Replied c (Refused err), e)
      | Inr u \<Rightarrow> (RolesUser c u, e))"
| "query_step ord ops (RolesUser c u) e =
     (let (S, e) = publishDirectRoles (query_user c) (fset_of_list (Roles u)) e in (Replied c (roles_reply c S), e))"
| "query_step ord ops (Replied c r) e = (Replied c r, e)"

lemma solo_Replied [simp]: "solo (query_step ord ops) n (Replied c r, e) = (Replied c r, e)"
  by (induction n) simp_all

text \<open>Alone, four steps are enough, and they are the query.\<close>

lemma solo_query:
  assumes "is_query c" and "serve ord ops c e = Some (r, e')"
  shows "solo (query_step ord ops) 4 (Asked c, e) = (Replied c r, e')"
proof -
  have four: "(4::nat) = Suc (Suc (Suc (Suc 0)))"
    by simp
  show ?thesis
    using assms unfolding four
    by (cases c) (auto simp: query_defs getGrantedSet_def getGrantedSetFull_def computeAndCache_def directRolesOf_def
        Let_def split: option.splits sum.splits prod.splits if_splits)
qed

section \<open>Queries at the same time\<close>

text \<open>What holds of a query at each place: it carries what the store says.\<close>

definition exact_set :: "memory_store enforcer \<Rightarrow> user \<Rightarrow> granted_set \<Rightarrow> bool" where
  "exact_set e u S \<longleftrightarrow> gs_wf S \<and> gs_perms S = granted_perms (ms_roles (e_store e)) u"

fun right_so_far :: "query_thread \<Rightarrow> memory_store enforcer \<Rightarrow> bool" where
  "right_so_far (Asked c) e = is_query c"
| "right_so_far (CacheHit c S) e \<longleftrightarrow>
     asks_cache c \<and> (\<exists>u. fmlookup (ms_users (e_store e)) (query_user c) = Some u \<and> exact_set e u S)"
| "right_so_far (HitUser c S u) e \<longleftrightarrow>
     asks_cache c \<and> fmlookup (ms_users (e_store e)) (query_user c) = Some u \<and> exact_set e u S"
| "right_so_far (CacheMiss c) e = asks_cache c"
| "right_so_far (MissUser c u) e \<longleftrightarrow>
     asks_cache c \<and> fmlookup (ms_users (e_store e)) (query_user c) = Some u"
| "right_so_far (Computed c u S roles) e \<longleftrightarrow>
     asks_cache c \<and> fmlookup (ms_users (e_store e)) (query_user c) = Some u \<and> exact_set e u S \<and>
     roles = sorted_list_of_set (effective_roles (ms_roles (e_store e)) (Roles u))"
| "right_so_far (RolesMiss c) e \<longleftrightarrow> is_query c \<and> \<not> asks_cache c \<and> trivial_reply c = None"
| "right_so_far (RolesUser c u) e \<longleftrightarrow>
     is_query c \<and> \<not> asks_cache c \<and> trivial_reply c = None \<and>
     fmlookup (ms_users (e_store e)) (query_user c) = Some u"
| "right_so_far (Replied c r) e \<longleftrightarrow> map_reply set r = ref_query c (mem.view e)"

fun steps_left :: "query_thread \<Rightarrow> nat" where
  "steps_left (Asked c) = 4"
| "steps_left (CacheHit c S) = 2"
| "steps_left (HitUser c S u) = 1"
| "steps_left (CacheMiss c) = 3"
| "steps_left (MissUser c u) = 2"
| "steps_left (Computed c u S roles) = 1"
| "steps_left (RolesMiss c) = 2"
| "steps_left (RolesUser c u) = 1"
| "steps_left (Replied c r) = 0"

definition query_fine :: "query_thread \<Rightarrow> memory_store enforcer \<Rightarrow> bool" where
  "query_fine t e \<longleftrightarrow> mem.inv e \<and> mem.coherent e \<and> right_so_far t e"

definition only_fills :: "memory_store enforcer \<Rightarrow> memory_store enforcer \<Rightarrow> bool" where
  "only_fills e e' \<longleftrightarrow> fills (ms_users (e_store e)) (ms_roles (e_store e)) e e'"

lemma only_fills_trans: "only_fills e e' \<Longrightarrow> only_fills e' e'' \<Longrightarrow> only_fills e e''"
  unfolding only_fills_def by (metis fills_frame(1) fills_trans)

lemma only_fills_keeps:
  assumes "only_fills e e'" and "mem.inv e" and "mem.coherent e"
  shows "mem.inv e' \<and> mem.coherent e'"
  using assms fills_inv fills_cache_coherent unfolding only_fills_def by (metis fills_frame(1))

lemma right_so_far_store: "e_store e' = e_store e \<Longrightarrow> right_so_far t e' = right_so_far t e"
  by (cases t) (simp_all add: exact_set_def)

lemma granted_reply_exact:
  assumes "asks_cache c" and "fmlookup (ms_users (e_store e)) (query_user c) = Some u" and "exact_set e u S"
    and "go_range ord"
  shows "map_reply set (granted_reply ord c S u (sorted_list_of_set (effective_roles (ms_roles (e_store e)) (Roles u)))) =
    ref_query c (mem.view e)"
  using assms
  by (cases c) (auto simp: exact_set_def ask_user_def allowed_def gs_has_perms has_all_iff has_any_iff gs_flatten_set)

lemma roles_reply_exact:
  assumes "is_query c" and "\<not> asks_cache c" and "trivial_reply c = None"
    and "fmlookup (ms_users (e_store e)) (query_user c) = Some u"
  shows "map_reply set (roles_reply c (fset_of_list (Roles u))) = ref_query c (mem.view e)"
  using assms
  by (cases c) (auto simp: ask_user_def any_role_iff all_roles_iff split: if_splits)

lemma unknown_exact:
  assumes "is_query c" and "asks_cache c \<or> trivial_reply c = None" and "fmlookup (ms_users (e_store e)) (query_user c) = None"
  shows "ref_query c (mem.view e) = Refused ErrUserNotFound"
  using assms by (cases c) (auto simp: ask_user_def split: if_splits)

lemma asks_cache_query: "asks_cache c \<Longrightarrow> is_query c"
  by (cases c) simp_all

lemma query_step_right:
  assumes fine: "query_fine t e" and ord: "go_range ord" and step: "query_step ord memory_ops t e = (t', e')"
  shows "only_fills e e' \<and> right_so_far t' e \<and> steps_left t' \<le> steps_left t - 1"
proof -
  have inv: "memory_ok (e_store e)" "enforcer_inv (ms_users (e_store e)) (ms_roles (e_store e)) e"
    and coh: "cache_coherent (ms_users (e_store e)) (ms_roles (e_store e)) e" and right: "right_so_far t e"
    using fine by (simp_all add: query_fine_def)
  have refl: "only_fills e e"
    by (simp add: only_fills_def)
  have user: "st_GetUser memory_ops uid (e_store e) =
      (case fmlookup (ms_users (e_store e)) uid of None \<Rightarrow> Inl ErrUserNotFound | Some u \<Rightarrow> Inr u)" for uid
    using mem.get_user [OF inv(1)] .
  have key: "fmlookup (ms_users (e_store e)) uid = Some u \<Longrightarrow> ID u = uid" for uid u
    using mem.user_key_same [OF inv(1)] by blast
  show ?thesis
  proof (cases t)
    case (Asked c)
    then have c: "is_query c"
      using right by simp
    show ?thesis
    proof (cases "asks_cache c")
      case True
      show ?thesis
      proof (cases "fmlookup (e_cache e) (query_user c)")
        case None
        then show ?thesis
          using step Asked True refl by auto
      next
        case (Some S)
        then obtain u where "fmlookup (ms_users (e_store e)) (query_user c) = Some u"
          using inv(2)
          by (cases "fmlookup (ms_users (e_store e)) (query_user c)") (auto simp: enforcer_inv_def cached_known_def)
        then show ?thesis
          using step Asked True refl Some coh
          by (auto simp: cache_coherent_def coherent_at_def exact_set_def)
      qed
    next
      case False
      show ?thesis
      proof (cases "trivial_reply c")
        case (Some b)
        then have "map_reply set (Answer b) = ref_query c (mem.view e)"
          by (cases c) (auto split: if_splits)
        then show ?thesis
          using step Asked False Some refl by auto
      next
        case None
        have "map_reply set (roles_reply c S) = ref_query c (mem.view e)"
          if memo: "fmlookup (e_directRoles e) (query_user c) = Some S" for S
        proof -
          obtain u where "fmlookup (ms_users (e_store e)) (query_user c) = Some u" "S = fset_of_list (Roles u)"
            using inv(2) memo by (auto simp: enforcer_inv_def direct_exact_def direct_at_def)
          then show ?thesis
            using roles_reply_exact [OF c False None] by simp
        qed
        then show ?thesis
          using step Asked False None c refl by (auto split: option.splits)
      qed
    qed
  next
    case (CacheHit c S)
    then show ?thesis
      using step right user [of "query_user c"] refl by auto
  next
    case (HitUser c S u)
    then show ?thesis
      using step right refl granted_reply_exact [OF _ _ _ ord] by (auto simp: mem.resolveRoles_correct [OF inv(1)])
  next
    case (CacheMiss c)
    then show ?thesis
      using step right user [of "query_user c"] refl unknown_exact [OF asks_cache_query]
      by (auto split: option.splits)
  next
    case (MissUser c u)
    obtain S where "computeSet memory_ops (e_store e) u =
        Some (Inr (S, sorted_list_of_set (effective_roles (ms_roles (e_store e)) (Roles u))))" "exact_set e u S"
      using mem.computeSet_correct [OF inv(1), of u] by (auto simp: exact_set_def)
    then show ?thesis
      using step right MissUser refl by auto
  next
    case (Computed c u S roles)
    then have u: "asks_cache c" "fmlookup (ms_users (e_store e)) (query_user c) = Some u" "exact_set e u S"
        "roles = sorted_list_of_set (effective_roles (ms_roles (e_store e)) (Roles u))"
      using right by simp_all
    have "exact_set e u (fst (publishGranted u S e))"
      using u coh key [OF u(2)]
      by (auto simp: fst_publishGranted cache_coherent_def coherent_at_def exact_set_def split: option.split)
    moreover have "only_fills e (snd (publishGranted u S e))"
      using u key [OF u(2)] unfolding only_fills_def exact_set_def by (intro fills_publish) auto
    ultimately show ?thesis
      using step Computed u granted_reply_exact [OF u(1,2) _ ord] by (auto split: prod.splits)
  next
    case (RolesMiss c)
    then show ?thesis
      using step right user [of "query_user c"] refl unknown_exact by (auto split: option.splits)
  next
    case (RolesUser c u)
    then have u: "is_query c" "\<not> asks_cache c" "trivial_reply c = None"
        "fmlookup (ms_users (e_store e)) (query_user c) = Some u"
      using right by simp_all
    have "fst (publishDirectRoles (query_user c) (fset_of_list (Roles u)) e) = fset_of_list (Roles u)"
      using inv(2) u(4)
      by (cases "fmlookup (e_directRoles e) (query_user c)")
        (fastforce simp: publishDirectRoles_def enforcer_inv_def direct_exact_def direct_at_def)+
    moreover have "only_fills e (snd (publishDirectRoles (query_user c) (fset_of_list (Roles u)) e))"
      using u(4) by (auto simp: only_fills_def fills_def publishDirectRoles_def split: option.split)
    ultimately show ?thesis
      using step RolesUser roles_reply_exact [OF u] by (auto split: prod.splits)
  next
    case (Replied c r)
    then show ?thesis
      using step right refl by auto
  qed
qed

lemma queries_stable:
  assumes "go_range ord"
  shows "stable_threads (query_step ord memory_ops) only_fills query_fine steps_left"
proof (unfold_locales, goal_cases)
  case (1 e)
  then show ?case
    by (simp add: only_fills_def)
next
  case (2 e e' e'')
  then show ?case
    by (rule only_fills_trans)
next
  case (3 t e t' e')
  then show ?case
    using query_step_right [OF _ assms] by blast
next
  case (4 t e t' e')
  then have step: "only_fills e e'" "right_so_far t' e"
    using query_step_right [OF _ assms] by blast+
  then have "e_store e' = e_store e"
    unfolding only_fills_def using fills_frame(1) by blast
  then show ?case
    using step 4(1) only_fills_keeps [OF step(1)] right_so_far_store unfolding query_fine_def by blast
next
  case (5 t e t' e')
  then show ?case
    using query_step_right [OF _ assms] by blast
next
  case (6 t e e')
  then have "e_store e' = e_store e"
    unfolding only_fills_def using fills_frame(1) by blast
  then show ?case
    using 6 only_fills_keeps [OF 6(2)] right_so_far_store unfolding query_fine_def by blast
qed

interpretation queries: stable_threads "query_step sorted_list_of_fset memory_ops" only_fills query_fine steps_left
  by (rule queries_stable [OF go_range_sorted])

text \<open>Which query a thread works on.\<close>

fun thread_query :: "query_thread \<Rightarrow> command" where
  "thread_query (Asked c) = c"
| "thread_query (CacheHit c S) = c"
| "thread_query (HitUser c S u) = c"
| "thread_query (CacheMiss c) = c"
| "thread_query (MissUser c u) = c"
| "thread_query (Computed c u S roles) = c"
| "thread_query (RolesMiss c) = c"
| "thread_query (RolesUser c u) = c"
| "thread_query (Replied c r) = c"

lemma step_query: "thread_query (fst (query_step ord ops t e)) = thread_query t"
  by (cases t) (auto split: option.split sum.split prod.split)

lemma run_queries: "map thread_query (fst (run_threads (query_step ord ops) is (ts, e))) = map thread_query ts"
proof (induction "is" arbitrary: ts e)
  case (Cons i "is")
  show ?case
  proof (cases "i < length ts")
    case True
    obtain t e1 where t: "query_step ord ops (ts ! i) e = (t, e1)"
      by (cases "query_step ord ops (ts ! i) e")
    then have "thread_query t = map thread_query ts ! i"
      using True step_query [of ord ops "ts ! i" e] by simp
    then have "map thread_query (ts[i := t]) = map thread_query ts"
      by (simp only: map_update list_update_id)
    then show ?thesis
      using True t Cons.IH [of "ts[i := t]" e1] by simp
  next
    case False
    then show ?thesis
      using Cons.IH [of ts e] by simp
  qed
qed simp

text \<open>C3: Queries can run at the same time. In a state that is reached by operations that leave no stale
cached set, any number of queries of any kind, on the same user or on different ones, cut at their looks
into the caches and the store, have all returned once each has made four steps, under every schedule,
with the answers the stored users and roles give; the store is untouched and the caches still agree
with it.\<close>

theorem concurrent_queries_exact:
  assumes "safe_reachable ms_users ms_roles memory_ops (fresh_enforcer depths) e" and "go_range ord"
    and "list_all is_query cs" and "\<forall>i < length cs. 4 \<le> count_list sched i"
  shows "\<exists>rs e'. run_threads (query_step ord memory_ops) sched (map Asked cs, e) = (map2 Replied cs rs, e') \<and>
    length rs = length cs \<and>
    map (map_reply set) rs =
      map (\<lambda>c. ref_query c \<lparr>at_users = ms_users (e_store e), at_roles = ms_roles (e_store e)\<rparr>) cs \<and>
    e_store e' = e_store e \<and> cache_coherent (ms_users (e_store e')) (ms_roles (e_store e')) e'"
proof -
  obtain ts e' where run: "run_threads (query_step ord memory_ops) sched (map Asked cs, e) = (ts, e')"
    by (cases "run_threads (query_step ord memory_ops) sched (map Asked cs, e)")
  have "list_all (\<lambda>t. query_fine t e) (map Asked cs)"
    using fresh_safe_coherent [OF assms(1)] assms(3) by (auto simp: list_all_iff query_fine_def)
  from stable_threads.parallel [OF queries_stable [OF assms(2)] this run]
  have fills: "only_fills e e'" and len: "length ts = length cs" and fine: "list_all (\<lambda>t. query_fine t e') ts"
    and rank: "\<And>i. i < length cs \<Longrightarrow> steps_left (ts ! i) \<le> 4 - count_list sched i"
    by auto
  have store: "e_store e' = e_store e"
    using fills unfolding only_fills_def by (rule fills_frame(1))
  have query: "thread_query (ts ! i) = cs ! i" if "i < length cs" for i
    using run_queries [of ord memory_ops sched "map Asked cs" e] that len
    by (metis (no_types, lifting) fst_conv length_map nth_map run thread_query.simps(1))
  define rs where "rs = map (\<lambda>t. case t of Replied c r \<Rightarrow> r) ts"
  have replied: "ts ! i = Replied (cs ! i) (rs ! i)" if "i < length cs" for i
  proof -
    have "steps_left (ts ! i) = 0"
      using rank [OF that] assms(4) that by simp
    then obtain c r where "ts ! i = Replied c r"
      by (cases "ts ! i") auto
    then show ?thesis
      using query [OF that] that len by (simp add: rs_def)
  qed
  have "ts = map2 Replied cs rs" and lrs: "length rs = length cs"
    using replied len by (auto simp: rs_def intro!: nth_equalityI)
  moreover have "map (map_reply set) rs = map (\<lambda>c. ref_query c (mem.view e')) cs"
  proof (rule nth_equalityI)
    fix i
    assume "i < length (map (map_reply set) rs)"
    then have i: "i < length cs"
      using lrs by simp
    then have "right_so_far (Replied (cs ! i) (rs ! i)) e'"
      using fine len replied [OF i] by (metis list_all_length query_fine_def)
    then show "map (map_reply set) rs ! i = map (\<lambda>c. ref_query c (mem.view e')) cs ! i"
      using i lrs by simp
  qed (simp add: lrs)
  moreover have "mem.coherent e'"
    using only_fills_keeps [OF fills] fresh_safe_coherent [OF assms(1)] by blast
  ultimately show ?thesis
    using run store by auto
qed

lemma concurrent_queries_exact_witness:
  "let cs = [CmdCheck ''bob'' (perm ''article'' ''edit''), CmdPermissionsFor ''ann'', CmdHasRole ''ann'' ''reader''] in
   \<exists>rs e'. run_threads (query_step sorted_list_of_fset memory_ops) (concat (replicate 4 [2, 0, 1]))
       (map Asked cs, after staff) = (map2 Replied cs rs, e') \<and> e_store e' = e_store (after staff)"
proof -
  let ?cs = "[CmdCheck ''bob'' (perm ''article'' ''edit''), CmdPermissionsFor ''ann'', CmdHasRole ''ann'' ''reader'']"
  have "list_all is_query ?cs"
    by simp
  moreover have "\<forall>i < length ?cs. 4 \<le> count_list (concat (replicate 4 [2, 0, 1])) i"
    by (simp add: numeral_eq_Suc less_Suc_eq)
  ultimately show ?thesis
    using concurrent_queries_exact [OF safely_reachable [OF safely_staff] go_range_sorted] unfolding Let_def by blast
qed

section \<open>Queries in the middle of a deletion\<close>

text \<open>\<open>DeleteUser\<close> evicts the user from the caches, and then calls the store.\<close>

datatype delete_thread =
    DeleteAsked user_id
  | DeleteEvicted user_id
  | DeleteReturned "lib_error option"

fun delete_step :: "'s store_ops \<Rightarrow> delete_thread \<Rightarrow> 's enforcer \<Rightarrow> delete_thread \<times> 's enforcer" where
  "delete_step ops (DeleteAsked uid) e =
     (DeleteEvicted uid,
      e\<lparr>e_cache := fmdrop uid (e_cache e), e_directRoles := fmdrop uid (e_directRoles e),
        e_roleHolders := fmmap (\<lambda>holders. holders |-| {|uid|}) (e_roleHolders e)\<rparr>)"
| "delete_step ops (DeleteEvicted uid) e =
     (let (err, s) = st_DeleteUser ops uid (e_store e) in (DeleteReturned err, e\<lparr>e_store := s\<rparr>))"
| "delete_step ops (DeleteReturned res) e = (DeleteReturned res, e)"

lemma delete_solo_two: "solo (delete_step ops) 2 (DeleteAsked uid, e) =
    (DeleteReturned (fst (DeleteUser ops uid e)), snd (DeleteUser ops uid e))"
proof -
  have two: "(2::nat) = Suc (Suc 0)"
    by simp
  show ?thesis
    unfolding two by (simp add: DeleteUser_def split_beta Let_def)
qed

text \<open>A check of a user with no cached set puts the set there.\<close>

lemma Check_miss:
  assumes "memory_ok (e_store e)" and "fmlookup (e_cache e) uid = None"
    and "fmlookup (ms_users (e_store e)) uid = Some u" and "allowed (ms_roles (e_store e)) u q"
  shows "\<exists>S e'. Check memory_ops uid q e = Some (None, e') \<and> gs_has (Some S) q \<and> e_store e' = e_store e \<and>
    fmlookup (e_cache e') uid = Some S"
proof -
  obtain S where S: "computeSet memory_ops (e_store e) u =
      Some (Inr (S, sorted_list_of_set (effective_roles (ms_roles (e_store e)) (Roles u))))"
    "gs_wf S" "gs_perms S = granted_perms (ms_roles (e_store e)) u"
    using mem.computeSet_correct [OF assms(1), of u] by blast
  have "ID u = uid"
    using mem.user_key_same [OF assms(1,3)] .
  moreover have "gs_has (Some S) q"
    using S assms(4) by (simp add: gs_has_perms allowed_def)
  moreover have "st_GetUser memory_ops uid (e_store e) = Inr u"
    using mem.get_user [OF assms(1), of uid] assms(3) by simp
  ultimately show ?thesis
    using S(1) assms(2)
    by (auto simp: Check_def getGrantedSetFull_def computeAndCache_def publishGranted_def Let_def split: option.split)
qed

text \<open>
  With whole calls there is no such thing: whatever is asked before, between and after the
  deletion and the creation, a check of the new user is denied.
\<close>

abbreviation newcomer :: "user_id \<Rightarrow> user" where
  "newcomer uid \<equiv> \<lparr>ID = uid, Roles = [], Direct = []\<rparr>"

lemma newcomer_denied: "effective_roles rs [] = {}" "\<not> allowed rs (newcomer uid) q"
  by (simp_all add: effective_roles_def up_closure_def allowed_def granted_perms_def)

lemma newcomer_by_reference:
  assumes "fmlookup (at_users t) uid = Some u" and "uid \<noteq> ''''"
    and "list_all is_query xs" "list_all is_query ys" "list_all is_query zs"
    and cs: "cs = xs @ CmdDeleteUser uid # ys @ CmdCreateUser uid [] # zs @ [CmdCheck uid q]"
  shows "ref_safe d cs t \<and> last (fst (ref_all d cs t)) = Refused (PermissionDeniedError uid (Some (newcomer uid)) q [])"
proof -
  have "uid |\<in>| fmdom (at_users t)"
    using assms(1) by (rule fmdomI)
  then have "ref_serve d (CmdDeleteUser uid) t = (Done, t\<lparr>at_users := fmdrop uid (at_users t)\<rparr>)"
    by (simp add: ref_serve_def unless_def)
  moreover have "ref_serve d (CmdCreateUser uid []) (t\<lparr>at_users := fmdrop uid (at_users t)\<rparr>) =
      (Done, t\<lparr>at_users := fmupd uid (newcomer uid) (fmdrop uid (at_users t))\<rparr>)"
    using assms(2) by (simp add: ref_serve_def unless_def)
  moreover have "ref_serve d (CmdCheck uid q) (t\<lparr>at_users := fmupd uid (newcomer uid) us\<rparr>) =
      (Refused (PermissionDeniedError uid (Some (newcomer uid)) q []), t\<lparr>at_users := fmupd uid (newcomer uid) us\<rparr>)" for us
    by (simp add: ref_serve_def ask_user_def newcomer_denied)
  ultimately show ?thesis
    using assms(3-5) by (simp add: cs ref_all_append ref_safe_append ref_queries split_beta)
qed

lemma newcomer_by_whole_calls:
  assumes "safe_reachable ms_users ms_roles memory_ops (fresh_enforcer depths) e"
    and "fmlookup (ms_users (e_store e)) uid = Some u" and "list_all (go_range \<circ> fst) cs"
    and "list_all is_query xs" "list_all is_query ys" "list_all is_query zs"
    and "map snd cs = xs @ CmdDeleteUser uid # ys @ CmdCreateUser uid [] # zs @ [CmdCheck uid q]"
  shows "\<exists>rs e'. serve_all memory_ops cs e = Some (rs, e') \<and>
    last rs = Refused (PermissionDeniedError uid (Some (newcomer uid)) q [])"
proof -
  note inv = conjunct1 [OF fresh_safe_coherent [OF assms(1)]] and coh = conjunct2 [OF fresh_safe_coherent [OF assms(1)]]
  have "uid \<noteq> ''''"
    using inv memory_okD(1) assms(2) by blast
  then have ref: "ref_safe (e_maxDepth e) (map snd cs) (mem.view e)"
      "last (fst (ref_all (e_maxDepth e) (map snd cs) (mem.view e))) =
        Refused (PermissionDeniedError uid (Some (newcomer uid)) q [])"
    using newcomer_by_reference [of "mem.view e" uid u xs ys zs "map snd cs" q "e_maxDepth e"] assms(2,4-7) by simp_all
  obtain rs e' where run: "serve_all memory_ops cs e = Some (rs, e')"
      "(map (map_reply set) rs, mem.view e') = ref_all (e_maxDepth e) (map snd cs) (mem.view e)"
    using mem.serve_all_refines [OF inv coh reachable_depth [OF safe_reachable_reachable [OF assms(1)]] assms(3) ref(1)]
    by blast
  have "fst (ref_all (e_maxDepth e) (map snd cs) (mem.view e)) = map (map_reply set) rs"
    using run(2) by (metis fst_conv)
  moreover have "rs \<noteq> []"
    using run(1) assms(7) by (cases cs) (auto split: option.splits prod.splits)
  ultimately have "map_reply set (last rs) = Refused (PermissionDeniedError uid (Some (newcomer uid)) q [])"
    using ref(2) by (simp add: last_map)
  then have "last rs = Refused (PermissionDeniedError uid (Some (newcomer uid)) q [])"
    by (cases "last rs") simp_all
  then show ?thesis
    using run(1) by blast
qed

text \<open>C18: A check that runs between the two halves of \<open>DeleteUser\<close> keeps the deleted user's access alive.
The deletion succeeds, the same name is created again without any role, and the new user passes every
check that went through in between, though no stored grant allows it. As whole calls the deletion and
the creation never end like this: whatever queries, checks of that user among them, are made before,
between and after them, the new user is denied.\<close>

theorem recreated_user_inherits_access:
  assumes e: "safe_reachable ms_users ms_roles memory_ops (fresh_enforcer depths) e"
    and u: "fmlookup (ms_users (e_store e)) uid = Some u" "allowed (ms_roles (e_store e)) u q"
  shows "let new = \<lparr>ID = uid, Roles = [], Direct = []\<rparr> in
    (\<exists>e1 e2 e3 e4.
       delete_step memory_ops (DeleteAsked uid) e = (DeleteEvicted uid, e1) \<and>
       Check memory_ops uid q e1 = Some (None, e2) \<and>
       delete_step memory_ops (DeleteEvicted uid) e2 = (DeleteReturned None, e3) \<and>
       CreateUser memory_ops uid [] e3 = (None, e4) \<and>
       fmlookup (ms_users (e_store e4)) uid = Some new \<and>
       map_option fst (Check memory_ops uid q e4) = Some None) \<and>
    (\<forall>cs xs ys zs. list_all (go_range \<circ> fst) cs \<longrightarrow> list_all is_query (xs @ ys @ zs) \<longrightarrow>
       map snd cs = xs @ CmdDeleteUser uid # ys @ CmdCreateUser uid [] # zs @ [CmdCheck uid q] \<longrightarrow>
       (\<exists>rs e'. serve_all memory_ops cs e = Some (rs, e') \<and>
          last rs = Refused (PermissionDeniedError uid (Some new) q [])))"
proof -
  let ?new = "\<lparr>ID = uid, Roles = [], Direct = []\<rparr>"
  have ok: "memory_ok (e_store e)"
    using fresh_safe_coherent [OF e] by blast
  then have uid: "uid \<noteq> ''''"
    using memory_okD(1) u(1) by blast
  define e1 where "e1 = snd (delete_step memory_ops (DeleteAsked uid) e)"
  have "e_store e1 = e_store e" "fmlookup (e_cache e1) uid = None"
    by (simp_all add: e1_def)
  then obtain S e2 where e2: "Check memory_ops uid q e1 = Some (None, e2)" "gs_has (Some S) q"
      "e_store e2 = e_store e" "fmlookup (e_cache e2) uid = Some S"
    using Check_miss [of e1 uid u q] ok u by auto
  define e3 where "e3 = e2\<lparr>e_store := snd (st_DeleteUser memory_ops uid (e_store e2))\<rparr>"
  have e3: "delete_step memory_ops (DeleteEvicted uid) e2 = (DeleteReturned None, e3)"
      "memory_ok (e_store e3)" "uid |\<notin>| fmdom (ms_users (e_store e3))" "fmlookup (e_cache e3) uid = Some S"
    using ok u(1) mem.delete_user [of "e_store e2" uid] mem.delete_user_ok [of "e_store e2" uid]
      mem.delete_user_uof [of "e_store e2" uid] e2
    by (auto simp: e3_def split_beta fmdom_lookup)
  define e4 where "e4 = snd (CreateUser memory_ops uid [] e3)"
  have e4: "CreateUser memory_ops uid [] e3 = (None, e4)" "memory_ok (e_store e4)"
      "fmlookup (ms_users (e_store e4)) uid = Some ?new" "fmlookup (e_cache e4) uid = Some S"
    using e3 uid mem.create_user_ok [OF e3(2), of ?new] mem.create_user_uof [OF e3(2), of ?new]
    by (auto simp: e4_def mem.CreateUser_effect [OF e3(2)] split_beta Let_def prod_eq_iff)
  have "map_option fst (Check memory_ops uid q e4) = Some None"
    by (rule mem.Check_cached [OF e4(2,4,3) e2(2)])
  moreover have "\<forall>cs xs ys zs. list_all (go_range \<circ> fst) cs \<longrightarrow> list_all is_query (xs @ ys @ zs) \<longrightarrow>
      map snd cs = xs @ CmdDeleteUser uid # ys @ CmdCreateUser uid [] # zs @ [CmdCheck uid q] \<longrightarrow>
      (\<exists>rs e'. serve_all memory_ops cs e = Some (rs, e') \<and>
         last rs = Refused (PermissionDeniedError uid (Some ?new) q []))"
    using newcomer_by_whole_calls [OF e u(1)] by auto
  ultimately show ?thesis
    using e2(1) e3(1) e4(1,3) unfolding Let_def e1_def by (intro conjI exI) simp_all
qed

lemma recreated_user_inherits_access_witness:
  "\<exists>e1 e2 e3 e4. delete_step memory_ops (DeleteAsked ''bob'') (after staff) = (DeleteEvicted ''bob'', e1) \<and>
     Check memory_ops ''bob'' (perm ''article'' ''edit'') e1 = Some (None, e2) \<and>
     delete_step memory_ops (DeleteEvicted ''bob'') e2 = (DeleteReturned None, e3) \<and>
     CreateUser memory_ops ''bob'' [] e3 = (None, e4) \<and>
     map_option fst (Check memory_ops ''bob'' (perm ''article'' ''edit'') e4) = Some None \<and>
     (\<exists>rs e'. serve_all memory_ops (map (Pair sorted_list_of_fset)
        [CmdCheck ''bob'' (perm ''article'' ''edit''), CmdDeleteUser ''bob'', CmdCheck ''bob'' (perm ''article'' ''edit''),
         CmdCreateUser ''bob'' [], CmdCheck ''bob'' (perm ''article'' ''edit'')]) (after staff) = Some (rs, e') \<and>
        last rs = Refused (PermissionDeniedError ''bob'' (Some (newcomer ''bob'')) (perm ''article'' ''edit'') []))"
proof -
  have bob: "fmlookup (ms_users (e_store (after staff))) ''bob'' = Some \<lparr>ID = ''bob'', Roles = [''editor''], Direct = []\<rparr>"
    by code_simp
  have "map_option fst (HasPermission memory_ops ''bob'' (perm ''article'' ''edit'') (after staff)) = Some (Inr True)"
    by code_simp
  then have "allowed (ms_roles (e_store (after staff))) \<lparr>ID = ''bob'', Roles = [''editor''], Direct = []\<rparr> (perm ''article'' ''edit'')"
    using mem.HasPermission_correct [of "after staff" "''bob''" "perm ''article'' ''edit''"] bob
      fresh_safe_coherent [OF safely_reachable [OF safely_staff]] by (auto simp: cache_coherent_def)
  note races = recreated_user_inherits_access [OF safely_reachable [OF safely_staff] bob this, unfolded Let_def]
  let ?check = "CmdCheck ''bob'' (perm ''article'' ''edit'')"
  let ?cs = "[?check, CmdDeleteUser ''bob'', ?check, CmdCreateUser ''bob'' [], ?check]"
  have "list_all (go_range \<circ> fst) (map (Pair sorted_list_of_fset) ?cs)" "list_all is_query ([?check] @ [?check] @ [])"
      "map snd (map (Pair sorted_list_of_fset) ?cs) = [?check] @ CmdDeleteUser ''bob'' # [?check] @ CmdCreateUser ''bob'' [] # [] @ [?check]"
    by simp_all
  from conjunct2 [OF races, rule_format, OF this] conjunct1 [OF races] show ?thesis
    by blast
qed

text \<open>In the same way a role query in between makes \<open>HasRole\<close> answer for a user who no longer exists.\<close>

theorem deleted_user_keeps_roles:
  assumes "reachable memory_ops (fresh_enforcer depths) e"
    and "fmlookup (ms_users (e_store e)) uid = Some u" and "r \<in> set (Roles u)"
  shows "\<exists>e1 e2 e3.
     delete_step memory_ops (DeleteAsked uid) e = (DeleteEvicted uid, e1) \<and>
     HasRole memory_ops uid r e1 = (Inr True, e2) \<and>
     delete_step memory_ops (DeleteEvicted uid) e2 = (DeleteReturned None, e3) \<and>
     fmlookup (ms_users (e_store e3)) uid = None \<and> fst (HasRole memory_ops uid r e3) = Inr True \<and>
     fst (HasRole memory_ops uid r (snd (DeleteUser memory_ops uid e))) = Inl ErrUserNotFound"
proof -
  have ok: "memory_ok (e_store e)"
    using fresh_reachable_inv [OF assms(1)] by blast
  have user: "st_GetUser memory_ops uid (e_store e) = Inr u"
    using mem.get_user [OF ok, of uid] assms(2) by simp
  have deleted: "fst (st_DeleteUser memory_ops uid (e_store e)) = None" "memory_ok (snd (st_DeleteUser memory_ops uid (e_store e)))"
      "fmlookup (ms_users (snd (st_DeleteUser memory_ops uid (e_store e)))) uid = None"
    using ok assms(2) by (auto simp: mem.delete_user mem.delete_user_ok mem.delete_user_uof fmdom_lookup)
  have "fst (HasRole memory_ops uid r (snd (DeleteUser memory_ops uid e))) = Inl ErrUserNotFound"
    using deleted mem.get_user [OF deleted(2), of uid]
    by (simp add: HasRole_def directRolesOf_def DeleteUser_def split_beta Let_def)
  then show ?thesis
    using user deleted assms(3)
    by (auto simp: HasRole_def directRolesOf_def publishDirectRoles_def split_beta Let_def)
qed

section \<open>Changes at the same time and the reference monitor\<close>

fun call_command :: "user_call \<Rightarrow> command" where
  "call_command (AssignCall uid r) = CmdAssignRole uid r"
| "call_command (RevokeCall uid r) = CmdRevokeRole uid r"
| "call_command (GrantCall uid p) = CmdGrantDirect uid p"
| "call_command (UngrantCall uid p) = CmdRevokeDirect uid p"

lemma call_command_simps [simp]:
  "serve ord ops (call_command c) e = Some (apfst error_reply (call_alone ops c e))"
  "is_query (call_command c) = False" "cache_safe us rs (call_command c)" "asks_cache (call_command c) = False"
  by (cases c; simp)+

lemma error_reply_inject: "map_reply f (error_reply err) = error_reply err' \<longleftrightarrow> err = err'"
  by (cases err; cases err') auto

text \<open>A call on a user does to the tables what the reference monitor does, and leaves no stale cached set.\<close>

lemma call_alone_refines:
  assumes "mem.inv e" and "mem.coherent e" and "0 \<le> e_maxDepth e" and "call_alone memory_ops c e = (err, e')"
  shows "mem.inv e' \<and> mem.coherent e' \<and> e_maxDepth e' = e_maxDepth e \<and>
    ref_admin (e_maxDepth e) (call_command c) (mem.view e) = (err, mem.view e')"
proof -
  have run: "serve sorted_list_of_fset memory_ops (call_command c) e = Some (error_reply err, e')"
    using assms(4) by simp
  then have "mem.coherent e'"
    using mem.exec_coherent [OF assms(1,2) go_range_sorted, of "call_command c" e'] by (simp add: serve_exec)
  moreover obtain "mem.inv e'" "e_maxDepth e' = e_maxDepth e"
      "(map_reply set (error_reply err), mem.view e') = ref_serve (e_maxDepth e) (call_command c) (mem.view e)"
    using mem.serve_step [OF assms(1) go_range_sorted assms(3), of "call_command c"] run by auto
  ultimately show ?thesis
    by (cases "ref_admin (e_maxDepth e) (call_command c) (mem.view e)") (auto simp: ref_serve_def error_reply_inject)
qed

text \<open>C22: Changes of two users at the same time refine the reference monitor. After safe operations two
goroutines that assign, revoke, grant or ungrant on different users, cut at their store accesses and
critical sections, have under every schedule that gives each six steps returned the errors the reference
monitor returns, and left its tables; and every query after them is answered from these tables, so that
neither the cached sets nor the memoised roles of either user are stale.\<close>

theorem concurrent_calls_refine_reference:
  assumes "safe_reachable ms_users ms_roles memory_ops (fresh_enforcer depths) e" and "call_user c1 \<noteq> call_user c2"
    and "6 \<le> count_list bs True" and "6 \<le> count_list bs False"
  shows "let (err1, t1) = ref_admin (e_maxDepth e) (call_command c1)
             \<lparr>at_users = ms_users (e_store e), at_roles = ms_roles (e_store e)\<rparr>;
             (err2, t2) = ref_admin (e_maxDepth e) (call_command c2) t1 in
    \<exists>e'. interleave (user_step memory_ops) bs (Begin c1, Begin c2, e) = (Returned err1, Returned err2, e') \<and>
      \<lparr>at_users = ms_users (e_store e'), at_roles = ms_roles (e_store e')\<rparr> = t2 \<and>
      (\<forall>ord c. go_range ord \<longrightarrow> is_query c \<longrightarrow>
         map_option (map_reply set \<circ> fst) (serve ord memory_ops c e') = Some (ref_query c t2))"
proof -
  note start = fresh_safe_coherent [OF assms(1)] reachable_depth [OF safe_reachable_reachable [OF assms(1)]]
  obtain err1 e1 err2 e2 where runs: "call_alone memory_ops c1 e = (err1, e1)" "call_alone memory_ops c2 e1 = (err2, e2)"
    by (metis surj_pair)
  have first: "mem.inv e1" "mem.coherent e1" "e_maxDepth e1 = e_maxDepth e"
      "ref_admin (e_maxDepth e) (call_command c1) (mem.view e) = (err1, mem.view e1)"
    using call_alone_refines [of e c1 err1 e1] start runs(1) by simp_all
  then have second: "mem.inv e2" "mem.coherent e2"
      "ref_admin (e_maxDepth e) (call_command c2) (mem.view e1) = (err2, mem.view e2)"
    using call_alone_refines [of e1 c2 err2 e2] start(2) runs(2) by simp_all
  have "interleave (user_step memory_ops) bs (Begin c1, Begin c2, e) = (Returned err1, Returned err2, e2)"
    using serial_calls [of e c1 c2 bs] start(1) assms(2-4) runs by simp
  moreover have "map_option (map_reply set \<circ> fst) (serve ord memory_ops c e2) = Some (ref_query c (mem.view e2))"
    if "go_range ord" "is_query c" for ord c
    using mem.query_reply [OF second(1) that] second(2) by blast
  ultimately show ?thesis
    using first(4) second(3) by simp
qed

lemma concurrent_calls_refine_reference_witness:
  "\<exists>e'. interleave (user_step memory_ops) (concat (replicate 6 [True, False]))
      (Begin (AssignCall ''ann'' ''editor''), Begin (RevokeCall ''bob'' ''editor''), after staff) =
      (Returned None, Returned None, e') \<and>
    map_option (map_reply set \<circ> fst) (serve sorted_list_of_fset memory_ops (CmdHasRole ''ann'' ''editor'') e') =
      Some (Answer True) \<and>
    map_option (map_reply set \<circ> fst) (serve sorted_list_of_fset memory_ops
      (CmdCheck ''bob'' (perm ''article'' ''edit'')) e') = Some (Refused
        (PermissionDeniedError ''bob'' (Some \<lparr>ID = ''bob'', Roles = [], Direct = []\<rparr>) (perm ''article'' ''edit'') []))"
proof -
  let ?t = "\<lparr>at_users = ms_users (e_store (after staff)), at_roles = ms_roles (e_store (after staff))\<rparr>"
  let ?one = "ref_admin (e_maxDepth (after staff)) (CmdAssignRole ''ann'' ''editor'') ?t"
  let ?two = "ref_admin (e_maxDepth (after staff)) (CmdRevokeRole ''bob'' ''editor'') (snd ?one)"
  have counts: "6 \<le> count_list (concat (replicate 6 [True, False])) True"
      "6 \<le> count_list (concat (replicate 6 [True, False])) False"
    by code_simp+
  have stored: "fmlookup (ms_users (e_store (after staff))) ''ann'' = Some \<lparr>ID = ''ann'', Roles = [''reader''], Direct = []\<rparr>"
      "fmlookup (ms_users (e_store (after staff))) ''bob'' = Some \<lparr>ID = ''bob'', Roles = [''editor''], Direct = []\<rparr>"
      "''editor'' |\<in>| fmdom (ms_roles (e_store (after staff)))"
    by code_simp+
  then have "''bob'' |\<in>| fmdom (ms_users (e_store (after staff)))"
    by (auto intro: fmdomI)
  then have admin: "fst ?one = None" "fst ?two = None"
      "(case fmlookup (at_users (snd ?two)) ''ann'' of None \<Rightarrow> False | Some u \<Rightarrow> ''editor'' \<in> set (Roles u))"
      "fmlookup (at_users (snd ?two)) ''bob'' = Some (newcomer ''bob'')"
    using stored by (simp_all add: unless_def change_user_def add_once_def)
  have ann: "ref_query (CmdHasRole ''ann'' ''editor'') (snd ?two) = Answer True"
    using admin(3) by (simp add: ask_user_def del: ref_admin.simps split: option.splits)
  have bob: "ref_query (CmdCheck ''bob'' q) (snd ?two) =
      Refused (PermissionDeniedError ''bob'' (Some (newcomer ''bob'')) q [])" for q
    using admin(4) by (simp add: ask_user_def newcomer_denied del: ref_admin.simps)
  from concurrent_calls_refine_reference [OF safely_reachable [OF safely_staff] _ counts,
      of "AssignCall ''ann'' ''editor''" "RevokeCall ''bob'' ''editor''"]
  obtain e' where "interleave (user_step memory_ops) (concat (replicate 6 [True, False]))
      (Begin (AssignCall ''ann'' ''editor''), Begin (RevokeCall ''bob'' ''editor''), after staff) =
      (Returned (fst ?one), Returned (fst ?two), e')"
    and queries: "\<And>ord c. go_range ord \<Longrightarrow> is_query c \<Longrightarrow>
      map_option (map_reply set \<circ> fst) (serve ord memory_ops c e') = Some (ref_query c (snd ?two))"
    by (auto simp: split_beta Let_def simp del: ref_admin.simps)
  then show ?thesis
    using queries [OF go_range_sorted, of "CmdHasRole ''ann'' ''editor''"]
      queries [OF go_range_sorted, of "CmdCheck ''bob'' (perm ''article'' ''edit'')"] admin(1,2) ann bob
    by (metis is_query.simps(1,4))
qed

end
