(* ===== verification/Json_Lexer.thy ===== *)
theory Json_Lexer
  imports Go_Prelude
begin

text \<open>
  The characters of JSON as \<open>encoding/json\<close> of Go's standard library reads and writes
  them for the package \<open>jwt\<close>: UTF-8 sequences, quoting and unquoting of strings, number
  literals, and the tokens of a text. A text is a list of bytes.
\<close>

section \<open>UTF-8\<close>

text \<open>The number of bytes of the UTF-8 sequence at the start of a text, 0 if there is none
(\<open>utf8.DecodeRune\<close> then answers \<open>RuneError\<close> and a width of one).\<close>

definition continuation :: "char \<Rightarrow> bool" where
  "continuation c \<longleftrightarrow> CHR 0x80 \<le> c \<and> c \<le> CHR 0xBF"

text \<open>For a first byte: the length of the sequences it starts, and the range of the second
byte.\<close>

definition rune_lead :: "char \<Rightarrow> nat \<times> char \<times> char" where
  "rune_lead a =
     (if a < CHR 0x80 then (1, CHR 0x80, CHR 0xBF)
      else if a < CHR 0xC2 then (0, CHR 0x80, CHR 0xBF)
      else if a < CHR 0xE0 then (2, CHR 0x80, CHR 0xBF)
      else if a = CHR 0xE0 then (3, CHR 0xA0, CHR 0xBF)
      else if a = CHR 0xED then (3, CHR 0x80, CHR 0x9F)
      else if a < CHR 0xF0 then (3, CHR 0x80, CHR 0xBF)
      else if a = CHR 0xF0 then (4, CHR 0x90, CHR 0xBF)
      else if a < CHR 0xF4 then (4, CHR 0x80, CHR 0xBF)
      else if a = CHR 0xF4 then (4, CHR 0x80, CHR 0x8F)
      else (0, CHR 0x80, CHR 0xBF))"

definition rune_width :: "string \<Rightarrow> nat" where
  "rune_width s =
     (case s of
        [] \<Rightarrow> 0
      | a # t \<Rightarrow>
          (case rune_lead a of
             (n, lo, hi) \<Rightarrow>
               if n < 2 then n
               else if n \<le> length s \<and> lo \<le> t ! 0 \<and> t ! 0 \<le> hi \<and>
                 list_all continuation (take (n - 2) (tl t)) then n
               else 0))"

lemma rune_width_Nil [simp]: "rune_width [] = 0"
  by (simp add: rune_width_def)

lemma rune_lead_ascii: "fst (rune_lead c) = 1 \<longleftrightarrow> c < CHR 0x80"
  by (simp add: rune_lead_def)

lemma rune_width_le: "rune_width s \<le> length s"
  by (simp add: rune_width_def split: list.split prod.split)

lemma rune_width_ascii [simp]: "c < CHR 0x80 \<Longrightarrow> rune_width (c # s) = Suc 0"
  by (simp add: rune_width_def rune_lead_def)

lemma rune_width_prefix:
  assumes "rune_width s = n" and "0 < n"
  shows "rune_width (take n s @ t) = n"
proof (cases s)
  case (Cons a r)
  obtain k lo hi where k: "rune_lead a = (k, lo, hi)"
    by (cases "rune_lead a")
  with assms Cons have n: "n = k"
    by (simp add: rune_width_def split: if_splits)
  show ?thesis
  proof (cases "n < 2")
    case False
    then obtain m where m: "n = Suc (Suc m)"
      by (metis Suc_less_eq2 less_2_cases_iff not0_implies_Suc numeral_2_eq_2 zero_less_Suc)
    with assms Cons k obtain b q where r: "r = b # q" and len: "m \<le> length q"
      by (cases r) (auto simp: rune_width_def split: if_splits)
    have lead: "rune_lead a = (Suc (Suc m), lo, hi)"
      using k n m by simp
    have "lo \<le> b" "b \<le> hi" "list_all continuation (take m q)"
      using assms Cons lead r m by (auto simp: rune_width_def split: if_splits)
    then show ?thesis
      using Cons lead r len by (simp add: rune_width_def m)
  next
    case True
    with assms n have "n = Suc 0" and "rune_lead a = (Suc 0, lo, hi)"
      using k by simp_all
    with Cons show ?thesis
      by (simp add: rune_width_def)
  qed
qed (use assms in simp)

lemma rune_width_one: "rune_width s = Suc 0 \<Longrightarrow> \<exists>c t. s = c # t \<and> c < CHR 0x80"
  by (cases s) (auto simp: rune_width_def rune_lead_ascii [symmetric] split: prod.splits if_splits)

lemma rune_width_long: "rune_width (c # s) \<noteq> Suc 0 \<Longrightarrow> \<not> c < CHR 0x80"
  by auto

lemma take_rune: "0 < rune_width s \<Longrightarrow> length (take (rune_width s) s) = rune_width s"
  using rune_width_le by simp

text \<open>What a reader makes of a text: each stray byte becomes \<open>U+FFFD\<close>.\<close>

definition rune_error :: string where
  "rune_error = [CHR 0xEF, CHR 0xBF, CHR 0xBD]"

text \<open>A text is cut into its UTF-8 sequences and its stray bytes.\<close>

function utf8_pieces :: "string \<Rightarrow> string option list" where
  "utf8_pieces s =
     (if s = [] then []
      else if rune_width s = 0 then None # utf8_pieces (tl s)
      else Some (take (rune_width s) s) # utf8_pieces (drop (rune_width s) s))"
  by pat_completeness auto
termination
proof (relation "measure length")
  fix s :: string
  assume "s \<noteq> []" and "rune_width s \<noteq> 0"
  then show "(drop (rune_width s) s, s) \<in> measure length"
    by (simp add: diff_less)
qed auto

declare utf8_pieces.simps [simp del]

definition to_valid_utf8 :: "string \<Rightarrow> string" where
  "to_valid_utf8 s = concat (map (\<lambda>p. case p of None \<Rightarrow> rune_error | Some p \<Rightarrow> p) (utf8_pieces s))"

definition valid_utf8 :: "string \<Rightarrow> bool" where
  "valid_utf8 s \<longleftrightarrow> None \<notin> set (utf8_pieces s)"

lemma utf8_pieces_Nil [simp]: "utf8_pieces [] = []"
  by (simp add: utf8_pieces.simps)

lemma utf8_pieces_stray:
  "s \<noteq> [] \<Longrightarrow> rune_width s = 0 \<Longrightarrow> utf8_pieces s = None # utf8_pieces (tl s)"
  by (simp add: utf8_pieces.simps [of s])

lemma utf8_pieces_rune:
  "0 < rune_width s \<Longrightarrow>
     utf8_pieces s = Some (take (rune_width s) s) # utf8_pieces (drop (rune_width s) s)"
  by (cases "s = []") (simp_all add: utf8_pieces.simps [of s])

lemma utf8_pieces_ascii [simp]: "c < CHR 0x80 \<Longrightarrow> utf8_pieces (c # s) = Some [c] # utf8_pieces s"
  by (simp add: utf8_pieces_rune)

lemma to_valid_utf8_same: "valid_utf8 s \<Longrightarrow> to_valid_utf8 s = s"
proof (induction s rule: utf8_pieces.induct)
  case (1 s)
  then show ?case
    by (cases "s = []"; cases "rune_width s = 0")
      (simp_all add: valid_utf8_def to_valid_utf8_def utf8_pieces_stray utf8_pieces_rune)
qed

lemma valid_utf8_Nil [simp]: "valid_utf8 []"
  by (simp add: valid_utf8_def)

lemma valid_utf8_Cons [simp]: "c < CHR 0x80 \<Longrightarrow> valid_utf8 (c # s) = valid_utf8 s"
  by (simp add: valid_utf8_def)

text \<open>\<open>utf8.EncodeRune\<close>.\<close>

definition EncodeRune :: "int \<Rightarrow> string" where
  "EncodeRune r =
     (if r < 0x80 then [char_of r]
      else if r < 0x800 then [char_of (0xC0 + r div 64), char_of (0x80 + r mod 64)]
      else if r < 0x10000 then
        [char_of (0xE0 + r div 4096), char_of (0x80 + r div 64 mod 64), char_of (0x80 + r mod 64)]
      else
        [char_of (0xF0 + r div 262144), char_of (0x80 + r div 4096 mod 64),
         char_of (0x80 + r div 64 mod 64), char_of (0x80 + r mod 64)])"

section \<open>Strings\<close>

definition hex_digits :: string where
  "hex_digits = ''0123456789abcdef''"

definition hex_value :: "char \<Rightarrow> int option" where
  "hex_value c =
     (if CHR ''0'' \<le> c \<and> c \<le> CHR ''9'' then Some (of_char c - 48)
      else if CHR ''a'' \<le> c \<and> c \<le> CHR ''f'' then Some (of_char c - 87)
      else if CHR ''A'' \<le> c \<and> c \<le> CHR ''F'' then Some (of_char c - 55)
      else None)"

text \<open>The text of one UTF-8 sequence inside a string literal; \<open><\<close>, \<open>>\<close>, \<open>&\<close> and the two
line separators are escaped for HTML.\<close>

definition escape_ascii :: "char \<Rightarrow> string" where
  "escape_ascii c =
     (if c = CHR ''\"'' \<or> c = CHR 0x5C then [CHR 0x5C, c]
      else if c = CHR 0x08 then [CHR 0x5C, CHR ''b'']
      else if c = CHR 0x0C then [CHR 0x5C, CHR ''f'']
      else if c = CHR 0x0A then [CHR 0x5C, CHR ''n'']
      else if c = CHR 0x0D then [CHR 0x5C, CHR ''r'']
      else if c = CHR 0x09 then [CHR 0x5C, CHR ''t'']
      else if c < CHR 0x20 \<or> c \<in> set ''<>&'' then
        [CHR 0x5C, CHR ''u'', CHR ''0'', CHR ''0'',
         hex_digits ! (of_char c div 16), hex_digits ! (of_char c mod 16)]
      else [c])"

definition escape_rune :: "string \<Rightarrow> string" where
  "escape_rune p =
     (case p of
        [c] \<Rightarrow> escape_ascii c
      | _ \<Rightarrow>
          if p = [CHR 0xE2, CHR 0x80, CHR 0xA8] then CHR 0x5C # ''u2028''
          else if p = [CHR 0xE2, CHR 0x80, CHR 0xA9] then CHR 0x5C # ''u2029''
          else p)"

definition escape_piece :: "string option \<Rightarrow> string" where
  "escape_piece p =
     (case p of None \<Rightarrow> CHR 0x5C # ''ufffd'' | Some p \<Rightarrow> escape_rune p)"

definition escape_body :: "string \<Rightarrow> string" where
  "escape_body s = concat (map escape_piece (utf8_pieces s))"

definition quote_string :: "string \<Rightarrow> string" where
  "quote_string s = CHR ''\"'' # escape_body s @ [CHR ''\"'']"

text \<open>Reading: \<open>getu4\<close> and one step of \<open>unquote\<close>, from a byte other than the closing quote.\<close>

definition getu4 :: "string \<Rightarrow> int option" where
  "getu4 s =
     (case s of
        b # u # h1 # h2 # h3 # h4 # _ \<Rightarrow>
          if b = CHR 0x5C \<and> u = CHR ''u'' then
            (case (hex_value h1, hex_value h2, hex_value h3, hex_value h4) of
               (Some v1, Some v2, Some v3, Some v4) \<Rightarrow> Some (((v1 * 16 + v2) * 16 + v3) * 16 + v4)
             | _ \<Rightarrow> None)
          else None
      | _ \<Rightarrow> None)"

definition utf16_DecodeRune :: "int \<Rightarrow> int \<Rightarrow> int option" where
  "utf16_DecodeRune r1 r2 =
     (if 0xD800 \<le> r1 \<and> r1 < 0xDC00 \<and> 0xDC00 \<le> r2 \<and> r2 < 0xE000
      then Some ((r1 - 0xD800) * 1024 + (r2 - 0xDC00) + 0x10000) else None)"

definition unescape_unicode :: "string \<Rightarrow> (string \<times> string) option" where
  "unescape_unicode s =
     (case getu4 s of
        None \<Rightarrow> None
      | Some r1 \<Rightarrow>
          if 0xD800 \<le> r1 \<and> r1 < 0xE000 then
            (case Option.bind (getu4 (drop 6 s)) (utf16_DecodeRune r1) of
               Some r \<Rightarrow> Some (EncodeRune r, drop 12 s)
             | None \<Rightarrow> Some (rune_error, drop 6 s))
          else Some (EncodeRune r1, drop 6 s))"

definition unescape :: "char \<Rightarrow> char option" where
  "unescape e =
     (if e \<in> {CHR ''\"'', CHR 0x5C, CHR ''/''} then Some e
      else if e = CHR ''b'' then Some (CHR 0x08)
      else if e = CHR ''f'' then Some (CHR 0x0C)
      else if e = CHR ''n'' then Some (CHR 0x0A)
      else if e = CHR ''r'' then Some (CHR 0x0D)
      else if e = CHR ''t'' then Some (CHR 0x09)
      else None)"

definition unquote_step :: "string \<Rightarrow> (string \<times> string) option" where
  "unquote_step s =
     (if hd s = CHR 0x5C then
        (case tl s of
           [] \<Rightarrow> None
         | e # r \<Rightarrow>
             if e = CHR ''u'' then unescape_unicode s
             else map_option (\<lambda>c. ([c], r)) (unescape e))
      else if hd s < CHR 0x20 then None
      else if rune_width s = 0 then Some (rune_error, tl s)
      else Some (take (rune_width s) s, drop (rune_width s) s))"

lemma drop_shorter: "s \<noteq> [] \<Longrightarrow> 0 < n \<Longrightarrow> length (drop n s) < length s"
  by (cases s) auto

lemma unquote_step_shorter: "unquote_step s = Some (p, r) \<Longrightarrow> s \<noteq> [] \<Longrightarrow> length r < length s"
  by (cases s) (auto simp: unquote_step_def unescape_unicode_def drop_shorter
      split: if_splits list.splits option.splits)

text \<open>What follows the opening quote of a string: its bytes, and the rest of the text.\<close>

function unquote :: "string \<Rightarrow> (string \<times> string) option" where
  "unquote s =
     (if s = [] then None
      else if hd s = CHR ''\"'' then Some ([], tl s)
      else (case unquote_step s of
          None \<Rightarrow> None
        | Some (p, r) \<Rightarrow> map_option (apfst ((@) p)) (unquote r)))"
  by pat_completeness auto
termination
  by (relation "measure length") (auto dest: unquote_step_shorter)

declare unquote.simps [simp del]

lemma unquote_shorter: "unquote s = Some (v, r) \<Longrightarrow> length r < length s"
proof (induction s arbitrary: v rule: unquote.induct)
  case (1 s)
  then show ?case
    by (fastforce simp: unquote.simps [of s] dest: unquote_step_shorter
        split: if_splits option.splits prod.splits)
qed

section \<open>What is quoted is unquoted\<close>

lemma hex_value_digit: "n < 16 \<Longrightarrow> hex_value (hex_digits ! n) = Some (int n)"
  by (auto simp: hex_digits_def hex_value_def less_Suc_eq numeral_eq_Suc)

lemma of_char_div16: "(of_char c :: nat) div 16 < 16" "(of_char c :: nat) mod 16 < 16"
  using nat_of_char_less_256 [of c] by (simp_all add: div_less_iff_less_mult)

lemma unquote_step_escape_ascii:
  assumes "c < CHR 0x80"
  shows "unquote_step (escape_ascii c @ t) = Some ([c], t) \<and> hd (escape_ascii c @ t) \<noteq> CHR ''\"''"
proof -
  have "(of_char c :: nat) < 128"
    using assms by (simp add: less_char_def)
  then have "(of_char c :: int) < 128"
    by (metis of_nat_less_iff of_nat_numeral of_nat_of_char)
  moreover have "int (of_char c div 16) * 16 + int (of_char c mod 16) = of_char c"
    by (metis div_mult_mod_eq of_nat_add of_nat_mult of_nat_numeral of_nat_of_char)
  ultimately have "unescape_unicode ([CHR 0x5C, CHR ''u'', CHR ''0'', CHR ''0'',
      hex_digits ! (of_char c div 16), hex_digits ! (of_char c mod 16)] @ t) = Some ([c], t)"
    using hex_value_digit [OF of_char_div16(1), of c] hex_value_digit [OF of_char_div16(2), of c]
    by (simp add: unescape_unicode_def getu4_def hex_value_def EncodeRune_def)
  then show ?thesis
    using assms by (auto simp: escape_ascii_def unquote_step_def unescape_def)
qed

lemma high_byte:
  assumes "\<not> c < CHR 0x80"
  shows "c \<noteq> CHR 0x5C" "c \<noteq> CHR ''\"''" "\<not> c < CHR 0x20"
  using assms by (auto simp: less_char_def)

lemma unquote_step_escape_rune:
  assumes "0 < rune_width s"
  shows "unquote_step (escape_rune (take (rune_width s) s) @ t) = Some (take (rune_width s) s, t) \<and>
    hd (escape_rune (take (rune_width s) s) @ t) \<noteq> CHR ''\"''"
proof (cases "rune_width s = Suc 0")
  case True
  then obtain c r where "s = c # r" and "c < CHR 0x80"
    using rune_width_one by blast
  then show ?thesis
    using unquote_step_escape_ascii by (simp add: escape_rune_def)
next
  case False
  let ?p = "take (rune_width s) s"
  obtain c d r where p: "?p = c # d # r"
    using False assms take_rune [OF assms] by (cases ?p rule: remdups_adj.cases) auto
  then have c: "\<not> c < CHR 0x80"
    using False by (cases s) (auto simp: take_Cons' split: if_splits)
  have w: "rune_width (?p @ t) = length ?p"
    using rune_width_prefix [OF refl assms] take_rune [OF assms] by simp
  show ?thesis
  proof (cases "?p \<in> {[CHR 0xE2, CHR 0x80, CHR 0xA8], [CHR 0xE2, CHR 0x80, CHR 0xA9]}")
    case True
    then show ?thesis
      by (auto simp: escape_rune_def unquote_step_def unescape_unicode_def getu4_def hex_value_def
          EncodeRune_def char_of_def)
  next
    case False
    then have "escape_rune ?p = ?p"
      by (simp add: escape_rune_def p)
    then show ?thesis
      using w high_byte [OF c] p by (simp add: unquote_step_def)
  qed
qed

lemma unquote_step_stray:
  "unquote_step (CHR 0x5C # ''ufffd'' @ t) = Some (rune_error, t)"
  by (simp add: unquote_step_def unescape_unicode_def getu4_def hex_value_def EncodeRune_def
      rune_error_def char_of_def)

lemma unquote_escape: "unquote (escape_body s @ CHR ''\"'' # t) = Some (to_valid_utf8 s, t)"
proof (induction s rule: utf8_pieces.induct)
  case (1 s)
  consider "s = []" | "s \<noteq> []" "rune_width s = 0" | "s \<noteq> []" "0 < rune_width s"
    by blast
  then show ?case
  proof cases
    case 1
    then show ?thesis
      by (simp add: escape_body_def to_valid_utf8_def unquote.simps [of "CHR ''\"'' # t"])
  next
    case 2
    let ?u = "escape_body (tl s) @ CHR ''\"'' # t"
    have "escape_body s @ CHR ''\"'' # t = CHR 0x5C # ''ufffd'' @ ?u"
      using 2 by (simp add: escape_body_def utf8_pieces_stray escape_piece_def)
    moreover have "to_valid_utf8 s = rune_error @ to_valid_utf8 (tl s)"
      using 2 by (simp add: to_valid_utf8_def utf8_pieces_stray)
    ultimately show ?thesis
      using 2 1(1) by (simp add: unquote.simps [of "CHR 0x5C # _"] unquote_step_stray [simplified])
  next
    case 3
    let ?p = "take (rune_width s) s" and ?r = "drop (rune_width s) s"
    let ?u = "escape_body ?r @ CHR ''\"'' # t"
    have body: "escape_body s @ CHR ''\"'' # t = escape_rune ?p @ ?u"
      using 3 by (simp add: escape_body_def utf8_pieces_rune escape_piece_def)
    have clean: "to_valid_utf8 s = ?p @ to_valid_utf8 ?r"
      using 3 by (simp add: to_valid_utf8_def utf8_pieces_rune)
    have "escape_rune ?p @ ?u \<noteq> []"
      by simp
    then show ?thesis
      using 3 1(2) unquote_step_escape_rune [OF 3(2), of ?u]
      unfolding body clean by (simp add: unquote.simps [of "escape_rune ?p @ ?u"])
  qed
qed

section \<open>Numbers\<close>

definition is_digit :: "char \<Rightarrow> bool" where
  "is_digit c \<longleftrightarrow> CHR ''0'' \<le> c \<and> c \<le> CHR ''9''"

definition lex_digits :: "string \<Rightarrow> string \<times> string" where
  "lex_digits s = (takeWhile is_digit s, dropWhile is_digit s)"

definition lex_int_part :: "string \<Rightarrow> (string \<times> string) option" where
  "lex_int_part s =
     (case s of
        [] \<Rightarrow> None
      | c # r \<Rightarrow>
          if c = CHR ''0'' then Some ([c], r)
          else if is_digit c then Some (lex_digits s)
          else None)"

text \<open>Digits after a prefix that has been read; at least one.\<close>

definition lex_digits1 :: "string \<Rightarrow> string \<Rightarrow> (string \<times> string) option" where
  "lex_digits1 p s =
     (case lex_digits s of (ds, r) \<Rightarrow> if ds = [] then None else Some (p @ ds, r))"

definition lex_fraction :: "string \<Rightarrow> (string \<times> string) option" where
  "lex_fraction s =
     (case s of
        [] \<Rightarrow> Some ([], [])
      | c # r \<Rightarrow> if c = CHR ''.'' then lex_digits1 [c] r else Some ([], s))"

definition lex_exponent :: "string \<Rightarrow> (string \<times> string) option" where
  "lex_exponent s =
     (case s of
        [] \<Rightarrow> Some ([], [])
      | c # r \<Rightarrow>
          if c \<noteq> CHR ''e'' \<and> c \<noteq> CHR ''E'' then Some ([], s)
          else (case r of
              [] \<Rightarrow> None
            | g # q \<Rightarrow>
                if g = CHR ''+'' \<or> g = CHR ''-'' then lex_digits1 [c, g] q else lex_digits1 [c] r))"

text \<open>What follows the sign, if any.\<close>

definition lex_unsigned :: "string \<Rightarrow> string \<Rightarrow> (string \<times> string) option" where
  "lex_unsigned sign s =
     (case lex_int_part s of
        None \<Rightarrow> None
      | Some (i, s) \<Rightarrow>
     (case lex_fraction s of
        None \<Rightarrow> None
      | Some (f, s) \<Rightarrow>
     (case lex_exponent s of
        None \<Rightarrow> None
      | Some (x, s) \<Rightarrow> Some (sign @ i @ f @ x, s))))"

definition lex_number :: "string \<Rightarrow> (string \<times> string) option" where
  "lex_number s =
     (case s of
        [] \<Rightarrow> None
      | c # r \<Rightarrow> if c = CHR ''-'' then lex_unsigned [c] r else lex_unsigned [] s)"

definition valid_number :: "string \<Rightarrow> bool" where
  "valid_number s \<longleftrightarrow> lex_number s = Some (s, [])"

text \<open>A text at whose start no number can go on.\<close>

definition stops :: "string \<Rightarrow> bool" where
  "stops t \<longleftrightarrow> t = [] \<or> (\<not> is_digit (hd t) \<and> hd t \<notin> set ''.eE+-'')"

lemma is_digit_simps [simp]:
  "is_digit (CHR ''0'')" "\<not> is_digit (CHR ''-'')" "\<not> is_digit (CHR ''.'')"
  "\<not> is_digit (CHR ''e'')" "\<not> is_digit (CHR ''E'')" "\<not> is_digit (CHR ''+'')"
  by (simp_all add: is_digit_def)

lemma stops_Nil [simp]: "stops []"
  by (simp add: stops_def)

lemma stops_Cons: "stops (c # t) \<longleftrightarrow> \<not> is_digit c \<and> c \<notin> set ''.eE+-''"
  by (simp add: stops_def)

lemma apsnd_same [simp]: "apsnd (\<lambda>r. r) = (\<lambda>p. p)"
  by auto

lemma lex_digits_append: "stops t \<Longrightarrow> lex_digits (s @ t) = apsnd (\<lambda>r. r @ t) (lex_digits s)"
  by (induction s) (cases t; simp add: lex_digits_def stops_Cons)+

lemma lex_digits1_append:
  "stops t \<Longrightarrow> lex_digits1 p (s @ t) = map_option (apsnd (\<lambda>r. r @ t)) (lex_digits1 p s)"
  by (simp add: lex_digits1_def lex_digits_append split: prod.split)

lemma lex_int_part_append:
  assumes "stops t"
  shows "lex_int_part (s @ t) = map_option (apsnd (\<lambda>r. r @ t)) (lex_int_part s)"
proof (cases s)
  case Nil
  show ?thesis
  proof (cases t)
    case (Cons c u)
    with assms have d: "\<not> is_digit c"
      by (simp add: stops_Cons)
    then have "c \<noteq> CHR ''0''"
      using is_digit_simps(1) by metis
    with d Nil Cons show ?thesis
      by (simp add: lex_int_part_def)
  qed (simp add: Nil lex_int_part_def)
next
  case (Cons c u)
  then show ?thesis
    using lex_digits_append [OF assms, of s] by (simp add: lex_int_part_def)
qed

lemma lex_fraction_append:
  assumes "stops t"
  shows "lex_fraction (s @ t) = map_option (apsnd (\<lambda>r. r @ t)) (lex_fraction s)"
proof (cases s)
  case Nil
  with assms show ?thesis
    by (cases t) (simp_all add: lex_fraction_def stops_Cons)
next
  case (Cons c u)
  then show ?thesis
    using lex_digits1_append [OF assms, of "[c]" u] by (auto simp: lex_fraction_def)
qed

lemma lex_exponent_append:
  assumes "stops t"
  shows "lex_exponent (s @ t) = map_option (apsnd (\<lambda>r. r @ t)) (lex_exponent s)"
proof (cases s)
  case Nil
  with assms show ?thesis
    by (cases t) (simp_all add: lex_exponent_def stops_Cons)
next
  case (Cons c u)
  have none: "lex_digits1 [c] t = None"
    using lex_digits1_append [OF assms, of "[c]" "[]"] by (simp add: lex_digits1_def lex_digits_def)
  show ?thesis
  proof (cases u)
    case Nil
    with assms Cons none show ?thesis
      by (cases t) (simp_all add: lex_exponent_def stops_Cons)
  next
    case (Cons g q)
    then show ?thesis
      using lex_digits1_append [OF assms, of "[c]" u] lex_digits1_append [OF assms, of "[c, g]" q]
      by (auto simp: lex_exponent_def \<open>s = c # u\<close>)
  qed
qed

lemma lex_unsigned_append:
  "stops t \<Longrightarrow> lex_unsigned p (s @ t) = map_option (apsnd (\<lambda>r. r @ t)) (lex_unsigned p s)"
  by (simp add: lex_unsigned_def lex_int_part_append lex_fraction_append lex_exponent_append
      split: option.split prod.split)

lemma lex_number_append:
  assumes "stops t"
  shows "lex_number (s @ t) = map_option (apsnd (\<lambda>r. r @ t)) (lex_number s)"
proof (cases s)
  case Nil
  have "lex_unsigned [] t = None"
    using lex_unsigned_append [OF assms, of "[]" "[]"] by (simp add: lex_unsigned_def lex_int_part_def)
  with Nil assms show ?thesis
    by (cases t) (simp_all add: lex_number_def stops_Cons)
next
  case (Cons c u)
  then show ?thesis
    using lex_unsigned_append [OF assms, of "[]" s] lex_unsigned_append [OF assms, of "[c]" u]
    by (auto simp: lex_number_def)
qed

lemma lex_digits1_split: "lex_digits1 p s = Some (q, r) \<Longrightarrow> p @ s = q @ r"
  by (auto simp: lex_digits1_def lex_digits_def split: if_splits)

lemma lex_unsigned_split:
  assumes "lex_unsigned p s = Some (q, r)"
  shows "p @ s = q @ r \<and> q \<noteq> []"
proof -
  have i: "u = i @ v \<and> i \<noteq> []" if "lex_int_part u = Some (i, v)" for u i v
    using that by (auto simp: lex_int_part_def lex_digits_def split: list.splits if_splits)
  have f: "u = i @ v" if "lex_fraction u = Some (i, v)" for u i v
    using that by (auto simp: lex_fraction_def split: list.splits if_splits dest: lex_digits1_split)
  have x: "u = i @ v" if "lex_exponent u = Some (i, v)" for u i v
    using that by (auto simp: lex_exponent_def split: list.splits if_splits dest: lex_digits1_split)
  show ?thesis
    using assms by (auto simp: lex_unsigned_def split: option.splits prod.splits dest!: i f x)
qed

lemma lex_number_split: "lex_number s = Some (p, r) \<Longrightarrow> s = p @ r \<and> p \<noteq> []"
  using lex_unsigned_split [of "[hd s]" "tl s"] lex_unsigned_split [of "[]" s]
  by (cases s) (auto simp: lex_number_def split: if_splits)

section \<open>Tokens\<close>

datatype json_token =
    LBrace | RBrace | LBracket | RBracket | Colon | Comma
  | StringToken string | NumberToken string | TrueToken | FalseToken | NullToken

definition is_space :: "char \<Rightarrow> bool" where
  "is_space c \<longleftrightarrow> c \<in> {CHR '' '', CHR 0x09, CHR 0x0A, CHR 0x0D}"

definition skip_space :: "string \<Rightarrow> string" where
  "skip_space s = dropWhile is_space s"

definition lex_word :: "string \<Rightarrow> json_token \<Rightarrow> string \<Rightarrow> (json_token \<times> string) option" where
  "lex_word w t s = (if take (length w) s = w then Some (t, drop (length w) s) else None)"

definition next_token :: "string \<Rightarrow> (json_token \<times> string) option" where
  "next_token s =
     (case skip_space s of
        [] \<Rightarrow> None
      | c # r \<Rightarrow>
          if c = CHR ''{'' then Some (LBrace, r)
          else if c = CHR ''}'' then Some (RBrace, r)
          else if c = CHR ''['' then Some (LBracket, r)
          else if c = CHR '']'' then Some (RBracket, r)
          else if c = CHR '':'' then Some (Colon, r)
          else if c = CHR '','' then Some (Comma, r)
          else if c = CHR ''\"'' then map_option (apfst StringToken) (unquote r)
          else if c = CHR ''t'' then lex_word ''rue'' TrueToken r
          else if c = CHR ''f'' then lex_word ''alse'' FalseToken r
          else if c = CHR ''n'' then lex_word ''ull'' NullToken r
          else map_option (apfst NumberToken) (lex_number (c # r)))"

lemma skip_space_shorter: "length (skip_space s) \<le> length s"
  by (simp add: skip_space_def length_dropWhile_le)

lemma next_token_shorter:
  assumes "next_token s = Some (t, r)"
  shows "length r < length s"
proof -
  obtain c u where u: "skip_space s = c # u"
    using assms by (cases "skip_space s") (simp_all add: next_token_def)
  have "length r \<le> length u" if "lex_number (c # u) = Some (l, r)" for l
    using lex_number_split [OF that] by (cases l) auto
  moreover have "length r \<le> length u" if "unquote u = Some (l, r)" for l
    using unquote_shorter [OF that] by simp
  ultimately have "length r \<le> length u"
    using assms by (auto simp: next_token_def u lex_word_def split: if_splits)
  then show ?thesis
    using skip_space_shorter [of s] by (simp add: u)
qed

lemma next_token_quoted:
  "next_token (quote_string s @ t) = Some (StringToken (to_valid_utf8 s), t)"
  by (simp add: next_token_def skip_space_def is_space_def quote_string_def unquote_escape)

lemma next_token_number:
  assumes "valid_number l" and "stops t"
  shows "next_token (l @ t) = Some (NumberToken l, t)"
proof -
  have n: "lex_number (l @ t) = Some (l, t)"
    using assms by (simp add: lex_number_append valid_number_def)
  obtain c r where l: "l = c # r"
    using lex_number_split [of l l "[]"] assms by (cases l) (auto simp: valid_number_def)
  have "is_digit c \<or> c = CHR ''-''"
    using assms l by (auto simp: valid_number_def lex_number_def lex_unsigned_def lex_int_part_def
        split: if_splits)
  then have "\<not> is_space c" and "c \<notin> set ''{}[]:,tfn'' \<union> {CHR ''\"''}"
    by (auto simp: is_digit_def is_space_def)
  then show ?thesis
    using n l by (simp add: next_token_def skip_space_def)
qed

end
