(* ===== verification/Json_Text.thy ===== *)
theory Json_Text
  imports Json_Lexer
begin

text \<open>
  JSON values and their text as \<open>encoding/json\<close> of Go's standard library prints and parses
  them. The parser is a machine with the states of the library's scanner and its stack of
  open arrays and objects; it reads one token per step and accepts at most \<open>max_nesting\<close>
  open brackets. A value keeps all members of an object, in the order of the text.
\<close>

datatype json =
    JNull
  | JBool bool
  | JNumber string
  | JString string
  | JArray "json list"
  | JObject "(string \<times> json) list"

section \<open>Printing\<close>

fun join_comma :: "string list \<Rightarrow> string" where
  "join_comma [] = []"
| "join_comma [s] = s"
| "join_comma (s # t # ss) = s @ CHR '','' # join_comma (t # ss)"

fun print_json :: "json \<Rightarrow> string" where
  "print_json JNull = ''null''"
| "print_json (JBool b) = (if b then ''true'' else ''false'')"
| "print_json (JNumber l) = l"
| "print_json (JString s) = quote_string s"
| "print_json (JArray js) = CHR ''['' # join_comma (map print_json js) @ '']''"
| "print_json (JObject ms) =
     CHR ''{'' # join_comma (map (\<lambda>(k, v). quote_string k @ CHR '':'' # print_json v) ms) @ ''}''"

fun json_depth :: "json \<Rightarrow> nat" where
  "json_depth (JArray js) = Suc (foldr max (map json_depth js) 0)"
| "json_depth (JObject ms) = Suc (foldr max (map (\<lambda>(k, v). json_depth v) ms) 0)"
| "json_depth _ = 0"

fun numbers_valid :: "json \<Rightarrow> bool" where
  "numbers_valid (JNumber l) = valid_number l"
| "numbers_valid (JArray js) = list_all numbers_valid js"
| "numbers_valid (JObject ms) = list_all (\<lambda>(k, v). numbers_valid v) ms"
| "numbers_valid _ = True"

text \<open>A value whose strings are UTF-8, and what printing makes of any other one.\<close>

fun tidy :: "json \<Rightarrow> json" where
  "tidy (JString s) = JString (to_valid_utf8 s)"
| "tidy (JArray js) = JArray (map tidy js)"
| "tidy (JObject ms) = JObject (map (\<lambda>(k, v). (to_valid_utf8 k, tidy v)) ms)"
| "tidy j = j"

fun strings_valid :: "json \<Rightarrow> bool" where
  "strings_valid (JString s) = valid_utf8 s"
| "strings_valid (JArray js) = list_all strings_valid js"
| "strings_valid (JObject ms) = list_all (\<lambda>(k, v). valid_utf8 k \<and> strings_valid v) ms"
| "strings_valid _ = True"

lemma tidy_same: "strings_valid j \<Longrightarrow> tidy j = j"
  by (induction j rule: tidy.induct)
    (auto simp: to_valid_utf8_same list_all_iff intro!: map_idI)

section \<open>Parsing\<close>

definition max_nesting :: nat where
  "max_nesting = 10000"

datatype parse_frame =
    ParseObjectKey "(string \<times> json) list"
  | ParseObjectValue "(string \<times> json) list" string
  | ParseArrayValue "json list"

datatype scan_state =
    BeginValue | BeginValueOrEmpty | BeginString | BeginStringOrEmpty
  | EndKey string | EndValue json

type_synonym scanner = "scan_state \<times> parse_frame list"

definition push_frame :: "scan_state \<Rightarrow> parse_frame \<Rightarrow> parse_frame list \<Rightarrow> scanner option" where
  "push_frame st f stk = (if length stk < max_nesting then Some (st, f # stk) else None)"

fun begin_value :: "json_token \<Rightarrow> parse_frame list \<Rightarrow> scanner option" where
  "begin_value LBrace stk = push_frame BeginStringOrEmpty (ParseObjectKey []) stk"
| "begin_value LBracket stk = push_frame BeginValueOrEmpty (ParseArrayValue []) stk"
| "begin_value (StringToken s) stk = Some (EndValue (JString s), stk)"
| "begin_value (NumberToken l) stk = Some (EndValue (JNumber l), stk)"
| "begin_value TrueToken stk = Some (EndValue (JBool True), stk)"
| "begin_value FalseToken stk = Some (EndValue (JBool False), stk)"
| "begin_value NullToken stk = Some (EndValue JNull, stk)"
| "begin_value _ stk = None"

fun begin_string :: "json_token \<Rightarrow> parse_frame list \<Rightarrow> scanner option" where
  "begin_string (StringToken k) stk = Some (EndKey k, stk)"
| "begin_string _ stk = None"

fun end_value :: "json \<Rightarrow> json_token \<Rightarrow> parse_frame list \<Rightarrow> scanner option" where
  "end_value v Comma (ParseArrayValue vs # stk) = Some (BeginValue, ParseArrayValue (vs @ [v]) # stk)"
| "end_value v RBracket (ParseArrayValue vs # stk) = Some (EndValue (JArray (vs @ [v])), stk)"
| "end_value v Comma (ParseObjectValue ms k # stk) =
     Some (BeginString, ParseObjectKey (ms @ [(k, v)]) # stk)"
| "end_value v RBrace (ParseObjectValue ms k # stk) = Some (EndValue (JObject (ms @ [(k, v)])), stk)"
| "end_value _ _ _ = None"

fun scan_step :: "json_token \<Rightarrow> scanner \<Rightarrow> scanner option" where
  "scan_step t (BeginValue, stk) = begin_value t stk"
| "scan_step RBracket (BeginValueOrEmpty, ParseArrayValue vs # stk) = Some (EndValue (JArray vs), stk)"
| "scan_step t (BeginValueOrEmpty, stk) = begin_value t stk"
| "scan_step t (BeginString, stk) = begin_string t stk"
| "scan_step RBrace (BeginStringOrEmpty, ParseObjectKey ms # stk) = Some (EndValue (JObject ms), stk)"
| "scan_step t (BeginStringOrEmpty, stk) = begin_string t stk"
| "scan_step Colon (EndKey k, ParseObjectKey ms # stk) =
     Some (BeginValue, ParseObjectValue ms k # stk)"
| "scan_step _ (EndKey k, _) = None"
| "scan_step t (EndValue v, stk) = end_value v t stk"

text \<open>A value is complete when it ends with nothing open; what follows it is not read.\<close>

function parse_loop :: "scanner \<Rightarrow> string \<Rightarrow> (json \<times> string) option" where
  "parse_loop sc s =
     (case sc of
        (EndValue v, []) \<Rightarrow> Some (v, s)
      | _ \<Rightarrow>
          (case next_token s of
             None \<Rightarrow> None
           | Some (t, r) \<Rightarrow>
               (case scan_step t sc of None \<Rightarrow> None | Some sc' \<Rightarrow> parse_loop sc' r)))"
  by pat_completeness auto
termination
  by (relation "measure (\<lambda>(sc, s). length s)") (auto dest: next_token_shorter)

declare parse_loop.simps [simp del]

definition parse_value :: "string \<Rightarrow> (json \<times> string) option" where
  "parse_value s = parse_loop (BeginValue, []) s"

text \<open>The whole text is one value.\<close>

definition parse_json :: "string \<Rightarrow> json option" where
  "parse_json s =
     (case parse_value s of
        Some (v, r) \<Rightarrow> if skip_space r = [] then Some v else None
      | None \<Rightarrow> None)"

section \<open>What is printed is parsed\<close>

lemma parse_done: "parse_loop (EndValue v, []) s = Some (v, s)"
  by (simp add: parse_loop.simps)

lemma parse_next:
  assumes "next_token s = Some (t, r)" and "scan_step t (st, stk) = Some sc"
    and "stk = [] \<Longrightarrow> \<not> (\<exists>v. st = EndValue v)"
  shows "parse_loop (st, stk) s = parse_loop sc r"
  using assms unfolding parse_loop.simps [of "(st, stk)" s] by (cases st; cases stk) simp_all

lemma next_token_mark [simp]:
  "next_token (CHR ''{'' # r) = Some (LBrace, r)" "next_token (CHR ''}'' # r) = Some (RBrace, r)"
  "next_token (CHR ''['' # r) = Some (LBracket, r)" "next_token (CHR '']'' # r) = Some (RBracket, r)"
  "next_token (CHR '':'' # r) = Some (Colon, r)" "next_token (CHR '','' # r) = Some (Comma, r)"
  "next_token (''null'' @ r) = Some (NullToken, r)" "next_token (''true'' @ r) = Some (TrueToken, r)"
  "next_token (''false'' @ r) = Some (FalseToken, r)"
  by (simp_all add: next_token_def skip_space_def is_space_def lex_word_def)

declare next_token_mark(7-9) [simplified, simp]

lemma stops_mark [simp]:
  "stops (CHR '','' # r)" "stops (CHR '']'' # r)" "stops (CHR ''}'' # r)"
  by (simp_all add: stops_def is_digit_def)

lemma begin_value_or_empty:
  "t \<noteq> RBracket \<Longrightarrow> scan_step t (BeginValueOrEmpty, stk) = begin_value t stk"
  by (cases t) simp_all

lemma push_room: "length stk < max_nesting \<Longrightarrow> push_frame st f stk = Some (st, f # stk)"
  by (simp add: push_frame_def)

text \<open>The claim about one value, used for the elements of an array and the members of an
object.\<close>

definition reads_back :: "json \<Rightarrow> bool" where
  "reads_back j \<longleftrightarrow>
     (\<forall>st stk t. st \<in> {BeginValue, BeginValueOrEmpty} \<longrightarrow> stops t \<longrightarrow>
        length stk + json_depth j \<le> max_nesting \<longrightarrow>
        parse_loop (st, stk) (print_json j @ t) = parse_loop (EndValue (tidy j), stk) t)"

lemma reads_backD:
  "reads_back j \<Longrightarrow> st \<in> {BeginValue, BeginValueOrEmpty} \<Longrightarrow> stops t \<Longrightarrow>
     length stk + json_depth j \<le> max_nesting \<Longrightarrow>
     parse_loop (st, stk) (print_json j @ t) = parse_loop (EndValue (tidy j), stk) t"
  unfolding reads_back_def by blast

lemma reads_back_token:
  assumes "\<And>t. stops t \<Longrightarrow> next_token (print_json j @ t) = Some (tk, t)" and "tk \<noteq> RBracket"
    and "\<And>stk. begin_value tk stk = Some (EndValue (tidy j), stk)"
  shows "reads_back j"
  unfolding reads_back_def
proof (intro allI impI)
  fix st :: scan_state and stk :: "parse_frame list" and t
  assume "st \<in> {BeginValue, BeginValueOrEmpty}" and "stops t"
  with assms show "parse_loop (st, stk) (print_json j @ t) = parse_loop (EndValue (tidy j), stk) t"
    by (intro parse_next) (auto simp: begin_value_or_empty)
qed

lemma reads_elements:
  assumes "\<And>j. j \<in> set js \<Longrightarrow> reads_back j" and "js \<noteq> []"
    and "\<And>j. j \<in> set js \<Longrightarrow> Suc (length stk) + json_depth j \<le> max_nesting"
    and "st \<in> {BeginValue, BeginValueOrEmpty}"
  shows "parse_loop (st, ParseArrayValue vs # stk) (join_comma (map print_json js) @ CHR '']'' # t) =
    parse_loop (EndValue (JArray (vs @ map tidy js)), stk) t"
  using assms
proof (induction js arbitrary: vs st rule: induct_list012)
  case (2 j)
  have "parse_loop (st, ParseArrayValue vs # stk) (print_json j @ CHR '']'' # t) =
      parse_loop (EndValue (tidy j), ParseArrayValue vs # stk) (CHR '']'' # t)"
    using 2 by (intro reads_backD) auto
  also have "\<dots> = parse_loop (EndValue (JArray (vs @ [tidy j])), stk) t"
    by (rule parse_next) auto
  finally show ?case
    by simp
next
  case (3 j k js)
  let ?rest = "join_comma (map print_json (k # js)) @ CHR '']'' # t"
  have "parse_loop (st, ParseArrayValue vs # stk) (print_json j @ CHR '','' # ?rest) =
      parse_loop (EndValue (tidy j), ParseArrayValue vs # stk) (CHR '','' # ?rest)"
    using 3 by (intro reads_backD) auto
  also have "\<dots> = parse_loop (BeginValue, ParseArrayValue (vs @ [tidy j]) # stk) ?rest"
    by (rule parse_next) auto
  also have "\<dots> = parse_loop (EndValue (JArray ((vs @ [tidy j]) @ map tidy (k # js))), stk) t"
    using 3 by (intro "3.IH"(2)) auto
  finally show ?case
    by simp
qed simp

lemma begin_string_or_empty:
  "st \<in> {BeginString, BeginStringOrEmpty} \<Longrightarrow> scan_step (StringToken k) (st, stk) = Some (EndKey k, stk)"
  by auto

lemma reads_key:
  assumes "st \<in> {BeginString, BeginStringOrEmpty}"
  shows "parse_loop (st, ParseObjectKey ms # stk) (quote_string k @ CHR '':'' # t) =
    parse_loop (BeginValue, ParseObjectValue ms (to_valid_utf8 k) # stk) t"
proof -
  have "parse_loop (st, ParseObjectKey ms # stk) (quote_string k @ CHR '':'' # t) =
      parse_loop (EndKey (to_valid_utf8 k), ParseObjectKey ms # stk) (CHR '':'' # t)"
    using assms by (intro parse_next [OF next_token_quoted begin_string_or_empty]) auto
  also have "\<dots> = parse_loop (BeginValue, ParseObjectValue ms (to_valid_utf8 k) # stk) t"
    by (rule parse_next) auto
  finally show ?thesis .
qed

definition print_member :: "string \<times> json \<Rightarrow> string" where
  "print_member m = (case m of (k, v) \<Rightarrow> quote_string k @ CHR '':'' # print_json v)"

definition tidy_member :: "string \<times> json \<Rightarrow> string \<times> json" where
  "tidy_member m = (case m of (k, v) \<Rightarrow> (to_valid_utf8 k, tidy v))"

lemma reads_member:
  assumes "reads_back (snd m)" and "Suc (length stk) + json_depth (snd m) \<le> max_nesting"
    and "st \<in> {BeginString, BeginStringOrEmpty}" and "stops t"
  shows "parse_loop (st, ParseObjectKey ms # stk) (print_member m @ t) =
    parse_loop (EndValue (tidy (snd m)), ParseObjectValue ms (fst (tidy_member m)) # stk) t"
  using assms reads_key [of st ms stk "fst m" "print_json (snd m) @ t"]
  by (cases m) (simp add: print_member_def tidy_member_def reads_backD)

lemma reads_members:
  assumes "\<And>m. m \<in> set ns \<Longrightarrow> reads_back (snd m)" and "ns \<noteq> []"
    and "\<And>m. m \<in> set ns \<Longrightarrow> Suc (length stk) + json_depth (snd m) \<le> max_nesting"
    and "st \<in> {BeginString, BeginStringOrEmpty}"
  shows "parse_loop (st, ParseObjectKey ms # stk) (join_comma (map print_member ns) @ CHR ''}'' # t) =
    parse_loop (EndValue (JObject (ms @ map tidy_member ns)), stk) t"
  using assms
proof (induction ns arbitrary: ms st rule: induct_list012)
  case (2 m)
  have "parse_loop (st, ParseObjectKey ms # stk) (print_member m @ CHR ''}'' # t) =
      parse_loop (EndValue (tidy (snd m)), ParseObjectValue ms (fst (tidy_member m)) # stk)
        (CHR ''}'' # t)"
    using 2 by (intro reads_member) auto
  also have "\<dots> = parse_loop (EndValue (JObject (ms @ [tidy_member m])), stk) t"
    by (rule parse_next) (auto simp: tidy_member_def split: prod.split)
  finally show ?case
    by simp
next
  case (3 m n ns)
  let ?rest = "join_comma (map print_member (n # ns)) @ CHR ''}'' # t"
  have "parse_loop (st, ParseObjectKey ms # stk) (print_member m @ CHR '','' # ?rest) =
      parse_loop (EndValue (tidy (snd m)), ParseObjectValue ms (fst (tidy_member m)) # stk)
        (CHR '','' # ?rest)"
    using 3 by (intro reads_member) auto
  also have "\<dots> = parse_loop (BeginString, ParseObjectKey (ms @ [tidy_member m]) # stk) ?rest"
    by (rule parse_next) (auto simp: tidy_member_def split: prod.split)
  also have "\<dots> = parse_loop (EndValue (JObject ((ms @ [tidy_member m]) @ map tidy_member (n # ns))), stk) t"
    using 3 by (intro "3.IH"(2)) auto
  finally show ?case
    by simp
qed simp

lemma depth_member: "x \<in> set xs \<Longrightarrow> f x \<le> foldr max (map f xs) (0 :: nat)"
  by (induction xs) auto

lemma print_json_object [simp]:
  "print_json (JObject ms) = CHR ''{'' # join_comma (map print_member ms) @ ''}''"
  by (simp add: print_member_def [abs_def])

lemma tidy_object [simp]: "tidy (JObject ms) = JObject (map tidy_member ms)"
  by (simp add: tidy_member_def [abs_def])

lemma json_depth_object [simp]:
  "json_depth (JObject ms) = Suc (foldr max (map (\<lambda>m. json_depth (snd m)) ms) 0)"
  by (simp add: case_prod_beta')

declare print_json.simps(6) [simp del] tidy.simps(3) [simp del] json_depth.simps(2) [simp del]

lemma reads_back_array:
  assumes "\<And>j. j \<in> set js \<Longrightarrow> reads_back j"
  shows "reads_back (JArray js)"
  unfolding reads_back_def
proof (intro allI impI)
  fix st :: scan_state and stk :: "parse_frame list" and t
  assume st: "st \<in> {BeginValue, BeginValueOrEmpty}" and "stops t"
    and depth: "length stk + json_depth (JArray js) \<le> max_nesting"
  let ?body = "join_comma (map print_json js) @ CHR '']'' # t"
  have fits: "Suc (length stk) + json_depth j \<le> max_nesting" if "j \<in> set js" for j
    using depth depth_member [OF that, of json_depth] by simp
  have "parse_loop (st, stk) (CHR ''['' # ?body) =
      parse_loop (BeginValueOrEmpty, ParseArrayValue [] # stk) ?body"
    using st depth by (intro parse_next) (auto simp: begin_value_or_empty push_frame_def)
  also have "\<dots> = parse_loop (EndValue (JArray (map tidy js)), stk) t"
  proof (cases "js = []")
    case True
    then show ?thesis
      by (simp add: parse_next [where sc = "(EndValue (JArray []), stk)" and t = RBracket and r = t])
  next
    case False
    then show ?thesis
      using reads_elements [OF assms False fits, of BeginValueOrEmpty "[]" t] by simp
  qed
  finally show "parse_loop (st, stk) (print_json (JArray js) @ t) =
      parse_loop (EndValue (tidy (JArray js)), stk) t"
    by simp
qed

lemma reads_back_object:
  assumes "\<And>m. m \<in> set ms \<Longrightarrow> reads_back (snd m)"
  shows "reads_back (JObject ms)"
  unfolding reads_back_def
proof (intro allI impI)
  fix st :: scan_state and stk :: "parse_frame list" and t
  assume st: "st \<in> {BeginValue, BeginValueOrEmpty}" and "stops t"
    and depth: "length stk + json_depth (JObject ms) \<le> max_nesting"
  let ?body = "join_comma (map print_member ms) @ CHR ''}'' # t"
  have fits: "Suc (length stk) + json_depth (snd m) \<le> max_nesting" if "m \<in> set ms" for m
    using depth depth_member [OF that, of "\<lambda>m. json_depth (snd m)"] by simp
  have "parse_loop (st, stk) (CHR ''{'' # ?body) =
      parse_loop (BeginStringOrEmpty, ParseObjectKey [] # stk) ?body"
    using st depth by (intro parse_next) (auto simp: begin_value_or_empty push_frame_def)
  also have "\<dots> = parse_loop (EndValue (JObject (map tidy_member ms)), stk) t"
  proof (cases "ms = []")
    case True
    then show ?thesis
      by (simp add: parse_next [where sc = "(EndValue (JObject []), stk)" and t = RBrace and r = t])
  next
    case False
    then show ?thesis
      using reads_members [OF assms False fits, of BeginStringOrEmpty "[]" t] by simp
  qed
  finally show "parse_loop (st, stk) (print_json (JObject ms) @ t) =
      parse_loop (EndValue (tidy (JObject ms)), stk) t"
    by simp
qed

lemma reads_back_json: "numbers_valid j \<Longrightarrow> reads_back j"
proof (induction j)
  case (JArray js)
  then show ?case
    by (intro reads_back_array) (simp add: list_all_iff)
next
  case (JObject ms)
  then show ?case
    by (intro reads_back_object) (auto simp: list_all_iff elim: snds.cases intro: snds.intros)
next
  case (JBool b)
  show ?case
    by (rule reads_back_token [where tk = "if b then TrueToken else FalseToken"]) auto
next
  case JNull
  show ?case
    by (rule reads_back_token [where tk = NullToken]) auto
next
  case (JNumber l)
  then show ?case
    by (intro reads_back_token [where tk = "NumberToken l"]) (auto simp: next_token_number)
next
  case (JString s)
  show ?case
    by (rule reads_back_token [where tk = "StringToken (to_valid_utf8 s)"])
      (auto simp: next_token_quoted)
qed

lemma parse_value_print:
  assumes "numbers_valid j" and "json_depth j \<le> max_nesting" and "stops t"
  shows "parse_value (print_json j @ t) = Some (tidy j, t)"
  using reads_backD [OF reads_back_json [OF assms(1)], of BeginValue t "[]"] assms
  by (simp add: parse_value_def parse_done)

lemma parse_json_print:
  assumes "numbers_valid j" and "json_depth j \<le> max_nesting"
  shows "parse_json (print_json j) = Some (tidy j)"
  using parse_value_print [OF assms, of "[]"] by (simp add: parse_json_def skip_space_def)

end
