(* ===== verification/Http_Middleware.thy ===== *)
theory Http_Middleware
  imports Authz_System Json_Text
begin

text \<open>
  The package \<open>middleware\<close>: request contexts (\<open>context.go\<close>), identity functions
  (\<open>identity.go\<close>), the \<open>Middleware\<close> value (\<open>middleware.go\<close>) and its four guards
  (\<open>require.go\<close>). The guards work against the \<open>Authorizer\<close> interface, here a record of
  operations on a state \<open>'m\<close>; its contract is the locale \<open>authorizer\<close>, which any
  enforcer over a store that meets its contract satisfies.
\<close>

section \<open>Requests and responses\<close>

text \<open>
  \<open>http.Header\<close>: a map from canonical field names to values. A name with a byte that is
  not a token character is left alone, any other is put in canonical case.
\<close>

type_synonym http_header = "(string, string list) gomap"

definition token_byte :: "char \<Rightarrow> bool" where
  "token_byte c \<longleftrightarrow>
     (CHR ''0'' \<le> c \<and> c \<le> CHR ''9'') \<or> (CHR ''A'' \<le> c \<and> c \<le> CHR ''Z'') \<or>
     (CHR ''a'' \<le> c \<and> c \<le> CHR ''z'') \<or> c \<in> set ''!#$%&*+-.^_|~'' \<or> c = CHR 0x27 \<or> c = CHR 0x60"

fun canonical_case :: "bool \<Rightarrow> string \<Rightarrow> string" where
  "canonical_case upper [] = []"
| "canonical_case upper (c # cs) =
     (let c = (if upper \<and> CHR ''a'' \<le> c \<and> c \<le> CHR ''z'' then char_of (of_char c - 32 :: nat)
               else if \<not> upper \<and> CHR ''A'' \<le> c \<and> c \<le> CHR ''Z'' then char_of (of_char c + 32 :: nat)
               else c)
      in c # canonical_case (c = CHR ''-'') cs)"

definition CanonicalHeaderKey :: "string \<Rightarrow> string" where
  "CanonicalHeaderKey s = (if list_all token_byte s then canonical_case True s else s)"

definition Header_Get :: "http_header \<Rightarrow> string \<Rightarrow> string" where
  "Header_Get h key =
     (case fmlookup h (CanonicalHeaderKey key) of
        Some (v # vs) \<Rightarrow> v
      | _ \<Rightarrow> '''')"

definition Header_Set :: "string \<Rightarrow> string \<Rightarrow> http_header \<Rightarrow> http_header" where
  "Header_Set key v h = fmupd (CanonicalHeaderKey key) [v] h"

text \<open>
  A context is the chain of \<open>WithValue\<close> bindings, the innermost first. The two private key
  types of the package can be bound by the package only.
\<close>

datatype ctx_key = ContextKey | ResolvedKey | ForeignKey string
datatype ctx_value = UserValue "user option" | BoolValue bool | ForeignValue string

type_synonym go_context = "(ctx_key \<times> ctx_value) list"

definition WithValue :: "go_context \<Rightarrow> ctx_key \<Rightarrow> ctx_value \<Rightarrow> go_context" where
  "WithValue ctx k v = (k, v) # ctx"

definition WithUser :: "go_context \<Rightarrow> user option \<Rightarrow> go_context" where
  "WithUser ctx u =
     (let ctx = WithValue ctx ContextKey (UserValue u);
          ctx = WithValue ctx ResolvedKey (BoolValue True)
      in ctx)"

definition UserFromContext :: "go_context \<Rightarrow> user option" where
  "UserFromContext ctx =
     (case map_of ctx ContextKey of
        Some (UserValue u) \<Rightarrow> u
      | _ \<Rightarrow> None)"

definition alreadyResolved :: "go_context \<Rightarrow> bool" where
  "alreadyResolved ctx =
     (case map_of ctx ResolvedKey of
        Some (BoolValue b) \<Rightarrow> True
      | _ \<Rightarrow> False)"

text \<open>The parts of a request that handlers read: the header, the body, the wildcards of the
matched pattern (\<open>PathValue\<close>) and the context.\<close>

record request =
  req_header :: http_header
  req_body :: string
  req_path :: "(string \<times> string) list"
  req_ctx :: go_context

definition PathValue :: "request \<Rightarrow> string \<Rightarrow> string" where
  "PathValue r name = (case map_of (req_path r) name of None \<Rightarrow> '''' | Some v \<Rightarrow> v)"

text \<open>
  A \<open>ResponseWriter\<close>: the header map, the status line with the header as it was when the
  status was written (a second \<open>WriteHeader\<close> is ignored), and the JSON values encoded to the
  body: the object a guard writes, given by its two members \<open>error\<close> and \<open>status\<close>, or the value
  a handler writes.
\<close>

datatype body_part = FailureBody lib_error int | JsonBody json

record response =
  rs_header :: http_header
  rs_sent :: "(int \<times> http_header) option"
  rs_body :: "body_part list"

definition WriteHeader :: "int \<Rightarrow> response \<Rightarrow> response" where
  "WriteHeader status w =
     (case rs_sent w of
        Some _ \<Rightarrow> w
      | None \<Rightarrow> w\<lparr>rs_sent := Some (status, rs_header w)\<rparr>)"

abbreviation StatusUnauthorized :: int where "StatusUnauthorized \<equiv> 401"
abbreviation StatusForbidden :: int where "StatusForbidden \<equiv> 403"
abbreviation StatusInternalServerError :: int where "StatusInternalServerError \<equiv> 500"

text \<open>
  A handler reads a request, writes a response and may change the authorizer's state; it
  is \<open>None\<close> when it does not return.
\<close>

type_synonym 'm handler = "response \<Rightarrow> request \<Rightarrow> 'm \<Rightarrow> (response \<times> 'm) option"

section \<open>Identity\<close>

type_synonym identity_func = "request \<Rightarrow> lib_error + user_id"

definition HeaderIdentity :: "string \<Rightarrow> identity_func" where
  "HeaderIdentity header =
     (let header = (if header = '''' then ''X-User-ID'' else header)
      in (\<lambda>r. let uid = Header_Get (req_header r) header
               in if uid = '''' then Inl (ErrForeign (''missing identity header '' @ header))
                  else Inr uid))"

section \<open>The middleware value\<close>

record 'm authorizer_ops =
  au_Check :: "user_id \<Rightarrow> permission \<Rightarrow> 'm \<Rightarrow> (lib_error option \<times> 'm) option"
  au_HasPermission :: "user_id \<Rightarrow> permission \<Rightarrow> 'm \<Rightarrow> ((lib_error + bool) \<times> 'm) option"
  au_HasRole :: "user_id \<Rightarrow> role_id \<Rightarrow> 'm \<Rightarrow> (lib_error + bool) \<times> 'm"
  au_GetUser :: "user_id \<Rightarrow> 'm \<Rightarrow> lib_error + user"

record 'm middleware =
  mw_manager :: "'m authorizer_ops"
  mw_identity :: identity_func
  mw_OnError :: "(int \<Rightarrow> lib_error \<Rightarrow> 'm handler) option"

definition NewMiddleware ::
  "'m authorizer_ops option \<Rightarrow> identity_func option \<Rightarrow> lib_error + 'm middleware" where
  "NewMiddleware m identity =
     (case m of
        None \<Rightarrow> Inl ErrInvalidIdentityFunc
      | Some m \<Rightarrow>
          let identity = (case identity of None \<Rightarrow> HeaderIdentity '''' | Some f \<Rightarrow> f)
          in Inr \<lparr>mw_manager = m, mw_identity = identity, mw_OnError = None\<rparr>)"

text \<open>The constructor the root package exports, for a pointer to an enforcer.\<close>

definition libauth_NewMiddleware ::
  "'m authorizer_ops option \<Rightarrow> identity_func option \<Rightarrow> lib_error + 'm middleware" where
  "libauth_NewMiddleware m identity =
     (case m of
        None \<Rightarrow> Inl ErrInvalidIdentityFunc
      | Some m \<Rightarrow> NewMiddleware (Some m) identity)"

definition fail :: "'m middleware \<Rightarrow> int \<Rightarrow> lib_error \<Rightarrow> 'm handler" where
  "fail mw status err w r m =
     (case mw_OnError mw of
        Some onError \<Rightarrow> onError status err w r m
      | None \<Rightarrow>
          let w = w\<lparr>rs_header :=
                Header_Set ''Content-Type'' ''application/json; charset=utf-8'' (rs_header w)\<rparr>;
              w = WriteHeader status w;
              w = w\<lparr>rs_body := rs_body w @ [FailureBody err status]\<rparr>
          in Some (w, m))"

text \<open>
  \<open>identify\<close> and \<open>pass\<close> return the user, or \<open>None\<close> (Go's \<open>nil, false\<close>) once they have
  answered the request themselves.
\<close>

definition identify ::
  "'m middleware \<Rightarrow> response \<Rightarrow> request \<Rightarrow> 'm \<Rightarrow> (user option \<times> response \<times> 'm) option" where
  "identify mw w r m =
     (case (UserFromContext (req_ctx r), alreadyResolved (req_ctx r)) of
        (Some u, True) \<Rightarrow> Some (Some u, w, m)
      | _ \<Rightarrow>
     (case mw_identity mw r of
        Inl err \<Rightarrow> map_option (Pair None) (fail mw StatusUnauthorized err w r m)
      | Inr uid \<Rightarrow>
     (case au_GetUser (mw_manager mw) uid m of
        Inl err \<Rightarrow>
          let status = (if \<not> errors_Is err ErrUserNotFound then StatusInternalServerError
                        else StatusUnauthorized)
          in map_option (Pair None) (fail mw status err w r m)
      | Inr u \<Rightarrow> Some (Some u, w, m))))"

definition pass ::
  "'m middleware \<Rightarrow> user \<Rightarrow> permission \<Rightarrow> response \<Rightarrow> request \<Rightarrow> 'm
     \<Rightarrow> (user option \<times> response \<times> 'm) option" where
  "pass mw u perm w r m =
     (case au_Check (mw_manager mw) (ID u) perm m of
        None \<Rightarrow> None
      | Some (None, m) \<Rightarrow> Some (Some u, w, m)
      | Some (Some err, m) \<Rightarrow>
          let status = (if errors_Is err ErrUserNotFound then StatusUnauthorized
                        else StatusForbidden)
          in map_option (Pair None) (fail mw status err w r m))"

definition authorize ::
  "'m middleware \<Rightarrow> permission \<Rightarrow> response \<Rightarrow> request \<Rightarrow> 'm
     \<Rightarrow> (user option \<times> response \<times> 'm) option" where
  "authorize mw perm w r m =
     (case identify mw w r m of
        None \<Rightarrow> None
      | Some (None, w, m) \<Rightarrow> Some (None, w, m)
      | Some (Some u, w, m) \<Rightarrow> pass mw u perm w r m)"

section \<open>The guards\<close>

text \<open>The call of the guarded handler, with the user in the request's context.\<close>

definition serve_next :: "'m handler \<Rightarrow> user \<Rightarrow> 'm handler" where
  "serve_next next_h u w r m = next_h w (r\<lparr>req_ctx := WithUser (req_ctx r) (Some u)\<rparr>) m"

definition Require :: "'m middleware \<Rightarrow> permission \<Rightarrow> 'm handler \<Rightarrow> 'm handler" where
  "Require mw perm next_h w r m =
     (case authorize mw perm w r m of
        None \<Rightarrow> None
      | Some (None, w, m) \<Rightarrow> Some (w, m)
      | Some (Some u, w, m) \<Rightarrow> serve_next next_h u w r m)"

fun require_all ::
  "'m middleware \<Rightarrow> user \<Rightarrow> permission list \<Rightarrow> 'm handler \<Rightarrow> 'm handler" where
  "require_all mw u [] next_h w r m = serve_next next_h u w r m"
| "require_all mw u (p # perms) next_h w r m =
     (case pass mw u p w r m of
        None \<Rightarrow> None
      | Some (None, w, m) \<Rightarrow> Some (w, m)
      | Some (Some _, w, m) \<Rightarrow> require_all mw u perms next_h w r m)"

definition RequireAll :: "'m middleware \<Rightarrow> permission list \<Rightarrow> 'm handler \<Rightarrow> 'm handler" where
  "RequireAll mw perms next_h w r m =
     (case identify mw w r m of
        None \<Rightarrow> None
      | Some (None, w, m) \<Rightarrow> Some (w, m)
      | Some (Some u, w, m) \<Rightarrow> require_all mw u perms next_h w r m)"

text \<open>The loop of \<open>RequireAny\<close>: an error, or whether the request is denied.\<close>

fun any_granted ::
  "'m authorizer_ops \<Rightarrow> user \<Rightarrow> permission list \<Rightarrow> 'm \<Rightarrow> ((lib_error + bool) \<times> 'm) option" where
  "any_granted ops u [] m = Some (Inr True, m)"
| "any_granted ops u (p # perms) m =
     (case au_HasPermission ops (ID u) p m of
        None \<Rightarrow> None
      | Some (Inl err, m) \<Rightarrow> Some (Inl err, m)
      | Some (Inr granted, m) \<Rightarrow>
          if granted then Some (Inr False, m) else any_granted ops u perms m)"

definition RequireAny :: "'m middleware \<Rightarrow> permission list \<Rightarrow> 'm handler \<Rightarrow> 'm handler" where
  "RequireAny mw perms next_h w r m =
     (case identify mw w r m of
        None \<Rightarrow> None
      | Some (None, w, m) \<Rightarrow> Some (w, m)
      | Some (Some u, w, m) \<Rightarrow>
     (case any_granted (mw_manager mw) u perms m of
        None \<Rightarrow> None
      | Some (Inl err, m) \<Rightarrow> fail mw StatusInternalServerError err w r m
      | Some (Inr denied, m) \<Rightarrow>
          if denied then
            let required = \<lparr>Resource = ''<any>'', Action = ''''\<rparr>;
                required = (if length perms = 1 then perms ! 0 else required)
            in fail mw StatusForbidden (PermissionDeniedError (ID u) (Some u) required []) w r m
          else serve_next next_h u w r m))"

text \<open>The error of \<open>ParsePermission\<close> is dropped; the zero permission is left then.\<close>

definition RequireRole :: "'m middleware \<Rightarrow> role_id \<Rightarrow> 'm handler \<Rightarrow> 'm handler" where
  "RequireRole mw role next_h w r m =
     (case identify mw w r m of
        None \<Rightarrow> None
      | Some (None, w, m) \<Rightarrow> Some (w, m)
      | Some (Some u, w, m) \<Rightarrow>
     (case au_HasRole (mw_manager mw) (ID u) role m of
        (Inl err, m) \<Rightarrow> fail mw StatusInternalServerError err w r m
      | (Inr granted, m) \<Rightarrow>
          if \<not> granted then
            let required = (case ParsePermission (''role:'' @ role) of
                  Inl _ \<Rightarrow> \<lparr>Resource = '''', Action = ''''\<rparr>
                | Inr p \<Rightarrow> p)
            in fail mw StatusForbidden (PermissionDeniedError (ID u) (Some u) required []) w r m
          else serve_next next_h u w r m))"

lemmas guard_defs =
  identify_def pass_def authorize_def Require_def RequireAll_def RequireAny_def RequireRole_def

section \<open>What a guard should answer\<close>

text \<open>
  The verdict on a request: deny it with a status and an error, or admit it as a user.
  \<open>identified\<close> says who is asking, the others what each guard decides about that user from
  the stored users \<open>us\<close> and the access relation \<open>permits\<close>.
\<close>

datatype verdict = Deny int lib_error | Admit user

fun answer :: "'m middleware \<Rightarrow> 'm handler \<Rightarrow> verdict \<Rightarrow> 'm handler" where
  "answer mw next_h (Deny status err) = fail mw status err"
| "answer mw next_h (Admit u) = serve_next next_h u"

definition identified ::
  "(user_id, user) gomap \<Rightarrow> identity_func \<Rightarrow> request \<Rightarrow> (user \<Rightarrow> verdict) \<Rightarrow> verdict" where
  "identified us identity r decide =
     (if alreadyResolved (req_ctx r) \<and> UserFromContext (req_ctx r) \<noteq> None
      then decide (the (UserFromContext (req_ctx r)))
      else (case identity r of
          Inl err \<Rightarrow> Deny 401 err
        | Inr uid \<Rightarrow>
            (case fmlookup us uid of None \<Rightarrow> Deny 401 ErrUserNotFound | Some u \<Rightarrow> decide u)))"

definition judge_all ::
  "(user_id, user) gomap \<Rightarrow> (user \<Rightarrow> permission \<Rightarrow> bool) \<Rightarrow> (user \<Rightarrow> permission \<Rightarrow> lib_error)
     \<Rightarrow> permission list \<Rightarrow> user \<Rightarrow> verdict" where
  "judge_all us permits denial ps u =
     (case fmlookup us (ID u) of
        None \<Rightarrow> if ps = [] then Admit u else Deny 401 ErrUserNotFound
      | Some v \<Rightarrow>
          (case find (\<lambda>p. \<not> permits v p) ps of
             None \<Rightarrow> Admit u
           | Some p \<Rightarrow> Deny 403 (denial v p)))"

definition judge_any ::
  "(user_id, user) gomap \<Rightarrow> (user \<Rightarrow> permission \<Rightarrow> bool) \<Rightarrow> permission list \<Rightarrow> user \<Rightarrow> verdict" where
  "judge_any us permits ps u =
     (let none_held = Deny 403 (PermissionDeniedError (ID u) (Some u)
            (case ps of [p] \<Rightarrow> p | _ \<Rightarrow> \<lparr>Resource = ''<any>'', Action = ''''\<rparr>) []) in
      case fmlookup us (ID u) of
        None \<Rightarrow> if ps = [] then none_held else Deny 500 ErrUserNotFound
      | Some v \<Rightarrow> if list_ex (permits v) ps then Admit u else none_held)"

definition judge_role :: "(user_id, user) gomap \<Rightarrow> role_id \<Rightarrow> user \<Rightarrow> verdict" where
  "judge_role us role u =
     (case fmlookup us (ID u) of
        None \<Rightarrow> Deny 500 ErrUserNotFound
      | Some v \<Rightarrow>
          if role \<in> set (Roles v) then Admit u
          else Deny 403 (PermissionDeniedError (ID u) (Some u)
            (if role = '''' then \<lparr>Resource = '''', Action = ''''\<rparr>
             else \<lparr>Resource = ''role'', Action = role\<rparr>) []))"

lemma role_permission:
  "ParsePermission (''role:'' @ role) =
    (if role = '''' then Inl (EmptyAction ''role:'')
     else Inr \<lparr>Resource = ''role'', Action = role\<rparr>)"
  using ParsePermission_split [of "''role''" role] by simp

lemma role_required:
  "(case ParsePermission (''role:'' @ role) of
      Inl _ \<Rightarrow> \<lparr>Resource = '''', Action = ''''\<rparr> | Inr p \<Rightarrow> p) =
    (if role = '''' then \<lparr>Resource = '''', Action = ''''\<rparr>
     else \<lparr>Resource = ''role'', Action = role\<rparr>)"
  by (simp only: role_permission) simp

section \<open>The contract of an authorizer\<close>

text \<open>
  What the guards may rely on: a call returns, leaves the users and the access relation as
  they are, and answers from them.
\<close>

locale authorizer =
  fixes au :: "'m authorizer_ops"
    and users :: "'m \<Rightarrow> (user_id, user) gomap"
    and permits :: "'m \<Rightarrow> user \<Rightarrow> permission \<Rightarrow> bool"
    and denial :: "'m \<Rightarrow> user \<Rightarrow> permission \<Rightarrow> lib_error"
    and same :: "'m \<Rightarrow> 'm \<Rightarrow> bool"
    and good :: "'m \<Rightarrow> bool"
  assumes same_good: "same m m' \<Longrightarrow> good m \<Longrightarrow> good m'"
    and same_refl: "same m m"
    and same_trans: "same m m' \<Longrightarrow> same m' m'' \<Longrightarrow> same m m''"
    and same_users: "same m m' \<Longrightarrow> users m' = users m"
    and same_permits: "same m m' \<Longrightarrow> permits m' = permits m"
    and same_denial: "same m m' \<Longrightarrow> denial m' = denial m"
    and denial_is: "\<not> errors_Is (denial m u p) ErrUserNotFound"
    and au_get: "good m \<Longrightarrow> au_GetUser au uid m =
      (case fmlookup (users m) uid of None \<Rightarrow> Inl ErrUserNotFound | Some u \<Rightarrow> Inr u)"
    and au_check: "good m \<Longrightarrow> \<exists>m'. same m m' \<and> au_Check au uid p m = Some
      (case fmlookup (users m) uid of
         None \<Rightarrow> Some ErrUserNotFound
       | Some u \<Rightarrow> if permits m u p then None else Some (denial m u p), m')"
    and au_has: "good m \<Longrightarrow> \<exists>m'. same m m' \<and> au_HasPermission au uid p m = Some
      (case fmlookup (users m) uid of
         None \<Rightarrow> Inl ErrUserNotFound | Some u \<Rightarrow> Inr (permits m u p), m')"
    and au_role: "good m \<Longrightarrow> \<exists>m'. same m m' \<and> au_HasRole au uid role m =
      (case fmlookup (users m) uid of
         None \<Rightarrow> Inl ErrUserNotFound | Some u \<Rightarrow> Inr (role \<in> set (Roles u)), m')"
begin

text \<open>Who is asking is settled without a change of state.\<close>

lemma identify_cases:
  assumes "good m" and "mw_manager mw = au"
  shows "(\<exists>u. identify mw w r m = Some (Some u, w, m) \<and>
        (\<forall>decide. identified (users m) (mw_identity mw) r decide = decide u)) \<or>
    (\<exists>status err. identify mw w r m = map_option (Pair None) (fail mw status err w r m) \<and>
        (\<forall>decide. identified (users m) (mw_identity mw) r decide = Deny status err))"
  using assms
  by (cases "alreadyResolved (req_ctx r)"; cases "UserFromContext (req_ctx r)")
    (auto simp: identify_def identified_def au_get split: option.split sum.split)

lemma pass_cases:
  assumes "good m" and "mw_manager mw = au"
  shows "\<exists>m'. same m m' \<and> pass mw u p w r m =
    (case judge_all (users m) (permits m) (denial m) [p] u of
       Admit v \<Rightarrow> Some (Some v, w, m')
     | Deny status err \<Rightarrow> map_option (Pair None) (fail mw status err w r m'))"
  using au_check [OF assms(1), of "ID u" p] assms(2)
  by (auto simp: pass_def judge_all_def denial_is split: option.split)

text \<open>What all four guards share: they identify the caller, then decide.\<close>

lemma guarded:
  assumes "good m" and "mw_manager mw = au"
    and body: "\<And>u. \<exists>m'. same m m' \<and> body u w r m = answer mw next_h (decide u) w r m'"
    and guard: "guard = (case identify mw w r m of
        None \<Rightarrow> None
      | Some (None, w, m) \<Rightarrow> Some (w, m)
      | Some (Some u, w, m) \<Rightarrow> body u w r m)"
  shows "\<exists>m'. same m m' \<and>
    guard = answer mw next_h (identified (users m) (mw_identity mw) r decide) w r m'"
  using identify_cases [OF assms(1,2), of w r]
proof (elim disjE exE conjE)
  fix u
  assume "identify mw w r m = Some (Some u, w, m)"
    and "\<forall>decide. identified (users m) (mw_identity mw) r decide = decide u"
  then show ?thesis
    using body [of u] by (simp add: guard)
next
  fix status err
  assume "identify mw w r m = map_option (Pair None) (fail mw status err w r m)"
    and "\<forall>decide. identified (users m) (mw_identity mw) r decide = Deny status err"
  then show ?thesis
    by (intro exI [of _ m]) (auto simp: guard same_refl split: option.split)
qed

lemma require_all_correct:
  assumes "good m" and "mw_manager mw = au"
  shows "\<exists>m'. same m m' \<and> require_all mw u ps next_h w r m =
    answer mw next_h (judge_all (users m) (permits m) (denial m) ps u) w r m'"
  using assms(1)
proof (induction ps arbitrary: m)
  case Nil
  then show ?case
    using same_refl by (auto simp: judge_all_def split: option.split)
next
  case (Cons p ps)
  obtain m1 where m1: "same m m1" and pass: "pass mw u p w r m =
    (case judge_all (users m) (permits m) (denial m) [p] u of
       Admit v \<Rightarrow> Some (Some v, w, m1)
     | Deny status err \<Rightarrow> map_option (Pair None) (fail mw status err w r m1))"
    using pass_cases [OF Cons.prems assms(2)] by blast
  obtain m2 where m2: "same m1 m2" and rest: "require_all mw u ps next_h w r m1 =
    answer mw next_h (judge_all (users m) (permits m) (denial m) ps u) w r m2"
    using Cons.IH [OF same_good [OF m1 Cons.prems]]
    by (auto simp: same_users [OF m1] same_permits [OF m1] same_denial [OF m1])
  show ?case
  proof (cases "judge_all (users m) (permits m) (denial m) [p] u")
    case (Deny status err)
    then have "judge_all (users m) (permits m) (denial m) (p # ps) u = Deny status err"
      by (auto simp: judge_all_def split: option.splits if_splits)
    with Deny pass m1 show ?thesis
      by (intro exI [of _ m1]) (auto split: option.split)
  next
    case (Admit v)
    then have "judge_all (users m) (permits m) (denial m) (p # ps) u =
        judge_all (users m) (permits m) (denial m) ps u"
      by (auto simp: judge_all_def split: option.splits if_splits)
    with Admit pass rest show ?thesis
      using same_trans [OF m1 m2] by auto
  qed
qed

lemma pass_user: "pass mw u p w r m = Some (Some v, w', m') \<Longrightarrow> v = u"
  by (auto simp: pass_def Let_def split: option.splits)

lemma Require_all_one: "Require mw p next_h = RequireAll mw [p] next_h"
  by (intro ext)
    (auto simp: Require_def RequireAll_def authorize_def split: option.split prod.split
      dest: pass_user)

lemma RequireAll_correct:
  assumes "good m" and "mw_manager mw = au"
  shows "\<exists>m'. same m m' \<and> RequireAll mw ps next_h w r m =
    answer mw next_h (identified (users m) (mw_identity mw) r
      (judge_all (users m) (permits m) (denial m) ps)) w r m'"
  by (rule guarded [OF assms, where body = "\<lambda>u. require_all mw u ps next_h"])
    (use require_all_correct [OF assms] in \<open>auto simp: RequireAll_def\<close>)

lemma Require_correct:
  assumes "good m" and "mw_manager mw = au"
  shows "\<exists>m'. same m m' \<and> Require mw p next_h w r m =
    answer mw next_h (identified (users m) (mw_identity mw) r
      (judge_all (users m) (permits m) (denial m) [p])) w r m'"
  unfolding Require_all_one by (rule RequireAll_correct [OF assms])

lemma any_granted_correct:
  assumes "good m"
  shows "\<exists>m'. same m m' \<and> any_granted au u ps m = Some
    (case fmlookup (users m) (ID u) of
       None \<Rightarrow> if ps = [] then Inr True else Inl ErrUserNotFound
     | Some v \<Rightarrow> Inr (\<not> list_ex (permits m v) ps), m')"
  using assms
proof (induction ps arbitrary: m)
  case Nil
  then show ?case
    using same_refl by (auto split: option.split)
next
  case (Cons p ps)
  obtain m1 where m1: "same m m1" and has: "au_HasPermission au (ID u) p m = Some
      (case fmlookup (users m) (ID u) of
         None \<Rightarrow> Inl ErrUserNotFound | Some u \<Rightarrow> Inr (permits m u p), m1)"
    using au_has [OF Cons.prems] by blast
  show ?case
    using Cons.IH [OF same_good [OF m1 Cons.prems]] m1 same_trans [OF m1]
    by (auto simp: has same_users [OF m1] same_permits [OF m1] split: option.split)
qed

lemma RequireAny_correct:
  assumes "good m" and "mw_manager mw = au"
  shows "\<exists>m'. same m m' \<and> RequireAny mw ps next_h w r m =
    answer mw next_h (identified (users m) (mw_identity mw) r
      (judge_any (users m) (permits m) ps)) w r m'"
proof (rule guarded [OF assms])
  fix u
  let ?body = "\<lambda>u w r m. case any_granted (mw_manager mw) u ps m of
        None \<Rightarrow> None
      | Some (Inl err, m) \<Rightarrow> fail mw StatusInternalServerError err w r m
      | Some (Inr denied, m) \<Rightarrow>
          if denied then
            fail mw StatusForbidden (PermissionDeniedError (ID u) (Some u)
              (case ps of [p] \<Rightarrow> p | _ \<Rightarrow> \<lparr>Resource = ''<any>'', Action = ''''\<rparr>) []) w r m
          else serve_next next_h u w r m"
  show "\<exists>m'. same m m' \<and> ?body u w r m =
      answer mw next_h (judge_any (users m) (permits m) ps u) w r m'"
    using any_granted_correct [OF assms(1), of u ps] assms(2)
    by (auto simp: judge_any_def split: option.split)
  have pick: "(if length ps = 1 then ps ! 0 else x) = (case ps of [p] \<Rightarrow> p | _ \<Rightarrow> x)" for x
    by (cases ps) (auto split: list.split)
  show "RequireAny mw ps next_h w r m = (case identify mw w r m of
        None \<Rightarrow> None
      | Some (None, w, m) \<Rightarrow> Some (w, m)
      | Some (Some u, w, m) \<Rightarrow> ?body u w r m)"
    unfolding RequireAny_def Let_def pick ..
qed

lemma RequireRole_correct:
  assumes "good m" and "mw_manager mw = au"
  shows "\<exists>m'. same m m' \<and> RequireRole mw role next_h w r m =
    answer mw next_h (identified (users m) (mw_identity mw) r
      (judge_role (users m) role)) w r m'"
proof (rule guarded [OF assms])
  fix u
  let ?body = "\<lambda>u w r m. case au_HasRole (mw_manager mw) (ID u) role m of
        (Inl err, m) \<Rightarrow> fail mw StatusInternalServerError err w r m
      | (Inr granted, m) \<Rightarrow>
          if \<not> granted then
            fail mw StatusForbidden (PermissionDeniedError (ID u) (Some u)
              (if role = '''' then \<lparr>Resource = '''', Action = ''''\<rparr>
               else \<lparr>Resource = ''role'', Action = role\<rparr>) []) w r m
          else serve_next next_h u w r m"
  show "\<exists>m'. same m m' \<and> ?body u w r m =
      answer mw next_h (judge_role (users m) role u) w r m'"
    using au_role [OF assms(1), of "ID u" role] assms(2)
    by (auto simp: judge_role_def split: option.split)
  show "RequireRole mw role next_h w r m = (case identify mw w r m of
        None \<Rightarrow> None
      | Some (None, w, m) \<Rightarrow> Some (w, m)
      | Some (Some u, w, m) \<Rightarrow> ?body u w r m)"
    unfolding RequireRole_def Let_def role_required ..
qed

end

section \<open>The enforcer is an authorizer\<close>

definition enforcer_authorizer :: "'s store_ops \<Rightarrow> 's enforcer authorizer_ops" where
  "enforcer_authorizer ops =
     \<lparr>au_Check = Check ops, au_HasPermission = HasPermission ops, au_HasRole = HasRole ops,
      au_GetUser = GetUser ops\<rparr>"

text \<open>The guards' client lemmas then hold for every enforcer whose store keeps its contract.\<close>

sublocale store_contract \<subseteq> guards: authorizer "enforcer_authorizer ops"
  "\<lambda>e. uof (e_store e)"
  "\<lambda>e u q. allowed (rof (e_store e)) u q"
  "\<lambda>e u q. PermissionDeniedError (ID u) (Some u) q
     (sorted_list_of_set (effective_roles (rof (e_store e)) (Roles u)))"
  "\<lambda>e e'. fills (uof (e_store e)) (rof (e_store e)) e e'"
  "\<lambda>e. ok (e_store e) \<and> enforcer_inv (uof (e_store e)) (rof (e_store e)) e \<and>
     cache_coherent (uof (e_store e)) (rof (e_store e)) e"
proof (unfold_locales, goal_cases)
  case (1 e e')
  then show ?case
    using fills_inv [of "users_in e" "roles_in e" e e'] fills_cache_coherent fills_frame(1)
    by metis
next
  case (3 e e' e'')
  then show ?case
    using fills_trans fills_frame(1) by metis
next
  case (9 e uid q)
  then have "coherent_at (users_in e) (roles_in e) e uid"
    by (simp add: cache_coherent_def)
  then show ?case
    using Check_correct [of e uid q] user_key [of "e_store e" uid] 9
    by (auto simp: enforcer_authorizer_def split: option.splits)
next
  case (10 e uid q)
  then have "coherent_at (users_in e) (roles_in e) e uid"
    by (simp add: cache_coherent_def)
  then show ?case
    using HasPermission_correct [of e uid q] 10 by (auto simp: enforcer_authorizer_def)
next
  case (11 e uid role)
  then have "direct_at (users_in e) e uid"
    by (simp add: enforcer_inv_def direct_exact_def)
  then show ?case
    using HasRole_correct [of e uid role] 11 by (auto simp: enforcer_authorizer_def)
qed (auto simp: fills_frame(1) enforcer_authorizer_def GetUser_def get_user)

lemma fresh_guards_good:
  "safe_reachable ms_users ms_roles memory_ops (fresh_enforcer depths) e \<Longrightarrow>
     memory_ok (e_store e) \<and> enforcer_inv (ms_users (e_store e)) (ms_roles (e_store e)) e \<and>
     cache_coherent (ms_users (e_store e)) (ms_roles (e_store e)) e"
  using fresh_safe_coherent by blast

lemmas mem_guards =
  mem.guards.Require_correct mem.guards.RequireAll_correct
  mem.guards.RequireAny_correct mem.guards.RequireRole_correct

end
