(* ===== verification/Http_Properties.thy ===== *)
theory Http_Properties
  imports Http_Middleware Authz_Properties
begin

text \<open>
  The guards in front of an enforcer over the memory store: which requests reach the guarded
  handler, as whom, and what the others are answered.
\<close>

abbreviation mem_authorizer :: "memory_store enforcer authorizer_ops" where
  "mem_authorizer \<equiv> enforcer_authorizer memory_ops"

text \<open>The denial \<open>Check\<close> returns, and access as stored.\<close>

abbreviation stored_denial :: "memory_store enforcer \<Rightarrow> user \<Rightarrow> permission \<Rightarrow> lib_error" where
  "stored_denial e u q \<equiv> PermissionDeniedError (ID u) (Some u) q
     (sorted_list_of_set (effective_roles (ms_roles (e_store e)) (Roles u)))"

text \<open>A middleware, a request and a handler for the witnesses.\<close>

definition demo_mw :: "memory_store enforcer middleware" where
  "demo_mw =
     \<lparr>mw_manager = mem_authorizer, mw_identity = HeaderIdentity '''', mw_OnError = None\<rparr>"

definition request_of :: "string \<Rightarrow> request" where
  "request_of uid = \<lparr>req_header = Header_Set ''x-user-id'' uid fmempty, req_body = '''', req_path = [],
     req_ctx = []\<rparr>"

definition blank :: response where
  "blank = \<lparr>rs_header = fmempty, rs_sent = None, rs_body = []\<rparr>"

definition teapot :: "'m handler" where
  "teapot w r m = Some (WriteHeader 418 w, m)"

definition status_of :: "(response \<times> 'm) option \<Rightarrow> int option" where
  "status_of res = (case res of None \<Rightarrow> None | Some (w, m) \<Rightarrow> map_option fst (rs_sent w))"

lemma demo_manager: "mw_manager demo_mw = mem_authorizer"
  by (simp add: demo_mw_def)

section \<open>The guards\<close>

text \<open>C6: After safe operations \<open>Require\<close>, for its permission, and \<open>RequireAll\<close>, for a list of them, serve
a request exactly if its caller is identified, is a stored user and is allowed every listed permission
by the stored grants; the handler then sees the user in the context. Otherwise the answer is 401 with
the identity error or \<open>ErrUserNotFound\<close>, or 403 with the denial of the first permission that is missing.
The store is not changed. (With an empty list \<open>RequireAll\<close> asks the authorizer nothing, so a user that
an outer guard has put into the context passes without being looked up again.)\<close>

theorem require_all_exact:
  assumes "safe_reachable ms_users ms_roles memory_ops (fresh_enforcer depths) e"
    and "mw_manager mw = mem_authorizer"
  shows "(\<exists>e'. e_store e' = e_store e \<and> Require mw p next_h w r e =
      answer mw next_h (identified (ms_users (e_store e)) (mw_identity mw) r
        (judge_all (ms_users (e_store e)) (allowed (ms_roles (e_store e))) (stored_denial e) [p])) w r e') \<and>
    (\<exists>e'. e_store e' = e_store e \<and> RequireAll mw ps next_h w r e =
      answer mw next_h (identified (ms_users (e_store e)) (mw_identity mw) r
        (judge_all (ms_users (e_store e)) (allowed (ms_roles (e_store e))) (stored_denial e) ps)) w r e')"
  using mem.guards.Require_correct [OF fresh_guards_good [OF assms(1)] assms(2), of p next_h w r]
    mem.guards.RequireAll_correct [OF fresh_guards_good [OF assms(1)] assms(2), of ps next_h w r]
  by (auto dest: fills_frame(1))

theorem require_all_exact_witness:
  "(\<exists>e'. e_store e' = e_store (after staff) \<and>
     RequireAll demo_mw [perm ''article'' ''edit'', perm ''article'' ''read''] teapot blank
       (request_of ''bob'') (after staff) =
     answer demo_mw teapot (identified (ms_users (e_store (after staff))) (mw_identity demo_mw)
       (request_of ''bob'') (judge_all (ms_users (e_store (after staff)))
         (allowed (ms_roles (e_store (after staff)))) (stored_denial (after staff))
         [perm ''article'' ''edit'', perm ''article'' ''read''])) blank (request_of ''bob'') e') \<and>
   (\<exists>e'. e_store e' = e_store (after staff) \<and>
     Require demo_mw (perm ''article'' ''delete'') teapot blank (request_of ''bob'') (after staff) =
     answer demo_mw teapot (identified (ms_users (e_store (after staff))) (mw_identity demo_mw)
       (request_of ''bob'') (judge_all (ms_users (e_store (after staff)))
         (allowed (ms_roles (e_store (after staff)))) (stored_denial (after staff))
         [perm ''article'' ''delete''])) blank (request_of ''bob'') e') \<and>
   status_of (Require demo_mw (perm ''article'' ''delete'') teapot blank (request_of ''bob'') (after staff)) = Some 403 \<and>
   status_of (RequireAll demo_mw [perm ''article'' ''edit'', perm ''article'' ''read''] teapot blank
       (request_of ''bob'') (after staff)) = Some 418"
proof -
  have "status_of (RequireAll demo_mw [perm ''article'' ''edit'', perm ''article'' ''read''] teapot
      blank (request_of ''bob'') (after staff)) = Some 418"
    and "status_of (Require demo_mw (perm ''article'' ''delete'') teapot blank (request_of ''bob'') (after staff)) = Some 403"
    by code_simp+
  then show ?thesis
    using require_all_exact [OF safely_reachable [OF safely_staff] demo_manager] by blast
qed

text \<open>After safe operations \<open>RequireAny\<close> serves a request exactly if its caller is identified, is a
stored user and is allowed one of the listed permissions by the stored grants; a known user who is
allowed none, or an empty list, is answered 403 naming the single permission or \<open><any>\<close>.\<close>

theorem require_any_exact:
  assumes "safe_reachable ms_users ms_roles memory_ops (fresh_enforcer depths) e"
    and "mw_manager mw = mem_authorizer"
  shows "\<exists>e'. e_store e' = e_store e \<and> RequireAny mw ps next_h w r e =
    answer mw next_h (identified (ms_users (e_store e)) (mw_identity mw) r
      (judge_any (ms_users (e_store e)) (allowed (ms_roles (e_store e))) ps)) w r e'"
  using mem.guards.RequireAny_correct [OF fresh_guards_good [OF assms(1)] assms(2), of ps next_h w r]
  by (auto dest: fills_frame(1))

theorem require_any_exact_witness:
  "\<exists>e'. RequireAny demo_mw [] teapot blank (request_of ''bob'') (after staff) =
     answer demo_mw teapot (identified (ms_users (e_store (after staff))) (mw_identity demo_mw)
       (request_of ''bob'') (judge_any (ms_users (e_store (after staff)))
         (allowed (ms_roles (e_store (after staff)))) [])) blank (request_of ''bob'') e'"
  using require_any_exact [OF safely_reachable [OF safely_staff] demo_manager] by blast

text \<open>After safe operations \<open>RequireRole\<close> serves a request exactly if its caller is
identified, is a stored user and holds the role directly (inheriting it is not enough); a known user
who does not is answered 403, naming the role as the permission \<open>role:<name>\<close>.\<close>

theorem require_role_exact:
  assumes "safe_reachable ms_users ms_roles memory_ops (fresh_enforcer depths) e"
    and "mw_manager mw = mem_authorizer"
  shows "\<exists>e'. e_store e' = e_store e \<and> RequireRole mw role next_h w r e =
    answer mw next_h (identified (ms_users (e_store e)) (mw_identity mw) r
      (judge_role (ms_users (e_store e)) role)) w r e'"
  using mem.guards.RequireRole_correct [OF fresh_guards_good [OF assms(1)] assms(2), of role next_h w r]
  by (auto dest: fills_frame(1))

theorem require_role_exact_witness:
  "(\<exists>e'. RequireRole demo_mw ''reader'' teapot blank (request_of ''bob'') (after staff) =
     answer demo_mw teapot (identified (ms_users (e_store (after staff))) (mw_identity demo_mw)
       (request_of ''bob'') (judge_role (ms_users (e_store (after staff))) ''reader''))
       blank (request_of ''bob'') e') \<and>
   status_of (RequireRole demo_mw ''reader'' teapot blank (request_of ''bob'') (after staff)) = Some 403"
proof
  show "status_of (RequireRole demo_mw ''reader'' teapot blank (request_of ''bob'') (after staff)) = Some 403"
    by code_simp
qed (use require_role_exact [OF safely_reachable [OF safely_staff] demo_manager] in blast)

section \<open>Nested guards and errors\<close>

text \<open>Once a guard has let a request through, every further guard on the way takes the user from
the context: it asks neither its identity function nor the store, whatever they would say, and the
handler reads that user with \<open>UserFromContext\<close>.\<close>

theorem nested_guard_trusts_context:
  "identify mw w (r\<lparr>req_ctx := WithUser (req_ctx r) (Some u)\<rparr>) m = Some (Some u, w, m) \<and>
   UserFromContext (WithUser (req_ctx r) (Some u)) = Some u"
  by (simp add: identify_def WithUser_def WithValue_def UserFromContext_def alreadyResolved_def)

text \<open>The guards disagree about a user who was resolved by an outer guard and is not in the store
any more: \<open>Require\<close> answers 401, but \<open>RequireRole\<close> and \<open>RequireAny\<close> (of at least one
permission) answer 500, with the same error \<open>ErrUserNotFound\<close>.\<close>

theorem missing_user_status_differs:
  assumes e: "safe_reachable ms_users ms_roles memory_ops (fresh_enforcer depths) e"
    and mw: "mw_manager mw = mem_authorizer"
    and ctx: "alreadyResolved (req_ctx r)" "UserFromContext (req_ctx r) = Some u"
    and missing: "fmlookup (ms_users (e_store e)) (ID u) = None"
  shows "(\<exists>e1. Require mw p next_h w r e = fail mw 401 ErrUserNotFound w r e1) \<and>
    (\<exists>e2. RequireAny mw (p # ps) next_h w r e = fail mw 500 ErrUserNotFound w r e2) \<and>
    (\<exists>e3. RequireRole mw role next_h w r e = fail mw 500 ErrUserNotFound w r e3)"
  using mem.guards.Require_correct [OF fresh_guards_good [OF e] mw, of p next_h w r]
    mem.guards.RequireAny_correct [OF fresh_guards_good [OF e] mw, of "p # ps" next_h w r]
    mem.guards.RequireRole_correct [OF fresh_guards_good [OF e] mw, of role next_h w r]
  by (auto simp: identified_def ctx missing judge_all_def judge_any_def judge_role_def)

theorem missing_user_status_differs_witness:
  "\<exists>e3. RequireRole demo_mw ''reader'' teapot blank
     \<lparr>req_header = fmempty, req_body = '''', req_path = [], req_ctx = WithUser [] (Some \<lparr>ID = ''zoe'', Roles = [''reader''], Direct = []\<rparr>)\<rparr>
     (after staff) =
   fail demo_mw 500 ErrUserNotFound blank
     \<lparr>req_header = fmempty, req_body = '''', req_path = [], req_ctx = WithUser [] (Some \<lparr>ID = ''zoe'', Roles = [''reader''], Direct = []\<rparr>)\<rparr> e3"
proof -
  let ?zoe = "\<lparr>ID = ''zoe'', Roles = [''reader''], Direct = []\<rparr>"
  let ?r = "\<lparr>req_header = fmempty, req_body = '''', req_path = [], req_ctx = WithUser [] (Some ?zoe)\<rparr>"
  have "alreadyResolved (req_ctx ?r)" and "UserFromContext (req_ctx ?r) = Some ?zoe"
    by (simp_all add: WithUser_def WithValue_def alreadyResolved_def UserFromContext_def)
  moreover have "fmlookup (ms_users (e_store (after staff))) (ID ?zoe) = None"
    by code_simp
  ultimately show ?thesis
    using missing_user_status_differs [OF safely_reachable [OF safely_staff] demo_manager, of ?r ?zoe]
    by blast
qed

text \<open>A failure of the store is told apart from a refusal while the caller is identified, but not
while the permission is checked: over a store whose role lookups fail, \<open>Require\<close> answers 403, and
over one whose user lookups fail it answers 500.\<close>

theorem store_failure_answered_as_denial:
  "let disk = ErrForeign ''disk'';
       no_roles = memory_ops\<lparr>st_GetRole := \<lambda>r s. Inl disk\<rparr>;
       no_users = memory_ops\<lparr>st_GetUser := \<lambda>uid s. Inl disk\<rparr>;
       e = New (e_store (after staff)) [];
       guarded = (\<lambda>ops. status_of (Require (demo_mw\<lparr>mw_manager := enforcer_authorizer ops\<rparr>)
         (perm ''article'' ''read'') teapot blank (request_of ''ann'') e)) in
     guarded no_roles = Some 403 \<and> guarded no_users = Some 500 \<and> guarded memory_ops = Some 418"
  by code_simp

end
