(* ===== verification/File_Store.thy ===== *)
theory File_Store
  imports Authz_Properties Json_Lexer
begin

text \<open>
  The persistent store of \<open>_examples/customstore\<close>: a memory store that writes itself to a
  JSON file after every mutation and is reloaded from it. It is the second implementation
  of the \<open>Store\<close> interface, and meets the contract as long as the disk does not fail.
\<close>

section \<open>The file\<close>

text \<open>
  What a JSON file can hold, up to the text of the encoding: nothing that can be read and decoded
  (both are errors of \<open>newFileStore\<close>; a missing file is not), or a dump without \<open>null\<close> entries
  whose permissions are the texts \<open>MarshalText\<close> made of them. The encoder replaces every byte
  that is not part of a UTF-8 sequence (\<open>to_valid_utf8\<close>).
\<close>

record user_dump =
  ud_id :: string
  ud_roles :: "string list"
  ud_direct :: "string list"

record role_dump =
  rd_name :: string
  rd_permissions :: "string list"
  rd_parent :: string

datatype file_content =
    NoFile
  | Garbage
  | Dump "user_dump list" "role_dump list"

text \<open>
  The disk: the file, and what the coming writes do. \<open>Some c\<close> is a write that fails and leaves
  the content \<open>c\<close>, \<open>None\<close> one that succeeds; when the list is used up all succeed.
\<close>

record disk =
  dk_content :: file_content
  dk_faults :: "file_content option list"

definition WriteFile :: "file_content \<Rightarrow> disk \<Rightarrow> lib_error option \<times> disk" where
  "WriteFile c d =
     (case dk_faults d of
        Some left # rest \<Rightarrow> (Some (ErrForeign ''write''), \<lparr>dk_content = left, dk_faults = rest\<rparr>)
      | None # rest \<Rightarrow> (None, \<lparr>dk_content = c, dk_faults = rest\<rparr>)
      | [] \<Rightarrow> (None, \<lparr>dk_content = c, dk_faults = []\<rparr>))"

text \<open>The texts of a list of permissions, and the permissions a list of texts is read as.\<close>

definition marshal_permission :: "permission \<Rightarrow> string" where
  "marshal_permission p = (case MarshalText p of Inl _ \<Rightarrow> '''' | Inr text \<Rightarrow> text)"

fun unmarshal_permissions :: "string list \<Rightarrow> permission list option" where
  "unmarshal_permissions [] = Some []"
| "unmarshal_permissions (text # texts) =
     (case UnmarshalText \<lparr>Resource = '''', Action = ''''\<rparr> text of
        (Some err, p) \<Rightarrow> None
      | (None, p) \<Rightarrow> map_option ((#) p) (unmarshal_permissions texts))"

definition dump_user :: "user \<Rightarrow> user_dump" where
  "dump_user u =
     \<lparr>ud_id = to_valid_utf8 (ID u), ud_roles = map to_valid_utf8 (Roles u),
      ud_direct = map (\<lambda>p. to_valid_utf8 (marshal_permission p)) (Direct u)\<rparr>"

definition dump_role :: "role \<Rightarrow> role_dump" where
  "dump_role x =
     \<lparr>rd_name = to_valid_utf8 (Name x),
      rd_permissions = map (\<lambda>p. to_valid_utf8 (marshal_permission p)) (Permissions x),
      rd_parent = to_valid_utf8 (Parent x)\<rparr>"

definition undump_user :: "user_dump \<Rightarrow> user option" where
  "undump_user d =
     map_option (\<lambda>ps. \<lparr>ID = ud_id d, Roles = ud_roles d, Direct = ps\<rparr>)
       (unmarshal_permissions (ud_direct d))"

definition undump_role :: "role_dump \<Rightarrow> role option" where
  "undump_role d =
     map_option (\<lambda>ps. \<lparr>Name = rd_name d, Permissions = ps, Parent = rd_parent d\<rparr>)
       (unmarshal_permissions (rd_permissions d))"

section \<open>The store\<close>

record file_store =
  fs_mem :: memory_store
  fs_disk :: disk

text \<open>Filling a memory store from a dump; an object that exists already is passed over.\<close>

fun load_roles :: "role list \<Rightarrow> memory_store \<Rightarrow> lib_error + memory_store" where
  "load_roles [] m = Inr m"
| "load_roles (r # rs) m =
     (case CreateRole_mem (Some r) m of
        (Some err, m) \<Rightarrow> if \<not> errors_Is err ErrRoleExists then Inl err else load_roles rs m
      | (None, m) \<Rightarrow> load_roles rs m)"

fun load_users :: "user list \<Rightarrow> memory_store \<Rightarrow> lib_error + memory_store" where
  "load_users [] m = Inr m"
| "load_users (u # us) m =
     (case CreateUser_mem (Some u) m of
        (Some err, m) \<Rightarrow> if \<not> errors_Is err ErrUserExists then Inl err else load_users us m
      | (None, m) \<Rightarrow> load_users us m)"

definition newFileStore :: "disk \<Rightarrow> lib_error + file_store" where
  "newFileStore d =
     (case dk_content d of
        NoFile \<Rightarrow> Inr \<lparr>fs_mem = NewMemoryStore, fs_disk = d\<rparr>
      | Garbage \<Rightarrow> Inl (ErrForeign ''unmarshal'')
      | Dump us rs \<Rightarrow>
          (case (those (map undump_user us), those (map undump_role rs)) of
             (Some users, Some roles) \<Rightarrow>
               (case load_roles roles NewMemoryStore of
                  Inl err \<Rightarrow> Inl err
                | Inr m \<Rightarrow>
               (case load_users users m of
                  Inl err \<Rightarrow> Inl err
                | Inr m \<Rightarrow> Inr \<lparr>fs_mem = m, fs_disk = d\<rparr>))
           | _ \<Rightarrow> Inl (ErrForeign ''unmarshal'')))"

definition save :: "file_store \<Rightarrow> lib_error option \<times> file_store" where
  "save fs =
     (case ListUsers_mem sorted_list_of_fset (fs_mem fs) of
        Inl err \<Rightarrow> (Some err, fs)
      | Inr users \<Rightarrow>
     (case ListRoles_mem sorted_list_of_fset (fs_mem fs) of
        Inl err \<Rightarrow> (Some err, fs)
      | Inr roles \<Rightarrow>
          let (err, d) = WriteFile (Dump (map dump_user users) (map dump_role roles)) (fs_disk fs)
          in (err, fs\<lparr>fs_disk := d\<rparr>)))"

text \<open>The six mutations have one shape: mutate the memory store, then save.\<close>

definition then_save ::
  "(memory_store \<Rightarrow> lib_error option \<times> memory_store) \<Rightarrow> file_store \<Rightarrow> lib_error option \<times> file_store" where
  "then_save f fs =
     (case f (fs_mem fs) of
        (Some err, m) \<Rightarrow> (Some err, fs\<lparr>fs_mem := m\<rparr>)
      | (None, m) \<Rightarrow> save (fs\<lparr>fs_mem := m\<rparr>))"

definition CreateUser_file :: "user option \<Rightarrow> file_store \<Rightarrow> lib_error option \<times> file_store" where
  "CreateUser_file u = then_save (CreateUser_mem u)"

definition UpdateUser_file :: "user option \<Rightarrow> file_store \<Rightarrow> lib_error option \<times> file_store" where
  "UpdateUser_file u = then_save (UpdateUser_mem u)"

definition DeleteUser_file :: "user_id \<Rightarrow> file_store \<Rightarrow> lib_error option \<times> file_store" where
  "DeleteUser_file uid = then_save (DeleteUser_mem uid)"

definition CreateRole_file :: "role option \<Rightarrow> file_store \<Rightarrow> lib_error option \<times> file_store" where
  "CreateRole_file r = then_save (CreateRole_mem r)"

definition UpdateRole_file :: "role option \<Rightarrow> file_store \<Rightarrow> lib_error option \<times> file_store" where
  "UpdateRole_file r = then_save (UpdateRole_mem r)"

definition DeleteRole_file :: "role_id \<Rightarrow> file_store \<Rightarrow> lib_error option \<times> file_store" where
  "DeleteRole_file name = then_save (DeleteRole_mem name)"

text \<open>The reads are those of the embedded memory store.\<close>

definition file_ops :: "file_store store_ops" where
  "file_ops =
     \<lparr>st_CreateUser = CreateUser_file, st_UpdateUser = UpdateUser_file,
      st_GetUser = (\<lambda>uid fs. GetUser_mem uid (fs_mem fs)), st_DeleteUser = DeleteUser_file,
      st_ListUsers = (\<lambda>fs. ListUsers_mem sorted_list_of_fset (fs_mem fs)),
      st_CreateRole = CreateRole_file, st_UpdateRole = UpdateRole_file,
      st_GetRole = (\<lambda>r fs. GetRole_mem r (fs_mem fs)), st_DeleteRole = DeleteRole_file,
      st_ListRoles = (\<lambda>fs. ListRoles_mem sorted_list_of_fset (fs_mem fs))\<rparr>"

lemmas file_defs =
  CreateUser_file_def UpdateUser_file_def DeleteUser_file_def
  CreateRole_file_def UpdateRole_file_def DeleteRole_file_def file_ops_def

section \<open>With a disk that works\<close>

definition dump_of :: "memory_store \<Rightarrow> file_content" where
  "dump_of m =
     (case (ListUsers_mem sorted_list_of_fset m, ListRoles_mem sorted_list_of_fset m) of
        (Inr us, Inr rs) \<Rightarrow> Dump (map dump_user us) (map dump_role rs)
      | _ \<Rightarrow> Garbage)"

lemma save_effect:
  "save fs = (let (err, d) = WriteFile (dump_of (fs_mem fs)) (fs_disk fs) in (err, fs\<lparr>fs_disk := d\<rparr>))"
  by (simp add: save_def dump_of_def ListUsers_mem_def ListRoles_mem_def Let_def)

lemma fs_mem_save [simp]: "fs_mem (snd (save fs)) = fs_mem fs"
  by (simp add: save_effect split_beta Let_def)

lemma then_save_mem [simp]: "fs_mem (snd (then_save f fs)) = snd (f (fs_mem fs))"
  by (simp add: then_save_def split: prod.split option.split)

lemma then_save_works:
  assumes "dk_faults (fs_disk fs) = []"
  shows "fst (then_save f fs) = fst (f (fs_mem fs))"
    and "dk_faults (fs_disk (snd (then_save f fs))) = []"
  using assms
  by (simp_all add: then_save_def save_effect WriteFile_def split: prod.split option.split)

definition file_ok :: "file_store \<Rightarrow> bool" where
  "file_ok fs \<longleftrightarrow> memory_ok (fs_mem fs) \<and> dk_faults (fs_disk fs) = []"

lemma file_reads:
  "st_GetUser file_ops uid fs = st_GetUser memory_ops uid (fs_mem fs)"
  "st_GetRole file_ops r fs = st_GetRole memory_ops r (fs_mem fs)"
  "st_ListUsers file_ops fs = st_ListUsers memory_ops (fs_mem fs)"
  "st_ListRoles file_ops fs = st_ListRoles memory_ops (fs_mem fs)"
  by (simp_all add: file_ops_def memory_ops_def)

lemma file_writes:
  "st_CreateUser file_ops u = then_save (st_CreateUser memory_ops u)"
  "st_UpdateUser file_ops u = then_save (st_UpdateUser memory_ops u)"
  "st_DeleteUser file_ops uid = then_save (st_DeleteUser memory_ops uid)"
  "st_CreateRole file_ops x = then_save (st_CreateRole memory_ops x)"
  "st_UpdateRole file_ops x = then_save (st_UpdateRole memory_ops x)"
  "st_DeleteRole file_ops r = then_save (st_DeleteRole memory_ops r)"
  by (simp_all add: file_defs memory_ops_def)

text \<open>So everything proved of an enforcer from the contract holds over this store as well.\<close>

interpretation disk_backed: store_contract file_ops "\<lambda>fs. ms_users (fs_mem fs)"
  "\<lambda>fs. ms_roles (fs_mem fs)" file_ok
proof (unfold_locales, goal_cases)
  case (27 s)
  then show ?case
    using mem.list_roles [of "fs_mem s"] by (simp only: file_reads file_ok_def)
next
  case (28 s)
  then show ?case
    using mem.list_users [of "fs_mem s"] by (simp only: file_reads file_ok_def)
next
  case (29 s uid u)
  then show ?case
    unfolding file_ok_def using mem.user_key by blast
next
  case (30 s r x)
  then show ?case
    unfolding file_ok_def using mem.role_key by blast
qed (simp_all add: file_reads file_writes file_ok_def then_save_works mem.contract)

section \<open>Reloading\<close>

text \<open>The permissions, users and roles that are read back as they were.\<close>

definition plain_permission :: "permission \<Rightarrow> bool" where
  "plain_permission p \<longleftrightarrow>
     Resource p \<noteq> '''' \<and> CHR '':'' \<notin> set (Resource p) \<and> Action p \<noteq> '''' \<and>
     valid_utf8 (Permission_String p)"

definition plain_user :: "user \<Rightarrow> bool" where
  "plain_user u \<longleftrightarrow>
     valid_utf8 (ID u) \<and> list_all valid_utf8 (Roles u) \<and> list_all plain_permission (Direct u)"

definition plain_role :: "role \<Rightarrow> bool" where
  "plain_role x \<longleftrightarrow>
     valid_utf8 (Name x) \<and> list_all plain_permission (Permissions x) \<and> valid_utf8 (Parent x)"

lemma parse_plain: "plain_permission p \<Longrightarrow> ParsePermission (Permission_String p) = Inr p"
  using ParsePermission_split [of "Resource p" "Action p"]
  by (simp add: plain_permission_def Permission_String_def)

lemma unmarshal_plain:
  "list_all plain_permission ps \<Longrightarrow>
     unmarshal_permissions (map (\<lambda>p. to_valid_utf8 (marshal_permission p)) ps) = Some ps"
proof (induction ps)
  case (Cons p ps)
  then have "to_valid_utf8 (marshal_permission p) = Permission_String p"
    by (simp add: plain_permission_def marshal_permission_def MarshalText_def to_valid_utf8_same)
  then show ?case
    using Cons by (simp add: UnmarshalText_def parse_plain)
qed simp

lemma valid_texts: "list_all valid_utf8 ss \<Longrightarrow> map to_valid_utf8 ss = ss"
  by (induction ss) (simp_all add: to_valid_utf8_same)

lemma undump_plain:
  "plain_user u \<Longrightarrow> undump_user (dump_user u) = Some u"
  "plain_role x \<Longrightarrow> undump_role (dump_role x) = Some x"
  by (simp_all add: undump_user_def dump_user_def undump_role_def dump_role_def unmarshal_plain
      plain_user_def plain_role_def valid_texts to_valid_utf8_same)

lemma those_map: "(\<And>x. x \<in> set xs \<Longrightarrow> f x = Some x) \<Longrightarrow> those (map f xs) = Some xs"
  by (induction xs) auto

lemma load_roles_fresh:
  assumes "distinct (map Name rs)" and "'''' \<notin> Name ` set rs"
    and "\<And>x. x \<in> set rs \<Longrightarrow> fmlookup (ms_roles m) (Name x) = None"
  shows "\<exists>m'. load_roles rs m = Inr m' \<and> ms_users m' = ms_users m \<and>
    (\<forall>x \<in> set rs. fmlookup (ms_roles m') (Name x) = Some x) \<and>
    (\<forall>k. k \<notin> Name ` set rs \<longrightarrow> fmlookup (ms_roles m') k = fmlookup (ms_roles m) k)"
  using assms
proof (induction rs arbitrary: m)
  case Nil
  then show ?case
    by simp
next
  case (Cons r rs)
  let ?m = "m\<lparr>ms_roles := fmupd (Name r) r (ms_roles m)\<rparr>"
  have "CreateRole_mem (Some r) m = (None, ?m)"
    using Cons.prems by (auto simp: CreateRole_mem_def)
  moreover have "fmlookup (ms_roles ?m) (Name x) = None" if "x \<in> set rs" for x
    using Cons.prems that by force
  ultimately show ?case
    using Cons.IH [of ?m] Cons.prems by auto
qed

lemma load_users_fresh:
  assumes "distinct (map ID us)" and "'''' \<notin> ID ` set us"
    and "\<And>u. u \<in> set us \<Longrightarrow> fmlookup (ms_users m) (ID u) = None"
  shows "\<exists>m'. load_users us m = Inr m' \<and> ms_roles m' = ms_roles m \<and>
    (\<forall>u \<in> set us. fmlookup (ms_users m') (ID u) = Some u) \<and>
    (\<forall>k. k \<notin> ID ` set us \<longrightarrow> fmlookup (ms_users m') k = fmlookup (ms_users m) k)"
  using assms
proof (induction us arbitrary: m)
  case Nil
  then show ?case
    by simp
next
  case (Cons u us)
  let ?m = "m\<lparr>ms_users := fmupd (ID u) u (ms_users m)\<rparr>"
  have "CreateUser_mem (Some u) m = (None, ?m)"
    using Cons.prems by (auto simp: CreateUser_mem_def)
  moreover have "fmlookup (ms_users ?m) (ID x) = None" if "x \<in> set us" for x
    using Cons.prems that by force
  ultimately show ?case
    using Cons.IH [of ?m] Cons.prems by auto
qed

text \<open>A store all of whose users and roles are plain is rebuilt from its dump.\<close>

definition plain_store :: "memory_store \<Rightarrow> bool" where
  "plain_store m \<longleftrightarrow>
     fmpred (\<lambda>k u. plain_user u) (ms_users m) \<and> fmpred (\<lambda>k x. plain_role x) (ms_roles m)"

lemma listed_map:
  assumes "\<And>x. x \<in> set xs \<longleftrightarrow> fmlookup m (key x) = Some x" and "\<And>k x. fmlookup m k = Some x \<Longrightarrow> key x = k"
    and "\<And>x. x \<in> set xs \<Longrightarrow> fmlookup m' (key x) = Some x"
    and "\<And>k. k \<notin> key ` set xs \<Longrightarrow> fmlookup m' k = None"
  shows "m' = m"
proof (rule fmap_ext)
  fix k
  show "fmlookup m' k = fmlookup m k"
  proof (cases "fmlookup m k")
    case None
    then have "k \<notin> key ` set xs"
      using assms(1) by force
    with None assms(4) show ?thesis
      by simp
  next
    case (Some x)
    then show ?thesis
      using assms(1-3) by metis
  qed
qed

lemma reload_memory:
  assumes ok: "memory_ok m" and plain: "plain_store m" and content: "dk_content d = dump_of m"
  shows "newFileStore d = Inr \<lparr>fs_mem = m, fs_disk = d\<rparr>"
proof -
  obtain us where us: "ListUsers_mem sorted_list_of_fset m = Inr us" "distinct (map ID us)"
    "\<And>u. u \<in> set us \<longleftrightarrow> fmlookup (ms_users m) (ID u) = Some u"
    using mem.list_users [OF ok] by (auto simp: memory_ops_def)
  obtain rs where rs: "ListRoles_mem sorted_list_of_fset m = Inr rs" "distinct (map Name rs)"
    "\<And>x. x \<in> set rs \<longleftrightarrow> fmlookup (ms_roles m) (Name x) = Some x"
    using mem.list_roles [OF ok] by (auto simp: memory_ops_def)
  have "plain_user u" if "u \<in> set us" for u
    using plain us(3) that by (auto simp: plain_store_def dest: fmpredD)
  then have undump_us: "those (map (undump_user \<circ> dump_user) us) = Some us"
    by (intro those_map) (simp add: undump_plain)
  have "plain_role x" if "x \<in> set rs" for x
    using plain rs(3) that by (auto simp: plain_store_def dest: fmpredD)
  then have undump_rs: "those (map (undump_role \<circ> dump_role) rs) = Some rs"
    by (intro those_map) (simp add: undump_plain)
  have names: "'''' \<notin> Name ` set rs" "'''' \<notin> ID ` set us"
    using rs(3) us(3) memory_okD [OF ok] by fastforce+
  obtain m1 where m1: "load_roles rs NewMemoryStore = Inr m1" "ms_users m1 = fmempty"
    "\<And>x. x \<in> set rs \<Longrightarrow> fmlookup (ms_roles m1) (Name x) = Some x"
    "\<And>k. k \<notin> Name ` set rs \<Longrightarrow> fmlookup (ms_roles m1) k = None"
    using load_roles_fresh [OF rs(2) names(1), of NewMemoryStore] by (auto simp: NewMemoryStore_def)
  obtain m2 where m2: "load_users us m1 = Inr m2" "ms_roles m2 = ms_roles m1"
    "\<And>u. u \<in> set us \<Longrightarrow> fmlookup (ms_users m2) (ID u) = Some u"
    "\<And>k. k \<notin> ID ` set us \<Longrightarrow> fmlookup (ms_users m2) k = None"
    using load_users_fresh [OF us(2) names(2), of m1] by (auto simp: m1(2))
  have "ms_roles m1 = ms_roles m"
    by (rule listed_map [OF rs(3)]) (use memory_okD(2) [OF ok] m1 in blast)+
  moreover have "ms_users m2 = ms_users m"
    by (rule listed_map [OF us(3)]) (use memory_okD(1) [OF ok] m2 in blast)+
  ultimately have "m2 = m"
    using m2(2) by simp
  then show ?thesis
    using m1(1) m2(1) undump_us undump_rs us(1) rs(1) by (simp add: newFileStore_def content dump_of_def)
qed

section \<open>Properties\<close>

text \<open>C40: What a successful save wrote is read back: if every stored permission has an action and a
resource without a colon, and all names are UTF-8, the store rebuilt from the file equals the store that was saved.\<close>

theorem saved_store_reloads:
  assumes "memory_ok (fs_mem fs)" and "plain_store (fs_mem fs)" and "save fs = (None, fs')"
  shows "newFileStore (fs_disk fs') = Inr fs'"
proof -
  have "fs_mem fs' = fs_mem fs" and "dk_content (fs_disk fs') = dump_of (fs_mem fs)"
    using assms(3)
    by (auto simp: save_effect WriteFile_def Let_def split: list.splits option.splits prod.splits)
  then show ?thesis
    using reload_memory [OF assms(1,2), of "fs_disk fs'"] by simp
qed

theorem saved_store_reloads_witness:
  "newFileStore (fs_disk (snd (save
     \<lparr>fs_mem = e_store (after staff), fs_disk = \<lparr>dk_content = NoFile, dk_faults = [None]\<rparr>\<rparr>))) =
   Inr (snd (save
     \<lparr>fs_mem = e_store (after staff), fs_disk = \<lparr>dk_content = NoFile, dk_faults = [None]\<rparr>\<rparr>))"
proof (rule saved_store_reloads)
  let ?fs = "\<lparr>fs_mem = e_store (after staff), fs_disk = \<lparr>dk_content = NoFile, dk_faults = [None]\<rparr>\<rparr>"
  show "memory_ok (fs_mem ?fs)"
    using reachable_inv_ok [OF staff_reachable] by simp
  show "plain_store (fs_mem ?fs)"
    by code_simp
  show "save ?fs = (None, snd (save ?fs))"
    by (simp add: save_effect WriteFile_def)
qed

text \<open>The role the README starts with, which grants everything, makes the file unreadable: the
enforcer creates it without error over the file store, and the file it leaves cannot be loaded.\<close>

theorem wildcard_role_cannot_be_reloaded:
  "let fs = \<lparr>fs_mem = NewMemoryStore, fs_disk = \<lparr>dk_content = NoFile, dk_faults = []\<rparr>\<rparr>;
       (err, e) = CreateRole file_ops ''admin'' [perm ''*'' ''''] '''' (New fs []) in
     err = None \<and> newFileStore (fs_disk (e_store e)) = Inl (ErrForeign ''unmarshal'')"
  by code_simp

text \<open>Names that are not UTF-8 do not survive either. Two users whose ids differ in a stray byte are
read back as one, without an error: the second is taken for a user that exists already.\<close>

theorem stray_bytes_merge_users:
  "let fs = \<lparr>fs_mem = NewMemoryStore, fs_disk = \<lparr>dk_content = NoFile, dk_faults = []\<rparr>\<rparr>;
       (err1, e) = CreateUser file_ops [CHR 0xFE] [''admin''] (New fs []);
       (err2, e) = CreateUser file_ops [CHR 0xFF] [] e in
     err1 = None \<and> err2 = None \<and>
     (case newFileStore (fs_disk (e_store e)) of
        Inl err \<Rightarrow> False
      | Inr fs \<Rightarrow> ListUsers_mem sorted_list_of_fset (fs_mem fs) =
          Inr [\<lparr>ID = rune_error, Roles = [''admin''], Direct = []\<rparr>])"
  by code_simp

text \<open>A mutation whose save fails is reported as an error but stays in memory: \<open>AssignRole\<close> over a
failing disk returns the error, the stored user has the role, and \<open>HasRole\<close>, which was memoised
before, still denies it.\<close>

theorem failed_save_keeps_mutation:
  "let fs = \<lparr>fs_mem = e_store (after staff),
             fs_disk = \<lparr>dk_content = NoFile, dk_faults = [Some Garbage]\<rparr>\<rparr>;
       (held, e) = HasRole file_ops ''bob'' ''reader'' (New fs []);
       (err, e) = AssignRole file_ops ''bob'' ''reader'' e in
     held = Inr False \<and> err = Some (ErrForeign ''write'') \<and>
     GetUser file_ops ''bob'' e = Inr \<lparr>ID = ''bob'', Roles = [''editor'', ''reader''], Direct = []\<rparr> \<and>
     fst (HasRole file_ops ''bob'' ''reader'' e) = Inr False"
  by code_simp

end
