(* ===== verification/Store_Morphism.thy ===== *)
theory Store_Morphism
  imports File_Store Authz_Reference
begin

text \<open>
  An enforcer sees of its store only what the nine operations of the \<open>Store\<close> interface
  return. When one store is another plus something it keeps to itself, the enforcers over
  the two cannot be told apart, caches included. The locale \<open>store_morphism\<close> states what a
  map between stores has to respect; the file store over a disk that works is mapped to the
  memory store embedded in it.
\<close>

section \<open>The same enforcer over another store\<close>

definition over_store :: "('s \<Rightarrow> 't) \<Rightarrow> 's enforcer \<Rightarrow> 't enforcer" where
  "over_store h e =
     \<lparr>e_store = h (e_store e), e_maxDepth = e_maxDepth e, e_cache = e_cache e,
      e_roleHolders = e_roleHolders e, e_directRoles = e_directRoles e\<rparr>"

lemma over_store_fields [simp]:
  "e_store (over_store h e) = h (e_store e)"
  "e_maxDepth (over_store h e) = e_maxDepth e"
  "e_cache (over_store h e) = e_cache e"
  "e_roleHolders (over_store h e) = e_roleHolders e"
  "e_directRoles (over_store h e) = e_directRoles e"
  by (simp_all add: over_store_def)

lemma over_store_updates [simp]:
  "(over_store h e)\<lparr>e_store := h s\<rparr> = over_store h (e\<lparr>e_store := s\<rparr>)"
  "(over_store h e)\<lparr>e_cache := c\<rparr> = over_store h (e\<lparr>e_cache := c\<rparr>)"
  "(over_store h e)\<lparr>e_roleHolders := rh\<rparr> = over_store h (e\<lparr>e_roleHolders := rh\<rparr>)"
  "(over_store h e)\<lparr>e_directRoles := dr\<rparr> = over_store h (e\<lparr>e_directRoles := dr\<rparr>)"
  by (simp_all add: over_store_def)

lemma over_store_sections [simp]:
  "invalidateUser uid (over_store h e) = over_store h (invalidateUser uid e)"
  "invalidateRoleHolders r (over_store h e) = over_store h (invalidateRoleHolders r e)"
  "grantHolder uid r (over_store h e) = over_store h (grantHolder uid r e)"
  "revokeHolder uid r (over_store h e) = over_store h (revokeHolder uid r e)"
  "setDirectRoles uid rs (over_store h e) = over_store h (setDirectRoles uid rs e)"
  "publishDirectRoles uid S (over_store h e) = apsnd (over_store h) (publishDirectRoles uid S e)"
  by (simp_all add: section_defs Let_def split: option.split)

lemma over_store_folds [simp]:
  "foldl (\<lambda>e r. grantHolder uid r e) (over_store h e) rs =
     over_store h (foldl (\<lambda>e r. grantHolder uid r e) e rs)"
  "foldl (\<lambda>e v. invalidateUser v e) (over_store h e) vs =
     over_store h (foldl (\<lambda>e v. invalidateUser v e) e vs)"
  by (induction rs arbitrary: e; simp) (induction vs arbitrary: e; simp)

lemma publishGranted_over [simp]:
  "publishGranted u S (over_store h e) = apsnd (over_store h) (publishGranted u S e)"
  by (simp add: publishGranted_def Let_def split: option.split)

lemma publish_store:
  "publishGranted u S e = (T, e') \<Longrightarrow> e_store e' = e_store e"
  "publishDirectRoles uid R e = (R', e') \<Longrightarrow> e_store e' = e_store e"
  by (auto simp: publishGranted_def publishDirectRoles_def Let_def split: option.splits)

section \<open>Maps between stores\<close>

locale store_morphism =
  fixes ops1 :: "'s store_ops" and ops2 :: "'t store_ops" and h :: "'s \<Rightarrow> 't" and good :: "'s \<Rightarrow> bool"
  assumes get_user: "good s \<Longrightarrow> st_GetUser ops2 uid (h s) = st_GetUser ops1 uid s"
    and get_role: "good s \<Longrightarrow> st_GetRole ops2 r (h s) = st_GetRole ops1 r s"
    and list_roles: "good s \<Longrightarrow> st_ListRoles ops2 (h s) = st_ListRoles ops1 s"
    and create_user: "good s \<Longrightarrow> st_CreateUser ops2 u (h s) = apsnd h (st_CreateUser ops1 u s)"
    and update_user: "good s \<Longrightarrow> st_UpdateUser ops2 u (h s) = apsnd h (st_UpdateUser ops1 u s)"
    and delete_user: "good s \<Longrightarrow> st_DeleteUser ops2 uid (h s) = apsnd h (st_DeleteUser ops1 uid s)"
    and create_role: "good s \<Longrightarrow> st_CreateRole ops2 x (h s) = apsnd h (st_CreateRole ops1 x s)"
    and update_role: "good s \<Longrightarrow> st_UpdateRole ops2 x (h s) = apsnd h (st_UpdateRole ops1 x s)"
    and delete_role: "good s \<Longrightarrow> st_DeleteRole ops2 r (h s) = apsnd h (st_DeleteRole ops1 r s)"
    and good_create_user: "good s \<Longrightarrow> st_CreateUser ops1 u s = (err, s') \<Longrightarrow> good s'"
    and good_update_user: "good s \<Longrightarrow> st_UpdateUser ops1 u s = (err, s') \<Longrightarrow> good s'"
    and good_delete_user: "good s \<Longrightarrow> st_DeleteUser ops1 uid s = (err, s') \<Longrightarrow> good s'"
    and good_create_role: "good s \<Longrightarrow> st_CreateRole ops1 x s = (err, s') \<Longrightarrow> good s'"
    and good_update_role: "good s \<Longrightarrow> st_UpdateRole ops1 x s = (err, s') \<Longrightarrow> good s'"
    and good_delete_role: "good s \<Longrightarrow> st_DeleteRole ops1 r s = (err, s') \<Longrightarrow> good s'"
begin

lemmas ops = get_user get_role list_roles create_user update_user delete_user create_role update_role
  delete_role

lemmas goods = good_create_user good_update_user good_delete_user good_create_role good_update_role
  good_delete_role

text \<open>An operation of the enforcer does the same on both sides, and stays among the good states.\<close>

definition same :: "('s enforcer \<Rightarrow> 'r \<times> 's enforcer) \<Rightarrow> ('t enforcer \<Rightarrow> 'r \<times> 't enforcer) \<Rightarrow> bool" where
  "same f g \<longleftrightarrow> (\<forall>e. good (e_store e) \<longrightarrow>
     g (over_store h e) = apsnd (over_store h) (f e) \<and> good (e_store (snd (f e))))"

lemma sameD:
  assumes "same f g" and "good (e_store e)"
  shows "g (over_store h e) = apsnd (over_store h) (f e)" and "good (e_store (snd (f e)))"
  using assms by (simp_all add: same_def)

lemma validate_same: "good (e_store e) \<Longrightarrow> validateInheritance ops2 (over_store h e) r = validateInheritance ops1 e r"
  by (simp add: validateInheritance_def get_role split: sum.split)

lemma resolve_same: "good s \<Longrightarrow> resolveRoles ops2 (h s) u = resolveRoles ops1 s u"
  by (simp add: resolveRoles_def get_role)

lemma compute_same: "good s \<Longrightarrow> computeSet ops2 (h s) u = computeSet ops1 s u"
  by (simp add: computeSet_def resolve_same get_role split: option.split sum.split)

lemma user_ops_same:
  "same (CreateUser ops1 uid rs) (CreateUser ops2 uid rs)"
  "same (DeleteUser ops1 uid) (DeleteUser ops2 uid)"
  "same (AssignRole ops1 uid r) (AssignRole ops2 uid r)"
  "same (RevokeRole ops1 uid r) (RevokeRole ops2 uid r)"
  "same (GrantDirectPermission ops1 uid p) (GrantDirectPermission ops2 uid p)"
  "same (RevokeDirectPermission ops1 uid p) (RevokeDirectPermission ops2 uid p)"
  by (auto simp: same_def admin_defs ops Let_def split: prod.split option.split sum.split dest: goods)

lemma role_ops_same:
  "same (CreateRole ops1 r ps q) (CreateRole ops2 r ps q)"
  "same (UpdateRole ops1 r ps q) (UpdateRole ops2 r ps q)"
  "same (GrantPermission ops1 r p) (GrantPermission ops2 r p)"
  "same (RevokePermission ops1 r p) (RevokePermission ops2 r p)"
  "same (SetParent ops1 r q) (SetParent ops2 r q)"
  by (auto simp: same_def admin_defs ops validate_same Let_def
    split: prod.split option.split sum.split bool.split dest: goods)

lemma detach_holders_same: "same (detach_holders ops1 name vs) (detach_holders ops2 name vs)"
proof (induction vs)
  case Nil
  then show ?case
    by (simp add: same_def)
next
  case (Cons v vs)
  show ?case
    unfolding same_def
  proof (intro allI impI)
    fix e :: "'s enforcer"
    assume good: "good (e_store e)"
    show "detach_holders ops2 name (v # vs) (over_store h e) =
        apsnd (over_store h) (detach_holders ops1 name (v # vs) e) \<and>
      good (e_store (snd (detach_holders ops1 name (v # vs) e)))"
      using good sameD [OF Cons.IH]
      by (auto simp: ops Let_def split: prod.split option.split sum.split dest: goods)
  qed
qed

lemma detach_children_same: "same (detach_children ops1 name xs) (detach_children ops2 name xs)"
proof (induction xs)
  case Nil
  then show ?case
    by (simp add: same_def)
next
  case (Cons x xs)
  then show ?case
    by (auto simp: same_def ops split: prod.split option.split dest: goods)
qed

lemma DeleteRole_same: "same (DeleteRole ord ops1 r) (DeleteRole ord ops2 r)"
  unfolding same_def
proof (intro allI impI)
  fix e :: "'s enforcer"
  assume good: "good (e_store e)"
  let ?vs = "ord (holders_of e r)"
  obtain err e1 where d1: "detach_holders ops1 r ?vs e = (err, e1)"
    by (cases "detach_holders ops1 r ?vs e")
  have d2: "detach_holders ops2 r ?vs (over_store h e) = (err, over_store h e1)" and good1: "good (e_store e1)"
    using sameD [OF detach_holders_same good, of r ?vs] d1 by simp_all
  have children: "detach_children ops2 r xs (over_store h e1) =
      apsnd (over_store h) (detach_children ops1 r xs e1)"
    "good (e_store (snd (detach_children ops1 r xs e1)))" for xs
    using sameD [OF detach_children_same good1] by blast+
  have "detach_children ops1 r xs e1 = (x, e2) \<Longrightarrow> good (e_store e2)" for xs x e2
    using children(2) [of xs] by simp
  then show "DeleteRole ord ops2 r (over_store h e) = apsnd (over_store h) (DeleteRole ord ops1 r e) \<and>
    good (e_store (snd (DeleteRole ord ops1 r e)))"
    using good good1 d1 d2
    by (auto simp: DeleteRole_def ops children(1) Let_def split: prod.split option.split sum.split dest: goods)
qed

text \<open>The queries, an option each.\<close>

definition same_query ::
  "('s enforcer \<Rightarrow> ('r \<times> 's enforcer) option) \<Rightarrow> ('t enforcer \<Rightarrow> ('r \<times> 't enforcer) option) \<Rightarrow> bool" where
  "same_query f g \<longleftrightarrow> (\<forall>e. good (e_store e) \<longrightarrow>
     g (over_store h e) = map_option (apsnd (over_store h)) (f e) \<and>
     (\<forall>r e'. f e = Some (r, e') \<longrightarrow> good (e_store e')))"

lemma granted_same: "same_query (getGrantedSetFull ops1 uid) (getGrantedSetFull ops2 uid)"
  by (auto simp: same_query_def getGrantedSetFull_def computeAndCache_def get_user resolve_same compute_same Let_def
      split: option.split sum.split prod.split dest: publish_store)

lemma with_granted_same: "same_query (with_granted ops1 uid f) (with_granted ops2 uid f)"
  using granted_same [of uid]
  by (fastforce simp: same_query_def with_granted_def getGrantedSet_def split: option.split sum.split prod.split)

lemma Check_same: "same_query (Check ops1 uid q) (Check ops2 uid q)"
  using granted_same [of uid]
  by (fastforce simp: same_query_def Check_def split: option.split sum.split prod.split)

lemma role_queries_same:
  "same (HasRole ops1 uid r) (HasRole ops2 uid r)"
  "same (HasAnyRole ops1 uid rs) (HasAnyRole ops2 uid rs)"
  "same (HasAllRoles ops1 uid rs) (HasAllRoles ops2 uid rs)"
  by (auto simp: same_def HasRole_def HasAnyRole_def HasAllRoles_def directRolesOf_def get_user Let_def
      split: option.split sum.split prod.split dest: publish_store)

text \<open>One command, and any list of commands.\<close>

lemma serve_same:
  assumes good: "good (e_store e)"
  shows "serve ord ops2 c (over_store h e) = map_option (apsnd (over_store h)) (serve ord ops1 c e)"
    and "serve ord ops1 c e = Some (r, e') \<Longrightarrow> good (e_store e')"
proof -
  have admin: "Some (apfst k (g (over_store h e))) = map_option (apsnd (over_store h)) (Some (apfst k (f e))) \<and>
      (Some (apfst k (f e)) = Some (r, e') \<longrightarrow> good (e_store e'))"
    if "same f g" for f g and k :: "'r \<Rightarrow> permission list reply"
    using sameD [OF that good] by (cases "f e") auto
  have query: "map_option (apfst k) (g (over_store h e)) =
        map_option (apsnd (over_store h)) (map_option (apfst k) (f e)) \<and>
      (map_option (apfst k) (f e) = Some (r, e') \<longrightarrow> good (e_store e'))"
    if "same_query f g" for f g and k :: "'r \<Rightarrow> permission list reply"
    using that good unfolding same_query_def by (cases "f e") fastforce+
  have "serve ord ops2 c (over_store h e) = map_option (apsnd (over_store h)) (serve ord ops1 c e) \<and>
      (serve ord ops1 c e = Some (r, e') \<longrightarrow> good (e_store e'))"
    by (cases c; hypsubst; unfold serve.simps; (rule admin | rule query);
      (unfold HasPermission_def HasAllPermissions_def HasAnyPermission_def PermissionsFor_def)?;
      rule user_ops_same role_ops_same DeleteRole_same role_queries_same Check_same with_granted_same)
  then show "serve ord ops2 c (over_store h e) = map_option (apsnd (over_store h)) (serve ord ops1 c e)"
    and "serve ord ops1 c e = Some (r, e') \<Longrightarrow> good (e_store e')"
    by blast+
qed

lemma serve_all_same:
  assumes "good (e_store e)"
  shows "serve_all ops2 cs (over_store h e) = map_option (apsnd (over_store h)) (serve_all ops1 cs e)"
  using assms
proof (induction cs arbitrary: e)
  case (Cons oc cs)
  obtain ord c where oc: "oc = (ord, c)"
    by (cases oc)
  show ?case
    using Cons.IH serve_same [OF Cons.prems, of ord c]
    by (cases "serve ord ops1 c e") (auto simp: oc option.map_comp comp_def)
qed simp

end

section \<open>The file store\<close>

definition disk_works :: "file_store \<Rightarrow> bool" where
  "disk_works fs \<longleftrightarrow> dk_faults (fs_disk fs) = []"

lemma then_save_memory:
  assumes "disk_works fs"
  shows "apsnd fs_mem (then_save f fs) = f (fs_mem fs)"
    and "then_save f fs = (err, fs') \<Longrightarrow> disk_works fs'"
  using assms then_save_works [of fs f]
  by (auto simp: disk_works_def prod_eq_iff)

interpretation embedded: store_morphism file_ops memory_ops fs_mem disk_works
  by unfold_locales (auto simp: file_reads file_writes then_save_memory)

text \<open>C19: A program cannot tell the file store from a memory store while the disk works. Whatever the
enforcer over the file store has done before, and whatever commands follow in whatever order maps are
visited, the enforcer over the embedded memory store with the same caches gives the same replies, ends
with the same caches, and its store is the memory of the file store.\<close>

theorem file_store_indistinguishable:
  assumes "dk_faults (fs_disk (e_store e)) = []"
  shows "serve_all memory_ops cs (over_store fs_mem e) =
    map_option (\<lambda>(rs, e'). (rs, over_store fs_mem e')) (serve_all file_ops cs e)"
  using embedded.serve_all_same [of e cs] assms by (simp add: disk_works_def apsnd_def map_prod_def)

lemma file_store_indistinguishable_witness:
  "let fs = \<lparr>fs_mem = NewMemoryStore, fs_disk = \<lparr>dk_content = NoFile, dk_faults = []\<rparr>\<rparr>;
       cs = map (Pair sorted_list_of_fset) (staff @ [CmdDeleteRole ''reader'', CmdCheck ''bob'' (perm ''article'' ''edit'')]) in
   map_option fst (serve_all memory_ops cs (over_store fs_mem (New fs []))) = map_option fst (serve_all file_ops cs (New fs []))"
proof -
  have "dk_faults (fs_disk (e_store (New \<lparr>fs_mem = NewMemoryStore, fs_disk = \<lparr>dk_content = NoFile, dk_faults = []\<rparr>\<rparr> []))) = []"
    by simp
  from file_store_indistinguishable [OF this] show ?thesis
    unfolding Let_def by (simp add: option.map_comp comp_def split_beta)
qed

end
