(* ===== verification/Radix_Digits.thy ===== *)
theory Radix_Digits
  imports Main
begin

text \<open>
  Numbers and their big-endian digits in a base: the arithmetic behind the base62 form of
  a token (radix 62) and behind the byte form of a \<open>big.Int\<close> (radix 256). The locale
  \<open>radix\<close> holds the round trips; it is interpreted where the digits are used.
\<close>

fun digits_value :: "nat \<Rightarrow> nat list \<Rightarrow> nat" where
  "digits_value b ds = foldl (\<lambda>n d. n * b + d) 0 ds"

function digits_of :: "nat \<Rightarrow> nat \<Rightarrow> nat list" where
  "digits_of b n = (if b < 2 \<or> n = 0 then [] else digits_of b (n div b) @ [n mod b])"
  by pat_completeness auto
termination
  by (relation "measure (\<lambda>(b, n). n)") auto

declare digits_of.simps [simp del] digits_value.simps [simp del]

lemma digits_value_Nil [simp]: "digits_value b [] = 0"
  by (simp add: digits_value.simps)

lemma digits_value_snoc [simp]: "digits_value b (ds @ [d]) = digits_value b ds * b + d"
  by (simp add: digits_value.simps)

lemma digits_value_zero: "digits_value b (0 # ds) = digits_value b ds"
  by (simp add: digits_value.simps)

text \<open>A list of digits with no leading zero.\<close>

definition canonical_digits :: "nat \<Rightarrow> nat list \<Rightarrow> bool" where
  "canonical_digits b ds \<longleftrightarrow> list_all (\<lambda>d. d < b) ds \<and> (ds = [] \<or> hd ds \<noteq> 0)"

locale radix =
  fixes b :: nat
  assumes base: "1 < b"
begin

lemma digits_of_zero [simp]: "digits_of b 0 = []"
  by (simp add: digits_of.simps)

lemma digits_of_step: "n > 0 \<Longrightarrow> digits_of b n = digits_of b (n div b) @ [n mod b]"
  using base by (simp add: digits_of.simps [of b n])

lemma digits_of_Nil [simp]: "digits_of b n = [] \<longleftrightarrow> n = 0"
  using base by (cases "n = 0") (simp_all add: digits_of_step)

lemma value_of_digits: "digits_value b (digits_of b n) = n"
proof (induction n rule: less_induct)
  case (less n)
  show ?case
  proof (cases "n = 0")
    case False
    with base have "n div b < n"
      by simp
    with less.IH False show ?thesis
      by (simp add: digits_of_step [of n])
  qed simp
qed

lemma digits_of_canonical: "canonical_digits b (digits_of b n)"
proof (induction n rule: less_induct)
  case (less n)
  show ?case
  proof (cases "n = 0")
    case False
    with base have IH: "canonical_digits b (digits_of b (n div b))"
      by (intro less.IH) simp
    have "n mod b \<noteq> 0" if "n div b = 0"
      using that False base by (simp add: div_eq_0_iff)
    moreover have "digits_of b n = digits_of b (n div b) @ [n mod b]"
      using False by (intro digits_of_step) simp
    ultimately show ?thesis
      using IH base by (auto simp: canonical_digits_def hd_append)
  qed (simp add: canonical_digits_def)
qed

lemma digits_of_value:
  assumes "canonical_digits b ds"
  shows "digits_of b (digits_value b ds) = ds"
  using assms
proof (induction ds rule: rev_induct)
  case (snoc d ds)
  then have d: "d < b" and ds: "canonical_digits b ds"
    by (auto simp: canonical_digits_def hd_append split: if_splits)
  have "digits_value b ds * b + d > 0"
  proof (cases "ds = []")
    case True
    with snoc.prems show ?thesis
      by (simp add: canonical_digits_def)
  next
    case False
    have "digits_value b ds \<noteq> 0"
      using snoc.IH [OF ds] False by (metis digits_of_Nil)
    with base show ?thesis
      by simp
  qed
  with d snoc.IH [OF ds] show ?case
    by (simp add: digits_of_step [of "digits_value b ds * b + d"])
qed simp

lemma digits_value_inj:
  "canonical_digits b ds \<Longrightarrow> canonical_digits b es \<Longrightarrow>
     digits_value b ds = digits_value b es \<longleftrightarrow> ds = es"
  using digits_of_value by metis

end

interpretation radix62: radix 62
  by unfold_locales simp

interpretation radix256: radix 256
  by unfold_locales simp

end
