(* ===== verification/Branca_Base62.thy ===== *)
theory Branca_Base62
  imports Radix_Digits Go_Prelude "HOL-Library.Word"
begin

text \<open>
  \<open>branca/base62.go\<close>: the alphabet and its inverse table, the conversion of a byte string
  to base62 and back through one big integer, and the same decoder broken into its memory
  accesses, since it keeps a temporary in a variable of the package. A \<open>[]byte\<close> is a list
  of 8-bit words, a non-negative \<open>big.Int\<close> is a \<open>nat\<close>.
\<close>

type_synonym byte = "8 word"

section \<open>big.Int and bytes\<close>

definition big_SetBytes :: "byte list \<Rightarrow> nat" where
  "big_SetBytes bs = digits_value 256 (map unat bs)"

definition big_Bytes :: "nat \<Rightarrow> byte list" where
  "big_Bytes n = map of_nat (digits_of 256 n)"

text \<open>\<open>big_Bytes\<close> is the shortest big-endian form, so leading zero bytes are lost.\<close>

lemma unat_byte: "n < 256 \<Longrightarrow> unat (of_nat n :: byte) = n"
  by (simp add: unat_of_nat take_bit_eq_mod)

lemma canonical_bytes:
  "canonical_digits 256 (map unat bs) \<longleftrightarrow> bs = [] \<or> hd bs \<noteq> (0 :: byte)"
proof -
  have "unat x < 256" for x :: byte
    by (rule order_less_le_trans [OF unsigned_less]) simp
  then show ?thesis
    by (cases bs) (auto simp: canonical_digits_def list_all_iff unat_eq_0)
qed

lemma Bytes_SetBytes: "bs = [] \<or> hd bs \<noteq> 0 \<Longrightarrow> big_Bytes (big_SetBytes bs) = bs"
  by (simp add: big_Bytes_def big_SetBytes_def radix256.digits_of_value canonical_bytes comp_def)

lemma SetBytes_Bytes: "big_SetBytes (big_Bytes n) = n"
proof -
  have "map unat (big_Bytes n) = digits_of 256 n"
    using radix256.digits_of_canonical [of n]
    by (auto simp: big_Bytes_def canonical_digits_def list_all_iff unat_byte intro!: map_idI)
  then show ?thesis
    by (simp add: big_SetBytes_def radix256.value_of_digits)
qed

section \<open>The alphabet\<close>

definition base62Alphabet :: string where
  "base62Alphabet = ''0123456789ABCDEFGHIJKLMNOPQRSTUVWXYZabcdefghijklmnopqrstuvwxyz''"

definition base62Index :: "int list" where
  "base62Index =
     foldl (\<lambda>idx i. idx[of_char (base62Alphabet ! i) := int i])
       (replicate 256 (- 1)) [0..<length base62Alphabet]"

lemma alphabet_length [simp]: "length base62Alphabet = 62"
  by (simp add: base62Alphabet_def)

lemma alphabet_distinct: "distinct base62Alphabet"
  by (simp add: base62Alphabet_def)

lemma char_code_bound: "of_char c < (256 :: nat)"
  using range_nat_of_char by auto

lemma char_code_inj: "(of_char c :: nat) = of_char d \<longleftrightarrow> c = d"
  by (auto simp: of_char_eq_iff)

lemma index_table:
  assumes "n \<le> length al" and "distinct al"
  defines "table \<equiv> foldl (\<lambda>idx i. idx[of_char (al ! i) := int i]) (replicate 256 (- 1 :: int)) [0..<n]"
  shows "length table = 256 \<and> (\<forall>i<n. table ! of_char (al ! i) = int i) \<and>
    (\<forall>c. c \<notin> set (take n al) \<longrightarrow> table ! of_char c = - 1)"
  using assms(1) unfolding table_def
proof (induction n)
  case 0
  then show ?case
    by (simp add: char_code_bound)
next
  case (Suc n)
  then show ?case
    using assms(2) char_code_bound
    by (auto simp: nth_list_update char_code_inj less_Suc_eq take_Suc_conv_app_nth nth_eq_iff_index_eq)
qed

lemma index_alphabet: "i < 62 \<Longrightarrow> base62Index ! of_char (base62Alphabet ! i) = int i"
  using index_table [of 62 base62Alphabet] alphabet_distinct by (simp add: base62Index_def)

lemma index_other: "c \<notin> set base62Alphabet \<Longrightarrow> base62Index ! of_char c = - 1"
  using index_table [of 62 base62Alphabet] alphabet_distinct by (simp add: base62Index_def)

text \<open>The table inverts the alphabet.\<close>

lemma index_valid:
  "c \<in> set base62Alphabet \<longleftrightarrow> 0 \<le> base62Index ! of_char c"
  "c \<in> set base62Alphabet \<Longrightarrow> nat (base62Index ! of_char c) < 62"
  "c \<in> set base62Alphabet \<Longrightarrow> base62Alphabet ! nat (base62Index ! of_char c) = c"
proof -
  show in_alphabet: "c \<in> set base62Alphabet \<longleftrightarrow> 0 \<le> base62Index ! of_char c"
    by (cases "c \<in> set base62Alphabet") (auto simp: in_set_conv_nth index_alphabet index_other)
  show "nat (base62Index ! of_char c) < 62" "base62Alphabet ! nat (base62Index ! of_char c) = c"
    if "c \<in> set base62Alphabet"
    using that by (auto simp: in_set_conv_nth index_alphabet)
qed

section \<open>Encoding\<close>

function encode_loop :: "nat \<Rightarrow> string \<Rightarrow> string" where
  "encode_loop n digits =
     (if 0 < n then encode_loop (n div 62) (digits @ [base62Alphabet ! (n mod 62)]) else digits)"
  by pat_completeness auto
termination
  by (relation "measure fst") auto

function reverse_loop :: "int \<Rightarrow> int \<Rightarrow> 'a list \<Rightarrow> 'a list" where
  "reverse_loop i j xs =
     (if i < j then
        reverse_loop (i + 1) (j - 1) (xs[nat i := xs ! nat j, nat j := xs ! nat i])
      else xs)"
  by pat_completeness auto
termination
  by (relation "measure (\<lambda>(i, j, xs). nat (j - i))") auto

declare encode_loop.simps [simp del] reverse_loop.simps [simp del]

definition base62Encode :: "byte list \<Rightarrow> string" where
  "base62Encode src =
     (if length src = 0 then ''''
      else let n = big_SetBytes src; digits = encode_loop n []
           in reverse_loop 0 (int (length digits) - 1) digits)"

lemma encode_loop_digits:
  "encode_loop n acc = acc @ rev (map ((!) base62Alphabet) (digits_of 62 n))"
proof (induction n acc rule: encode_loop.induct)
  case (1 n acc)
  then show ?case
    by (cases "0 < n")
      (simp_all add: encode_loop.simps [of n] encode_loop.simps [of 0] radix62.digits_of_step [of n])
qed

text \<open>The swapping loop reverses in place.\<close>

lemma reverse_loop_nth:
  assumes "j = int (length xs) - 1 - int i"
  shows "length (reverse_loop (int i) j xs) = length xs \<and>
    (\<forall>k < length xs. reverse_loop (int i) j xs ! k =
       (if i \<le> k \<and> k + i < length xs then xs ! (length xs - 1 - k) else xs ! k))"
  using assms
proof (induction "length xs - 2 * i" arbitrary: i j xs rule: less_induct)
  case less
  show ?case
  proof (cases "int i < j")
    case True
    let ?l = "length xs - 1 - i"
    let ?ys = "xs[i := xs ! ?l, ?l := xs ! i]"
    have step: "reverse_loop (int i) j xs = reverse_loop (int (Suc i)) (j - 1) ?ys"
    proof -
      have "nat j = ?l"
        using less.prems by linarith
      with True show ?thesis
        by (simp add: reverse_loop.simps [of "int i" j] add.commute)
    qed
    have "length ?ys - 2 * Suc i < length xs - 2 * i" and "j - 1 = int (length ?ys) - 1 - int (Suc i)"
      using True less.prems by auto
    from less.hyps [OF this]
    have len: "length (reverse_loop (int i) j xs) = length xs"
      and nth: "\<forall>k < length xs. reverse_loop (int i) j xs ! k =
        (if Suc i \<le> k \<and> k + Suc i < length xs then ?ys ! (length xs - 1 - k) else ?ys ! k)"
      unfolding step by simp_all
    have "reverse_loop (int i) j xs ! k =
        (if i \<le> k \<and> k + i < length xs then xs ! (length xs - 1 - k) else xs ! k)"
      if k: "k < length xs" for k
    proof (cases "k = i \<or> k = ?l")
      case True
      have "2 * i + 1 < length xs"
        using \<open>int i < j\<close> less.prems by linarith
      then have "\<not> (Suc i \<le> k \<and> k + Suc i < length xs)" and "i \<le> k \<and> k + i < length xs"
        and "?ys ! k = xs ! (length xs - 1 - k)"
        using True by (auto simp: nth_list_update)
      with nth k show ?thesis
        by (simp only: if_True if_False simp_thms)
    next
      case False
      then have "(Suc i \<le> k \<and> k + Suc i < length xs) = (i \<le> k \<and> k + i < length xs)"
        and "length xs - 1 - k \<noteq> i \<or> k \<noteq> ?l" and "length xs - 1 - k \<noteq> ?l \<or> k \<noteq> i"
        using k by auto
      with nth k False less.prems \<open>int i < j\<close> show ?thesis
        by (simp add: nth_list_update) linarith
    qed
    with len show ?thesis
      by blast
  next
    case False
    then have "i \<le> k \<and> k + i < length xs \<Longrightarrow> length xs - 1 - k = k" for k
      using less.prems by linarith
    with False show ?thesis
      by (auto simp: reverse_loop.simps [of "int i" j])
  qed
qed

lemma reverse_loop_rev: "reverse_loop 0 (int (length xs) - 1) xs = rev xs"
  using reverse_loop_nth [of "int (length xs) - 1" xs 0]
  by (auto intro!: nth_equalityI simp: rev_nth)

lemma base62Encode_digits:
  "base62Encode src = map ((!) base62Alphabet) (digits_of 62 (big_SetBytes src))"
  by (simp add: base62Encode_def reverse_loop_rev encode_loop_digits Let_def big_SetBytes_def)

section \<open>Decoding\<close>

datatype base62_error = ErrNonBase62

text \<open>
  The package keeps the digit it is about to add in the variable \<open>base62Digit\<close>, shared by
  every call; it is an argument and a result here.
\<close>

fun decode_loop :: "string \<Rightarrow> nat \<Rightarrow> nat \<Rightarrow> (base62_error + nat) \<times> nat" where
  "decode_loop [] n digit = (Inr n, digit)"
| "decode_loop (c # cs) n digit =
     (let d = base62Index ! of_char c in
      if d < 0 then (Inl ErrNonBase62, digit)
      else let n = n * 62; digit = nat d; n = n + digit in decode_loop cs n digit)"

definition base62Decode :: "string \<Rightarrow> nat \<Rightarrow> (base62_error + byte list) \<times> nat" where
  "base62Decode s digit =
     (if s = '''' then (Inl ErrNonBase62, digit)
      else (case decode_loop s 0 digit of
          (Inl err, digit) \<Rightarrow> (Inl err, digit)
        | (Inr n, digit) \<Rightarrow> (Inr (big_Bytes n), digit)))"

text \<open>What a call on its own returns, whatever the shared variable held.\<close>

definition base62_value :: "string \<Rightarrow> nat" where
  "base62_value s = digits_value 62 (map (\<lambda>c. nat (base62Index ! of_char c)) s)"

definition base62_decoded :: "string \<Rightarrow> base62_error + byte list" where
  "base62_decoded s =
     (if s = '''' \<or> \<not> list_all (\<lambda>c. c \<in> set base62Alphabet) s then Inl ErrNonBase62
      else Inr (big_Bytes (base62_value s)))"

lemma decode_loop_value:
  "fst (decode_loop s n digit) =
    (if list_all (\<lambda>c. c \<in> set base62Alphabet) s
     then Inr (foldl (\<lambda>n d. n * 62 + d) n (map (\<lambda>c. nat (base62Index ! of_char c)) s))
     else Inl ErrNonBase62)"
  by (induction s n digit rule: decode_loop.induct) (auto simp: Let_def index_valid(1))

lemma base62Decode_alone: "fst (base62Decode s digit) = base62_decoded s"
  using decode_loop_value [of s 0 digit]
  by (auto simp: base62Decode_def base62_decoded_def base62_value_def digits_value.simps
      split: prod.splits sum.splits if_splits)

lemma value_alphabet:
  assumes "canonical_digits 62 ds"
  shows "list_all (\<lambda>c. c \<in> set base62Alphabet) (map ((!) base62Alphabet) ds)"
    and "base62_value (map ((!) base62Alphabet) ds) = digits_value 62 ds"
proof -
  have d: "d \<in> set ds \<Longrightarrow> d < 62" for d
    using assms by (simp add: canonical_digits_def list_all_iff)
  show "list_all (\<lambda>c. c \<in> set base62Alphabet) (map ((!) base62Alphabet) ds)"
    using d by (auto simp: list_all_iff)
  have "map (\<lambda>c. nat (base62Index ! of_char c)) (map ((!) base62Alphabet) ds) = ds"
    using d by (auto simp: index_alphabet intro!: map_idI)
  then show "base62_value (map ((!) base62Alphabet) ds) = digits_value 62 ds"
    by (simp add: base62_value_def)
qed

section \<open>Round trips\<close>

definition base62_source :: "byte list \<Rightarrow> bool" where
  "base62_source bs \<longleftrightarrow> bs \<noteq> [] \<and> hd bs \<noteq> 0"

lemma base62Encode_Nil: "base62_source bs \<Longrightarrow> base62Encode bs \<noteq> ''''"
proof -
  assume src: "base62_source bs"
  have "big_SetBytes bs \<noteq> 0"
  proof
    assume "big_SetBytes bs = 0"
    then have "bs = big_Bytes 0"
      using Bytes_SetBytes [of bs] src by (simp add: base62_source_def)
    then show False
      using src by (simp add: base62_source_def big_Bytes_def)
  qed
  then show ?thesis
    by (simp add: base62Encode_digits)
qed

interpretation base62: partial_codec base62Encode base62_decoded base62_source
proof unfold_locales
  fix bs
  assume src: "base62_source bs"
  then show "base62_decoded (base62Encode bs) = Inr bs"
    using base62Encode_Nil [OF src] value_alphabet [OF radix62.digits_of_canonical]
    by (simp add: base62_decoded_def base62Encode_digits radix62.value_of_digits
        Bytes_SetBytes base62_source_def)
qed

text \<open>The decoder is not injective: a text may be padded with the digit zero.\<close>

lemma base62_decoded_padded:
  assumes "s \<noteq> ''''"
  shows "base62_decoded (CHR ''0'' # s) = base62_decoded s"
proof -
  have zero: "base62Index ! of_char (CHR ''0'') = 0" and "CHR ''0'' \<in> set base62Alphabet"
    using index_alphabet [of 0] by (simp_all add: base62Alphabet_def)
  then show ?thesis
    using assms by (simp add: base62_decoded_def base62_value_def digits_value_zero)
qed

text \<open>That is the only freedom: an accepted text without a leading zero is the canonical one.\<close>

lemma base62_canonical_text:
  assumes "base62_decoded s = Inr bs" and "hd s \<noteq> CHR ''0''"
  shows "base62Encode bs = s"
proof -
  let ?ds = "map (\<lambda>c. nat (base62Index ! of_char c)) s"
  from assms(1) have s: "s \<noteq> ''''" "list_all (\<lambda>c. c \<in> set base62Alphabet) s"
    and bs: "bs = big_Bytes (base62_value s)"
    by (auto simp: base62_decoded_def split: if_splits)
  have inverse: "map ((!) base62Alphabet) ?ds = s"
    using s by (auto simp: list_all_iff index_valid intro!: map_idI)
  have "hd ?ds \<noteq> 0"
  proof
    assume "hd ?ds = 0"
    then have "hd (map ((!) base62Alphabet) ?ds) = base62Alphabet ! 0"
      using s(1) by (simp add: hd_map)
    with inverse assms(2) show False
      by (simp add: base62Alphabet_def)
  qed
  then have "canonical_digits 62 ?ds"
    using s by (auto simp: canonical_digits_def list_all_iff index_valid)
  then have "digits_of 62 (base62_value s) = ?ds"
    unfolding base62_value_def by (rule radix62.digits_of_value)
  then show ?thesis
    using inverse by (simp add: base62Encode_digits bs SetBytes_Bytes)
qed

section \<open>Two goroutines decoding at once\<close>

text \<open>
  The body of \<open>base62Decode\<close> cut at its accesses to the shared variable. A goroutine looks
  at the next character and multiplies, then stores the digit in \<open>base62Digit\<close>, then adds
  what \<open>base62Digit\<close> holds. \<open>t_pc\<close> says what it does next; nothing else is shared.
\<close>

datatype dec_pc = AtChar | AtStore nat | AtAdd | Done "base62_error + byte list"

record dec_thread =
  t_rest :: string
  t_n :: nat
  t_pc :: dec_pc

definition dec_start :: "string \<Rightarrow> dec_thread" where
  "dec_start s =
     \<lparr>t_rest = s, t_n = 0, t_pc = (if s = '''' then Done (Inl ErrNonBase62) else AtChar)\<rparr>"

fun dec_step :: "dec_thread \<Rightarrow> nat \<Rightarrow> dec_thread \<times> nat" where
  "dec_step t digit =
     (case t_pc t of
        AtChar \<Rightarrow>
          (case t_rest t of
             [] \<Rightarrow> (t\<lparr>t_pc := Done (Inr (big_Bytes (t_n t)))\<rparr>, digit)
           | c # cs \<Rightarrow>
               let d = base62Index ! of_char c in
               if d < 0 then (t\<lparr>t_pc := Done (Inl ErrNonBase62)\<rparr>, digit)
               else (t\<lparr>t_rest := cs, t_n := t_n t * 62, t_pc := AtStore (nat d)\<rparr>, digit))
      | AtStore d \<Rightarrow> (t\<lparr>t_pc := AtAdd\<rparr>, d)
      | AtAdd \<Rightarrow> (t\<lparr>t_n := t_n t + digit, t_pc := AtChar\<rparr>, digit)
      | Done r \<Rightarrow> (t, digit))"

text \<open>A schedule names the goroutine that takes each step.\<close>

fun dec_run ::
  "bool list \<Rightarrow> dec_thread \<times> dec_thread \<times> nat \<Rightarrow> dec_thread \<times> dec_thread \<times> nat" where
  "dec_run [] st = st"
| "dec_run (b # bs) (t1, t2, digit) =
     dec_run bs
       (if b then let (t1, digit) = dec_step t1 digit in (t1, t2, digit)
        else let (t2, digit) = dec_step t2 digit in (t1, t2, digit))"

declare dec_step.simps [simp del]

lemma dec_step_simps [simp]:
  "dec_step \<lparr>t_rest = [], t_n = n, t_pc = AtChar\<rparr> digit =
     (\<lparr>t_rest = [], t_n = n, t_pc = Done (Inr (big_Bytes n))\<rparr>, digit)"
  "dec_step \<lparr>t_rest = c # cs, t_n = n, t_pc = AtChar\<rparr> digit =
     (let d = base62Index ! of_char c in
      if d < 0 then (\<lparr>t_rest = c # cs, t_n = n, t_pc = Done (Inl ErrNonBase62)\<rparr>, digit)
      else (\<lparr>t_rest = cs, t_n = n * 62, t_pc = AtStore (nat d)\<rparr>, digit))"
  "dec_step \<lparr>t_rest = s, t_n = n, t_pc = AtStore d\<rparr> digit =
     (\<lparr>t_rest = s, t_n = n, t_pc = AtAdd\<rparr>, d)"
  "dec_step \<lparr>t_rest = s, t_n = n, t_pc = AtAdd\<rparr> digit =
     (\<lparr>t_rest = s, t_n = n + digit, t_pc = AtChar\<rparr>, digit)"
  "dec_step \<lparr>t_rest = s, t_n = n, t_pc = Done r\<rparr> digit =
     (\<lparr>t_rest = s, t_n = n, t_pc = Done r\<rparr>, digit)"
  by (simp_all add: dec_step.simps Let_def)

lemma dec_run_append: "dec_run (bs @ cs) st = dec_run cs (dec_run bs st)"
  by (induction bs st rule: dec_run.induct) (auto split: prod.splits)

text \<open>
  The steps refine the function: a goroutine that is not interleaved with another ends, in
  at most three steps per character and one more, with what \<open>base62Decode\<close> returns.
\<close>

lemma dec_run_alone_loop:
  "\<exists>k \<le> 3 * length s + 1. \<exists>t digit'.
     dec_run (replicate k True) (\<lparr>t_rest = s, t_n = n, t_pc = AtChar\<rparr>, t2, digit) = (t, t2, digit') \<and>
     t_pc t = Done (case fst (decode_loop s n digit) of
       Inl err \<Rightarrow> Inl err | Inr m \<Rightarrow> Inr (big_Bytes m))"
proof (induction s n digit rule: decode_loop.induct)
  case (1 n digit)
  show ?case
    by (intro exI [of _ "Suc 0"]) simp
next
  case (2 c cs n digit)
  let ?d = "base62Index ! of_char c"
  show ?case
  proof (cases "?d < 0")
    case True
    then show ?thesis
      by (intro exI [of _ "Suc 0"]) (simp add: Let_def)
  next
    case False
    obtain k t digit' where k: "k \<le> 3 * length cs + 1"
      and run: "dec_run (replicate k True)
        (\<lparr>t_rest = cs, t_n = n * 62 + nat ?d, t_pc = AtChar\<rparr>, t2, nat ?d) = (t, t2, digit')"
      and pc: "t_pc t = Done (case fst (decode_loop cs (n * 62 + nat ?d) (nat ?d)) of
        Inl err \<Rightarrow> Inl err | Inr m \<Rightarrow> Inr (big_Bytes m))"
      using "2.IH" [OF refl False refl refl refl] by blast
    show ?thesis
      by (intro exI [of _ "Suc (Suc (Suc k))"] conjI exI [of _ t] exI [of _ digit'])
        (use False run k pc in \<open>simp_all add: Let_def\<close>)
  qed
qed

lemma dec_run_alone:
  "\<exists>k \<le> 3 * length s + 1. \<exists>t digit'.
     dec_run (replicate k True) (dec_start s, t2, digit) = (t, t2, digit') \<and>
     t_pc t = Done (base62_decoded s)"
proof (cases "s = ''''")
  case True
  then show ?thesis
    by (intro exI [of _ 0]) (simp add: dec_start_def base62_decoded_def)
next
  case False
  have "(case fst (decode_loop s 0 digit) of Inl err \<Rightarrow> Inl err | Inr m \<Rightarrow> Inr (big_Bytes m)) =
      base62_decoded s"
    using False base62Decode_alone [of s digit]
    by (auto simp: base62Decode_def split: prod.splits sum.splits)
  then show ?thesis
    using dec_run_alone_loop [of s 0 t2 digit] False by (simp add: dec_start_def)
qed

text \<open>An undisturbed prefix of the decoding.\<close>

lemma dec_run_prefix:
  assumes "list_all (\<lambda>c. c \<in> set base62Alphabet) xs"
  shows "\<exists>digit'. dec_run (replicate (3 * length xs) True)
      (\<lparr>t_rest = xs @ ys, t_n = n, t_pc = AtChar\<rparr>, t2, digit) =
    (\<lparr>t_rest = ys, t_n = foldl (\<lambda>n d. n * 62 + d) n (map (\<lambda>c. nat (base62Index ! of_char c)) xs),
      t_pc = AtChar\<rparr>, t2, digit')"
  using assms
proof (induction xs arbitrary: n digit)
  case Nil
  then show ?case
    by simp
next
  case (Cons c xs)
  have "\<not> base62Index ! of_char c < 0"
    using Cons.prems by (simp add: index_valid(1))
  moreover have "replicate (3 * length (c # xs)) True =
      True # True # True # replicate (3 * length xs) True"
    by (simp add: eval_nat_numeral)
  ultimately show ?case
    using Cons.IH [of "n * 62 + nat (base62Index ! of_char c)" "nat (base62Index ! of_char c)"]
      Cons.prems
    by (simp add: Let_def del: replicate.simps length_Cons)
qed

section \<open>Properties\<close>

text \<open>C26: Decoding is the inverse of encoding: what \<open>base62Encode\<close> makes of a byte string that does not
begin with a zero byte (a token begins with \<open>0xBA\<close>) is decoded to that byte string, whatever an
earlier call left in the shared variable.\<close>

theorem base62_round_trip:
  assumes "bs \<noteq> []" and "hd bs \<noteq> 0"
  shows "fst (base62Decode (base62Encode bs) digit) = Inr bs"
  using base62.dec_enc [of bs] assms by (simp add: base62Decode_alone base62_source_def)

theorem base62_round_trip_witness:
  "base62Encode [0xBA, 0, 7] = ''p967'' \<and> fst (base62Decode ''p967'' 61) = Inr [0xBA, 0, 7]"
proof -
  have "base62Encode [0xBA, 0, 7] = ''p967''"
    by (simp add: base62Encode_digits big_SetBytes_def digits_value.simps digits_of.simps
        base62Alphabet_def)
  then show ?thesis
    using base62_round_trip [of "[0xBA, 0, 7]" 61] by simp
qed

text \<open>An accepted text is the encoding of what it decodes to, up to leading zero digits: the text
without them is exactly what \<open>base62Encode\<close> returns. So leading zeros are the only freedom a
token's text has.\<close>

theorem base62_text_canonical:
  assumes "fst (base62Decode s digit) = Inr bs"
  shows "base62Encode bs = dropWhile (\<lambda>c. c = CHR ''0'') s"
  using assms
proof (induction s)
  case Nil
  then show ?case
    by (simp add: base62Decode_def)
next
  case (Cons c s)
  have dec: "base62_decoded (c # s) = Inr bs"
    using Cons.prems by (simp add: base62Decode_alone)
  show ?case
  proof (cases "c = CHR ''0''")
    case False
    with base62_canonical_text [OF dec] show ?thesis
      by simp
  next
    case zero: True
    show ?thesis
    proof (cases "s = ''''")
      case True
      have "base62_value ''0'' = 0"
        using index_alphabet [of 0]
        by (simp add: base62_value_def base62Alphabet_def digits_value.simps)
      with dec zero True have "bs = []"
        by (auto simp: base62_decoded_def big_Bytes_def split: if_splits)
      with zero True show ?thesis
        by (simp add: base62Encode_def)
    next
      case False
      with zero dec Cons.IH show ?thesis
        by (simp add: base62_decoded_padded base62Decode_alone)
    qed
  qed
qed

theorem base62_text_canonical_witness:
  "fst (base62Decode ''0030'' 0) = Inr [0xBA] \<and> base62Encode [0xBA] = ''30''"
proof -
  have "base62Encode [0xBA] = ''30''"
    by (simp add: base62Encode_digits big_SetBytes_def digits_value.simps digits_of.simps
        base62Alphabet_def)
  then have "base62_decoded ''30'' = Inr [0xBA]"
    using base62.dec_enc [of "[0xBA]"] by (simp add: base62_source_def)
  then have "fst (base62Decode ''0030'' 0) = Inr [0xBA]"
    by (simp add: base62Decode_alone base62_decoded_padded)
  then show ?thesis
    using base62_text_canonical [of "''0030''" 0] by simp
qed

text \<open>The decoder cut at its accesses to the shared variable refines the function: scheduled without
interruption, from whatever the variable holds, it finishes within three steps per character and one
more, with the result of \<open>base62Decode\<close>.\<close>

theorem base62_steps_refine_function:
  "\<exists>k \<le> 3 * length s + 1. \<exists>t digit'.
     dec_run (replicate k True) (dec_start s, t2, digit) = (t, t2, digit') \<and>
     t_pc t = Done (fst (base62Decode s digit))"
  unfolding base62Decode_alone by (rule dec_run_alone)

text \<open>C38: Two decoders running at the same time can corrupt each other, although a \<open>Branca\<close> is said to be
safe for concurrent use: for any valid text \<open>xs @ [c]\<close> there is an interleaving with the decoding of
any text that begins with a valid \<open>c'\<close> in which the first call returns what \<open>xs @ [c']\<close> decodes
to.\<close>

theorem base62_concurrent_decode_corrupts:
  assumes "list_all (\<lambda>x. x \<in> set base62Alphabet) (xs @ [c, c'])"
  shows "\<exists>schedule. t_pc (fst (dec_run schedule (dec_start (xs @ [c]), dec_start (c' # ys), digit))) =
    Done (base62_decoded (xs @ [c']))"
proof -
  let ?i = "\<lambda>c. nat (base62Index ! of_char c)"
  have c: "\<not> base62Index ! of_char c < 0" "\<not> base62Index ! of_char c' < 0"
    using assms by (simp_all add: index_valid(1) not_less)
  obtain digit' where "dec_run (replicate (3 * length xs) True)
      (\<lparr>t_rest = xs @ [c], t_n = 0, t_pc = AtChar\<rparr>, dec_start (c' # ys), digit) =
    (\<lparr>t_rest = [c], t_n = base62_value xs, t_pc = AtChar\<rparr>, dec_start (c' # ys), digit')"
    using dec_run_prefix [of xs "[c]" 0] assms by (auto simp: base62_value_def digits_value.simps)
  then have "t_pc (fst (dec_run (replicate (3 * length xs) True @ [True, True, False, False, True, True])
      (dec_start (xs @ [c]), dec_start (c' # ys), digit))) =
    Done (Inr (big_Bytes (base62_value xs * 62 + ?i c')))"
    using c by (simp add: dec_run_append dec_start_def Let_def)
  moreover have "base62_decoded (xs @ [c']) = Inr (big_Bytes (base62_value xs * 62 + ?i c'))"
    using assms by (simp add: base62_decoded_def base62_value_def)
  ultimately show ?thesis
    by metis
qed

theorem base62_concurrent_decode_corrupts_witness:
  "\<exists>schedule. t_pc (fst (dec_run schedule (dec_start ''30'', dec_start ''9b'', 0))) =
     Done (base62_decoded ''39'')"
proof -
  have "list_all (\<lambda>x. x \<in> set base62Alphabet) (''3'' @ [CHR ''0'', CHR ''9''])"
    by (simp add: base62Alphabet_def)
  from base62_concurrent_decode_corrupts [OF this, of "''b''" 0] show ?thesis
    by simp
qed

end
