(* ===== verification/Branca_Token.thy ===== *)
theory Branca_Token
  imports Branca_Base62
begin

unbundle bit_operations_syntax

text \<open>
  \<open>branca/branca.go\<close> and \<open>branca/errors.go\<close>: keys and options, issuing and opening of
  tokens. The AEAD (\<open>golang.org/x/crypto/chacha20poly1305\<close>) is not code of the repository:
  it is a parameter, and what is used of it is the hypothesis \<open>aead_ok\<close>. The clock and
  the source of randomness are functions of a world \<open>'w\<close> that each call advances; a time
  is a number of nanoseconds since the epoch.
\<close>

section \<open>Parameters\<close>

record aead =
  aead_seal :: "byte list \<Rightarrow> byte list \<Rightarrow> byte list \<Rightarrow> byte list \<Rightarrow> byte list"
  aead_open :: "byte list \<Rightarrow> byte list \<Rightarrow> byte list \<Rightarrow> byte list \<Rightarrow> byte list option"

text \<open>
  The arguments are the key, the nonce, the text and the additional data. With a key and a
  nonce of the right length, \<open>Open\<close> recovers what \<open>Seal\<close> sealed, and \<open>Seal\<close> adds a
  tag of 16 bytes.
\<close>

definition aead_ok :: "aead \<Rightarrow> bool" where
  "aead_ok a \<longleftrightarrow>
     (\<forall>key nonce text ad. length key = 32 \<longrightarrow> length nonce = 24 \<longrightarrow>
        aead_open a key nonce (aead_seal a key nonce text ad) ad = Some text \<and>
        length (aead_seal a key nonce text ad) = length text + 16)"

type_synonym 'w clock = "'w \<Rightarrow> int \<times> 'w"

text \<open>\<open>io.ReadFull\<close> on a reader: an error text, or exactly as many bytes as asked for.\<close>

type_synonym 'w reader = "nat \<Rightarrow> 'w \<Rightarrow> (string + byte list) \<times> 'w"

section \<open>Errors\<close>

text \<open>The sentinels, and the errors that wrap one of them or something else.\<close>

datatype branca_error =
    ErrTokenMalformed
  | ErrTokenInvalid
  | ErrTokenExpired
  | ErrInvalidKey
  | KeyLength nat
  | UnsupportedVersion byte
  | ExpiredAt int int
  | UnmarshalPayload string
  | MarshalPayload string
  | GenerateNonce string
  | TimestampRange int
  | AeadKeyLength nat

fun branca_Unwrap :: "branca_error \<Rightarrow> branca_error option" where
  "branca_Unwrap (KeyLength n) = Some ErrInvalidKey"
| "branca_Unwrap (UnsupportedVersion v) = Some ErrTokenMalformed"
| "branca_Unwrap (ExpiredAt t ttl) = Some ErrTokenExpired"
| "branca_Unwrap (UnmarshalPayload msg) = Some ErrTokenMalformed"
| "branca_Unwrap _ = None"

definition branca_Is :: "branca_error \<Rightarrow> branca_error \<Rightarrow> bool" where
  "branca_Is err target \<longleftrightarrow> err = target \<or> branca_Unwrap err = Some target"

section \<open>Keys and options\<close>

definition KeySize :: nat where "KeySize = 32"
definition versionByte :: byte where "versionByte = 0xBA"
definition nonceSize :: nat where "nonceSize = 24"
definition headerSize :: nat where "headerSize = 1 + 4 + nonceSize"
definition tagSize :: nat where "tagSize = 16"
definition minTokenLen :: nat where "minTokenLen = headerSize + tagSize"

lemmas branca_sizes [simp] =
  KeySize_def versionByte_def nonceSize_def headerSize_def tagSize_def minTokenLen_def

record 'w branca =
  br_key :: "byte list"
  br_now :: "'w clock"
  br_rand :: "'w reader"

type_synonym 'w branca_option = "'w branca \<Rightarrow> 'w branca"

definition WithNow :: "'w clock option \<Rightarrow> 'w branca_option" where
  "WithNow now = (\<lambda>b. case now of None \<Rightarrow> b | Some now \<Rightarrow> b\<lparr>br_now := now\<rparr>)"

definition WithRand :: "'w reader option \<Rightarrow> 'w branca_option" where
  "WithRand r = (\<lambda>b. case r of None \<Rightarrow> b | Some r \<Rightarrow> b\<lparr>br_rand := r\<rparr>)"

text \<open>The system clock and the system's randomness are the first two arguments.\<close>

definition NewBranca ::
  "'w clock \<Rightarrow> 'w reader \<Rightarrow> byte list \<Rightarrow> 'w branca_option option list
     \<Rightarrow> branca_error + 'w branca" where
  "NewBranca sys_now sys_rand key opts =
     (if length key \<noteq> KeySize then Inl (KeyLength (length key))
      else Inr (foldl (\<lambda>b opt. case opt of None \<Rightarrow> b | Some opt \<Rightarrow> opt b)
        \<lparr>br_key = key, br_now = sys_now, br_rand = sys_rand\<rparr> opts))"

section \<open>Issuing\<close>

definition PutUint32 :: "32 word \<Rightarrow> byte list" where
  "PutUint32 v =
     [ucast (drop_bit 24 v), ucast (drop_bit 16 v), ucast (drop_bit 8 v), ucast v]"

definition Uint32 :: "byte list \<Rightarrow> 32 word" where
  "Uint32 b =
     ucast (b ! 3) OR push_bit 8 (ucast (b ! 2)) OR push_bit 16 (ucast (b ! 1)) OR
     push_bit 24 (ucast (b ! 0))"

definition time_Unix :: "int \<Rightarrow> int" where
  "time_Unix t = t div 1000000000"

definition encodeBytes ::
  "aead \<Rightarrow> 'w branca \<Rightarrow> byte list \<Rightarrow> 'w \<Rightarrow> (branca_error + string) \<times> 'w" where
  "encodeBytes a b payload w =
     (case br_rand b nonceSize w of
        (Inl err, w) \<Rightarrow> (Inl (GenerateNonce err), w)
      | (Inr nonce, w) \<Rightarrow>
          let (now, w) = br_now b w in
          if time_Unix now < 0 \<or> time_Unix now > 4294967295
          then (Inl (TimestampRange (time_Unix now)), w)
          else
            let header = [versionByte] @ PutUint32 (word_of_int (time_Unix now)) @ nonce in
            if length (br_key b) \<noteq> KeySize then (Inl (AeadKeyLength (length (br_key b))), w)
            else
              let sealed = aead_seal a (br_key b) nonce payload header
              in (Inr (base62Encode (header @ sealed)), w))"

definition Encode ::
  "('v \<Rightarrow> string + byte list) \<Rightarrow> aead \<Rightarrow> 'w branca \<Rightarrow> 'v \<Rightarrow> 'w \<Rightarrow> (branca_error + string) \<times> 'w" where
  "Encode marshal a b v w =
     (case marshal v of
        Inl err \<Rightarrow> (Inl (MarshalPayload err), w)
      | Inr raw \<Rightarrow> encodeBytes a b raw w)"

section \<open>Opening\<close>

record token =
  tk_Token :: string
  tk_Timestamp :: int
  tk_Payload :: "byte list"

text \<open>
  \<open>digit\<close> is what the shared variable of the base62 decoder holds when the call starts.
  The clock is read only when there is a TTL to check.
\<close>

definition open_token ::
  "aead \<Rightarrow> 'w branca \<Rightarrow> string \<Rightarrow> int \<Rightarrow> nat \<Rightarrow> 'w \<Rightarrow> (branca_error + token) \<times> 'w" where
  "open_token a b tok ttl digit w =
     (case fst (base62Decode tok digit) of
        Inl err \<Rightarrow> (Inl ErrTokenMalformed, w)
      | Inr decoded \<Rightarrow>
          if length decoded < minTokenLen then (Inl ErrTokenMalformed, w)
          else if decoded ! 0 \<noteq> versionByte then (Inl (UnsupportedVersion (decoded ! 0)), w)
          else
            let header = take headerSize decoded;
                nonce = drop 5 (take headerSize decoded);
                timestamp = uint (Uint32 (drop 1 (take 5 decoded))) * 1000000000 in
            if length (br_key b) \<noteq> KeySize then (Inl (AeadKeyLength (length (br_key b))), w)
            else (case aead_open a (br_key b) nonce (drop headerSize decoded) header of
                None \<Rightarrow> (Inl ErrTokenInvalid, w)
              | Some payload \<Rightarrow>
                  let (expired, w) =
                        (if ttl > 0 then let (now, w) = br_now b w in (now > timestamp + ttl, w)
                         else (False, w)) in
                  if expired then (Inl (ExpiredAt timestamp ttl), w)
                  else (Inr \<lparr>tk_Token = tok, tk_Timestamp = timestamp, tk_Payload = payload\<rparr>, w)))"

text \<open>\<open>UnmarshalBinary\<close> may change its receiver even when it fails.\<close>

definition Decode ::
  "(byte list \<Rightarrow> 'v \<Rightarrow> string option \<times> 'v) \<Rightarrow> aead \<Rightarrow> 'w branca \<Rightarrow> string \<Rightarrow> int \<Rightarrow> 'v \<Rightarrow> nat \<Rightarrow> 'w
     \<Rightarrow> (branca_error + token) \<times> 'v \<times> 'w" where
  "Decode unmarshal a b tok ttl into digit w =
     (case open_token a b tok ttl digit w of
        (Inl err, w) \<Rightarrow> (Inl err, into, w)
      | (Inr t, w) \<Rightarrow>
          (case unmarshal (tk_Payload t) into of
             (Some err, into) \<Rightarrow> (Inl (UnmarshalPayload err), into, w)
           | (None, into) \<Rightarrow> (Inr t, into, w)))"

text \<open>The raw payload type of the package.\<close>

definition Bytes_MarshalBinary :: "byte list \<Rightarrow> string + byte list" where
  "Bytes_MarshalBinary b = Inr b"

definition Bytes_UnmarshalBinary :: "byte list \<Rightarrow> byte list \<Rightarrow> string option \<times> byte list" where
  "Bytes_UnmarshalBinary raw b = (None, take 0 b @ raw)"

section \<open>The timestamp field\<close>

lemma length_PutUint32 [simp]: "length (PutUint32 v) = 4"
  by (simp add: PutUint32_def)

lemma Uint32_PutUint32: "Uint32 (PutUint32 v) = v"
proof (rule bit_word_eqI)
  fix n
  assume "n < LENGTH(32)"
  moreover have "k \<le> n \<Longrightarrow> bit v (k + (n - k)) = bit v n" for k
    by simp
  ultimately show "bit (Uint32 (PutUint32 v)) n \<longleftrightarrow> bit v n"
    by (cases "24 \<le> n"; cases "16 \<le> n"; cases "8 \<le> n")
      (auto simp: Uint32_def PutUint32_def bit_simps)
qed

interpretation u32: partial_codec PutUint32 "\<lambda>bs. Inr (Uint32 bs)" "\<lambda>v. True"
  by unfold_locales (simp add: Uint32_PutUint32)

lemma timestamp_word: "0 \<le> t \<Longrightarrow> t \<le> 4294967295 \<Longrightarrow> uint (word_of_int t :: 32 word) = t"
  by (simp add: uint_word_of_int take_bit_int_eq_self)

section \<open>What tokens are good for\<close>

text \<open>A wire token: the header, then the sealed payload; its fields are read back.\<close>

definition wire :: "32 word \<Rightarrow> byte list \<Rightarrow> byte list \<Rightarrow> byte list" where
  "wire ts nonce sealed = [versionByte] @ PutUint32 ts @ nonce @ sealed"

lemma wire_fields:
  assumes "length nonce = 24" and "16 \<le> length sealed"
  shows "\<not> length (wire ts nonce sealed) < minTokenLen"
    and "wire ts nonce sealed ! 0 = versionByte"
    and "take headerSize (wire ts nonce sealed) = [versionByte] @ PutUint32 ts @ nonce"
    and "drop 5 (take headerSize (wire ts nonce sealed)) = nonce"
    and "drop 1 (take 5 (wire ts nonce sealed)) = PutUint32 ts"
    and "drop headerSize (wire ts nonce sealed) = sealed"
  using assms by (simp_all add: wire_def PutUint32_def)

lemma wire_inj:
  assumes "length nonce = length nonce'"
  shows "wire ts nonce sealed = wire ts' nonce' sealed' \<longleftrightarrow>
    ts = ts' \<and> nonce = nonce' \<and> sealed = sealed'"
  using assms u32.enc_inj by (auto simp: wire_def)

lemma wire_source: "base62_source (wire ts nonce sealed)"
  by (simp add: wire_def base62_source_def)

text \<open>Every token that \<open>encodeBytes\<close> issues is the base62 form of a wire token.\<close>

lemma encodeBytes_wire:
  assumes "fst (encodeBytes a b payload w) = Inr tok"
  obtains nonce now w1 where "br_rand b 24 w = (Inr nonce, w1)" and "now = fst (br_now b w1)"
    and "0 \<le> time_Unix now" and "time_Unix now \<le> 4294967295" and "length (br_key b) = 32"
    and "tok = base62Encode (wire (word_of_int (time_Unix now)) nonce
      (aead_seal a (br_key b) nonce payload
        ([versionByte] @ PutUint32 (word_of_int (time_Unix now)) @ nonce)))"
  using assms
  by (auto simp: encodeBytes_def wire_def Let_def simp del: versionByte_def
      split: prod.splits sum.splits if_splits)

text \<open>What \<open>open_token\<close> does on a wire token.\<close>

lemma open_wire:
  assumes "length nonce = 24" and "16 \<le> length sealed" and "length (br_key b) = 32"
    and "base62_decoded tok = Inr (wire ts nonce sealed)"
  shows "open_token a b tok ttl digit w =
    (case aead_open a (br_key b) nonce sealed ([versionByte] @ PutUint32 ts @ nonce) of
       None \<Rightarrow> (Inl ErrTokenInvalid, w)
     | Some payload \<Rightarrow>
         let stamp = uint ts * 1000000000 in
         if ttl > 0 \<and> fst (br_now b w) > stamp + ttl then (Inl (ExpiredAt stamp ttl), snd (br_now b w))
         else (Inr \<lparr>tk_Token = tok, tk_Timestamp = stamp, tk_Payload = payload\<rparr>,
           if ttl > 0 then snd (br_now b w) else w))"
  using assms wire_fields [OF assms(1,2), of ts]
  by (simp add: open_token_def base62Decode_alone Uint32_PutUint32 Let_def
      del: minTokenLen_def headerSize_def versionByte_def split: option.split prod.split)

section \<open>A worked instance\<close>

text \<open>
  An AEAD with the two laws (it protects nothing), a clock that stands still, a source of
  sevens, and the token they make; the witnesses use them.
\<close>

definition toy_aead :: aead where
  "toy_aead =
     \<lparr>aead_seal = (\<lambda>key nonce text ad. text @ replicate 16 0),
      aead_open = (\<lambda>key nonce text ad.
        if drop (length text - 16) text = replicate 16 0 then Some (take (length text - 16) text)
        else None)\<rparr>"

definition toy_branca :: "unit branca" where
  "toy_branca =
     \<lparr>br_key = replicate 32 1, br_now = (\<lambda>w. (1700000000500000000, w)),
      br_rand = (\<lambda>n w. (Inr (replicate n 7), w))\<rparr>"

lemma toy_aead_ok: "aead_ok toy_aead"
  by (simp add: aead_ok_def toy_aead_def)

lemma toy_branca_simps:
  "length (br_key toy_branca) = 32" "br_rand toy_branca 24 () = (Inr (replicate 24 7), ())"
  "br_now toy_branca () = (1700000000500000000, ())" "length (replicate 24 (7 :: byte)) = 24"
  "time_Unix 1700000000500000000 = 1700000000"
  by (simp_all add: toy_branca_def time_Unix_def)

section \<open>Properties\<close>

text \<open>C13: A token opens to what went in. With a key of 32 bytes, a nonce of 24 and a clock between 1970
and 2106, \<open>encodeBytes\<close> succeeds; whoever holds the key gets back the payload and the time of
issue, cut to seconds, unless a positive TTL has passed when the clock is read at opening, which is
answered with an error that is \<open>ErrTokenExpired\<close>. A TTL of zero or less never expires.\<close>

theorem token_round_trip:
  assumes aead: "aead_ok a" and key: "length (br_key b) = 32" "br_key b' = br_key b"
    and nonce: "br_rand b 24 w = (Inr nonce, w1)" "length nonce = 24"
    and now: "br_now b w1 = (now, w2)" "0 \<le> time_Unix now" "time_Unix now \<le> 4294967295"
  shows "\<exists>tok. fst (encodeBytes a b payload w) = Inr tok \<and>
    fst (open_token a b' tok ttl digit w') =
      (if ttl > 0 \<and> fst (br_now b' w') > time_Unix now * 1000000000 + ttl
       then Inl (ExpiredAt (time_Unix now * 1000000000) ttl)
       else Inr \<lparr>tk_Token = tok, tk_Timestamp = time_Unix now * 1000000000, tk_Payload = payload\<rparr>)"
proof -
  let ?ts = "word_of_int (time_Unix now) :: 32 word"
  let ?header = "[versionByte] @ PutUint32 ?ts @ nonce"
  let ?sealed = "aead_seal a (br_key b) nonce payload ?header"
  let ?tok = "base62Encode (wire ?ts nonce ?sealed)"
  have sealed: "aead_open a (br_key b') nonce ?sealed ?header = Some payload" "16 \<le> length ?sealed"
    using aead key nonce(2) by (simp_all add: aead_ok_def)
  have "fst (encodeBytes a b payload w) = Inr ?tok"
    using key nonce now by (simp add: encodeBytes_def wire_def)
  moreover have "base62_decoded ?tok = Inr (wire ?ts nonce ?sealed)"
    by (rule base62.dec_enc [OF wire_source])
  moreover have "uint ?ts = time_Unix now"
    using now by (rule_tac timestamp_word)
  ultimately show ?thesis
    using open_wire [of nonce ?sealed b' ?tok ?ts a ttl digit w'] nonce(2) sealed key
    by (intro exI [of _ ?tok]) (simp add: Let_def)
qed

theorem token_round_trip_witness:
  "\<exists>tok. fst (encodeBytes toy_aead toy_branca [104, 105] ()) = Inr tok \<and>
     fst (open_token toy_aead toy_branca tok 0 0 ()) =
       Inr \<lparr>tk_Token = tok, tk_Timestamp = 1700000000000000000, tk_Payload = [104, 105]\<rparr>"
  using token_round_trip [OF toy_aead_ok toy_branca_simps(1) refl toy_branca_simps(2,4,3),
      of "[104, 105]" 0 0 "()"]
  by (simp add: toy_branca_simps)

text \<open>C14: Nothing is returned, and no expiry is reported, before the token has been authenticated: if
\<open>open_token\<close> yields a token or an expiry error, the text decoded to a wire token with the version
byte, the AEAD accepted its ciphertext under the key, the nonce of the header and the whole header as
additional data, and the timestamp reported is the one in that header.\<close>

theorem opened_tokens_are_authentic:
  assumes "fst (open_token a b tok ttl digit w) = Inr t \<or>
    fst (open_token a b tok ttl digit w) = Inl (ExpiredAt stamp ttl)"
  shows "\<exists>decoded payload. base62_decoded tok = Inr decoded \<and> 45 \<le> length decoded \<and>
    decoded ! 0 = 0xBA \<and> length (br_key b) = 32 \<and>
    aead_open a (br_key b) (drop 5 (take 29 decoded)) (drop 29 decoded) (take 29 decoded) =
      Some payload \<and>
    (fst (open_token a b tok ttl digit w) = Inr t \<longrightarrow> tk_Payload t = payload \<and> tk_Token t = tok \<and>
       tk_Timestamp t = uint (Uint32 (drop 1 (take 5 decoded))) * 1000000000) \<and>
    (fst (open_token a b tok ttl digit w) = Inl (ExpiredAt stamp ttl) \<longrightarrow> 0 < ttl \<and>
       stamp = uint (Uint32 (drop 1 (take 5 decoded))) * 1000000000)"
proof -
  obtain decoded where decoded: "base62_decoded tok = Inr decoded"
    using assms by (cases "base62_decoded tok") (auto simp: open_token_def base62Decode_alone)
  show ?thesis
    using assms decoded
    by - (rule exI [of _ decoded],
      auto simp: open_token_def base62Decode_alone Let_def split: if_splits option.splits prod.splits)
qed

theorem opened_tokens_are_authentic_witness:
  "\<exists>tok t. fst (open_token toy_aead toy_branca tok 0 0 ()) = Inr t \<and> tk_Payload t = [9] \<and>
     (\<exists>decoded. base62_decoded tok = Inr decoded \<and> 45 \<le> length decoded \<and> decoded ! 0 = 0xBA)"
proof -
  let ?nonce = "replicate 24 (7 :: byte)" and ?sealed = "9 # replicate 16 (0 :: byte)"
  let ?tok = "base62Encode (wire 5 ?nonce ?sealed)"
  let ?t = "\<lparr>tk_Token = ?tok, tk_Timestamp = 5000000000, tk_Payload = [9]\<rparr>"
  have "base62_decoded ?tok = Inr (wire 5 ?nonce ?sealed)"
    by (rule base62.dec_enc [OF wire_source])
  then have opened: "fst (open_token toy_aead toy_branca ?tok 0 0 ()) = Inr ?t"
    using open_wire [of ?nonce ?sealed toy_branca ?tok 5 toy_aead 0 0 "()"]
    by (simp add: toy_branca_simps(1)) (simp add: toy_aead_def)
  then show ?thesis
    using opened_tokens_are_authentic [OF disjI1 [OF opened], of 0] by fastforce
qed

text \<open>Tokens determine their content: two tokens that were issued under one key with equal text carry
the same time of issue, the same nonce and the same payload.\<close>

theorem equal_tokens_equal_content:
  assumes aead: "aead_ok a"
    and t1: "fst (encodeBytes a b p1 w1) = Inr tok" "br_rand b 24 w1 = (Inr n1, v1)" "length n1 = 24"
    and t2: "fst (encodeBytes a b p2 w2) = Inr tok" "br_rand b 24 w2 = (Inr n2, v2)" "length n2 = 24"
  shows "p1 = p2 \<and> n1 = n2 \<and> time_Unix (fst (br_now b v1)) = time_Unix (fst (br_now b v2))"
proof -
  let ?t1 = "time_Unix (fst (br_now b v1))" and ?t2 = "time_Unix (fst (br_now b v2))"
  let ?h = "\<lambda>t n. [versionByte] @ PutUint32 (word_of_int t) @ n"
  let ?s = "\<lambda>p t n. aead_seal a (br_key b) n p (?h t n)"
  have r1: "0 \<le> ?t1" "?t1 \<le> 4294967295" "length (br_key b) = 32"
    and e1: "tok = base62Encode (wire (word_of_int ?t1) n1 (?s p1 ?t1 n1))"
    using encodeBytes_wire [OF t1(1)] t1(2) by auto
  have r2: "0 \<le> ?t2" "?t2 \<le> 4294967295"
    and e2: "tok = base62Encode (wire (word_of_int ?t2) n2 (?s p2 ?t2 n2))"
    using encodeBytes_wire [OF t2(1)] t2(2) by auto
  have "wire (word_of_int ?t1) n1 (?s p1 ?t1 n1) = wire (word_of_int ?t2) n2 (?s p2 ?t2 n2)"
    using e1 e2 base62.enc_inj [OF wire_source wire_source] by metis
  then have same: "(word_of_int ?t1 :: 32 word) = word_of_int ?t2" "n1 = n2"
    "?s p1 ?t1 n1 = ?s p2 ?t2 n2"
    using wire_inj [of n1 n2] t1(3) t2(3) by auto
  then have "?t1 = ?t2"
    using timestamp_word [OF r1(1,2)] timestamp_word [OF r2] by metis
  moreover have "Some p1 = Some p2"
    using aead r1(3) t1(3) same unfolding aead_ok_def by (metis calculation)
  ultimately show ?thesis
    using same(2) by simp
qed

theorem equal_tokens_equal_content_witness:
  "\<exists>tok. fst (encodeBytes toy_aead toy_branca [1, 2] ()) = Inr tok \<and>
     (\<forall>p. p \<noteq> [1, 2] \<longrightarrow> fst (encodeBytes toy_aead toy_branca p ()) \<noteq> Inr tok)"
proof -
  obtain tok where tok: "fst (encodeBytes toy_aead toy_branca [1, 2] ()) = Inr tok"
    using toy_branca_simps by (simp add: encodeBytes_def)
  have "p = [1, 2]" if "fst (encodeBytes toy_aead toy_branca p ()) = Inr tok" for p
    using equal_tokens_equal_content [OF toy_aead_ok that toy_branca_simps(2,4) tok toy_branca_simps(2,4)]
    by blast
  with tok show ?thesis
    by blast
qed

end
