(* ===== verification/Crypto_Hmac.thy ===== *)
theory Crypto_Hmac
  imports "HOL-Library.Word"
begin

unbundle bit_operations_syntax

text \<open>
  \<open>crypto/sha256\<close> and \<open>crypto/hmac\<close> of Go's standard library, as FIPS 180-4 and FIPS
  198-1 define them: the MAC behind the algorithm HS256. A byte slice is a \<open>string\<close>.
\<close>

section \<open>SHA-256\<close>

type_synonym word32 = "32 word"

definition ROTR :: "nat \<Rightarrow> word32 \<Rightarrow> word32" where
  "ROTR n x = drop_bit n x OR push_bit (32 - n) x"

definition Ch :: "word32 \<Rightarrow> word32 \<Rightarrow> word32 \<Rightarrow> word32" where
  "Ch x y z = (x AND y) XOR (NOT x AND z)"

definition Maj :: "word32 \<Rightarrow> word32 \<Rightarrow> word32 \<Rightarrow> word32" where
  "Maj x y z = (x AND y) XOR (x AND z) XOR (y AND z)"

definition Sigma0 :: "word32 \<Rightarrow> word32" where
  "Sigma0 x = ROTR 2 x XOR ROTR 13 x XOR ROTR 22 x"

definition Sigma1 :: "word32 \<Rightarrow> word32" where
  "Sigma1 x = ROTR 6 x XOR ROTR 11 x XOR ROTR 25 x"

definition sigma0 :: "word32 \<Rightarrow> word32" where
  "sigma0 x = ROTR 7 x XOR ROTR 18 x XOR drop_bit 3 x"

definition sigma1 :: "word32 \<Rightarrow> word32" where
  "sigma1 x = ROTR 17 x XOR ROTR 19 x XOR drop_bit 10 x"

definition round_constants :: "word32 list" where
  "round_constants =
     [1116352408, 1899447441, 3049323471, 3921009573, 961987163, 1508970993, 2453635748, 2870763221,
      3624381080, 310598401, 607225278, 1426881987, 1925078388, 2162078206, 2614888103, 3248222580,
      3835390401, 4022224774, 264347078, 604807628, 770255983, 1249150122, 1555081692, 1996064986,
      2554220882, 2821834349, 2952996808, 3210313671, 3336571891, 3584528711, 113926993, 338241895,
      666307205, 773529912, 1294757372, 1396182291, 1695183700, 1986661051, 2177026350, 2456956037,
      2730485921, 2820302411, 3259730800, 3345764771, 3516065817, 3600352804, 4094571909, 275423344,
      430227734, 506948616, 659060556, 883997877, 958139571, 1322822218, 1537002063, 1747873779,
      1955562222, 2024104815, 2227730452, 2361852424, 2428436474, 2756734187, 3204031479, 3329325298]"

type_synonym hash_state = "word32 \<times> word32 \<times> word32 \<times> word32 \<times> word32 \<times> word32 \<times> word32 \<times> word32"

definition initial_hash :: hash_state where
  "initial_hash =
     (1779033703, 3144134277, 1013904242, 2773480762, 1359893119, 2600822924, 528734635, 1541459225)"

text \<open>Bytes and words, big-endian.\<close>

fun bytes_word :: "string \<Rightarrow> word32" where
  "bytes_word bs = foldl (\<lambda>w c. w * 256 + of_char c) 0 bs"

definition word_bytes :: "word32 \<Rightarrow> string" where
  "word_bytes w = map (\<lambda>n. char_of (uint (drop_bit n w) mod 256)) [24, 16, 8, 0]"

function split_every :: "nat \<Rightarrow> string \<Rightarrow> string list" where
  "split_every n s = (if s = [] \<or> n = 0 then [] else take n s # split_every n (drop n s))"
  by pat_completeness auto
termination
  by (relation "measure (\<lambda>(n, s). length s)") auto

declare split_every.simps [simp del]

definition pad_message :: "string \<Rightarrow> string" where
  "pad_message m =
     (let bits = int (length m) * 8
      in m @ [CHR 0x80] @ replicate (nat ((55 - int (length m)) mod 64)) (CHR 0x00) @
         map (\<lambda>n. char_of (bits div 256 ^ n mod 256)) [7, 6, 5, 4, 3, 2, 1, 0])"

text \<open>The message schedule, with its latest word first.\<close>

fun extend_schedule :: "nat \<Rightarrow> word32 list \<Rightarrow> word32 list" where
  "extend_schedule 0 ws = ws"
| "extend_schedule (Suc n) ws =
     extend_schedule n ((sigma1 (ws ! 1) + ws ! 6 + sigma0 (ws ! 14) + ws ! 15) # ws)"

definition message_schedule :: "string \<Rightarrow> word32 list" where
  "message_schedule block = rev (extend_schedule 48 (rev (map bytes_word (split_every 4 block))))"

fun sha_round :: "hash_state \<Rightarrow> word32 \<times> word32 \<Rightarrow> hash_state" where
  "sha_round (a, b, c, d, e, f, g, h) (k, w) =
     (let t1 = h + Sigma1 e + Ch e f g + k + w;
          t2 = Sigma0 a + Maj a b c
      in (t1 + t2, a, b, c, d + t1, e, f, g))"

fun add_state :: "hash_state \<Rightarrow> hash_state \<Rightarrow> hash_state" where
  "add_state (a, b, c, d, e, f, g, h) (a', b', c', d', e', f', g', h') =
     (a + a', b + b', c + c', d + d', e + e', f + f', g + g', h + h')"

definition compress :: "hash_state \<Rightarrow> string \<Rightarrow> hash_state" where
  "compress st block =
     add_state st (foldl sha_round st (zip round_constants (message_schedule block)))"

definition sha256 :: "string \<Rightarrow> string" where
  "sha256 m =
     (case foldl compress initial_hash (split_every 64 (pad_message m)) of
        (a, b, c, d, e, f, g, h) \<Rightarrow> concat (map word_bytes [a, b, c, d, e, f, g, h]))"

section \<open>HMAC\<close>

definition hmac_block :: nat where
  "hmac_block = 64"

definition hmac_key :: "string \<Rightarrow> string" where
  "hmac_key key =
     (let k = (if length key > hmac_block then sha256 key else key)
      in k @ replicate (hmac_block - length k) (CHR 0x00))"

definition xor_pad :: "int \<Rightarrow> string \<Rightarrow> string" where
  "xor_pad p k = map (\<lambda>c. char_of (of_char c XOR p)) k"

definition hmac_sha256 :: "string \<Rightarrow> string \<Rightarrow> string" where
  "hmac_sha256 key m =
     (let k = hmac_key key in sha256 (xor_pad 0x5c k @ sha256 (xor_pad 0x36 k @ m)))"

lemma length_sha256 [simp]: "length (sha256 m) = 32"
  by (simp add: sha256_def word_bytes_def split: prod.split)

end
