(* ===== verification/Go_Members.thy ===== *)
theory Go_Members
  imports Go_Prelude "HOL-Library.Multiset"
begin

text \<open>
  A Go map from strings as \<open>encoding/json\<close> writes it: the list of its members by ascending
  key. \<open>map_put\<close> is the assignment \<open>m[k] = v\<close>, \<open>map_build\<close> a loop of assignments.
\<close>

fun map_put :: "string \<Rightarrow> 'a \<Rightarrow> (string \<times> 'a) list \<Rightarrow> (string \<times> 'a) list" where
  "map_put k v [] = [(k, v)]"
| "map_put k v ((k', v') # m) =
     (if k < k' then (k, v) # (k', v') # m
      else if k = k' then (k, v) # m
      else (k', v') # map_put k v m)"

definition map_build :: "(string \<times> 'a) list \<Rightarrow> (string \<times> 'a) list \<Rightarrow> (string \<times> 'a) list" where
  "map_build m ms = foldl (\<lambda>m (k, v). map_put k v m) m ms"

definition map_ok :: "(string \<times> 'a) list \<Rightarrow> bool" where
  "map_ok m \<longleftrightarrow> sorted_wrt (<) (map fst m)"

lemma map_ok_Nil [simp]: "map_ok []"
  by (simp add: map_ok_def)

lemma map_build_Nil [simp]: "map_build m [] = m"
  by (simp add: map_build_def)

lemma map_build_Cons [simp]: "map_build m (x # ms) = map_build (map_put (fst x) (snd x) m) ms"
  by (simp add: map_build_def case_prod_beta')

lemma map_build_append [simp]: "map_build m (ms @ ns) = map_build (map_build m ms) ns"
  by (simp add: map_build_def)

lemma set_map_put: "fst ` set (map_put k v m) = insert k (fst ` set m)"
  by (induction k v m rule: map_put.induct) auto

lemma map_put_members: "set (map_put k v m) \<subseteq> insert (k, v) (set m)"
  by (induction k v m rule: map_put.induct) auto

lemma map_build_members: "set (map_build m ms) \<subseteq> set m \<union> set ms"
proof (induction ms arbitrary: m)
  case (Cons x ms)
  then show ?case
    using map_put_members [of "fst x" "snd x" m] by (cases x) fastforce
qed simp

lemma map_build_member: "x \<in> set (map_build [] ms) \<Longrightarrow> x \<in> set ms"
  using map_build_members [of "[]" ms] by auto

lemma map_ok_put: "map_ok m \<Longrightarrow> map_ok (map_put k v m)"
proof (induction k v m rule: map_put.induct)
  case (2 k v k' v' m)
  then show ?case
    using set_map_put [of k v m] by (auto simp: map_ok_def)
qed (simp add: map_ok_def)

lemma map_of_put: "map_ok m \<Longrightarrow> map_of (map_put k v m) = (map_of m)(k \<mapsto> v)"
proof (induction k v m rule: map_put.induct)
  case (2 k v k' v' m)
  then show ?case
    by (cases k k' rule: linorder_cases) (auto simp: map_ok_def fun_eq_iff)
qed auto

lemma map_ok_build: "map_ok m \<Longrightarrow> map_ok (map_build m ms)"
  by (induction ms arbitrary: m) (simp_all add: map_ok_put)

lemma map_of_build:
  assumes "map_ok m" and "distinct (map fst ms)"
  shows "map_of (map_build m ms) = map_of m ++ map_of ms"
  using assms
proof (induction ms arbitrary: m)
  case (Cons x ms)
  moreover from Cons.prems have "fst x \<notin> dom (map_of ms)"
    by (simp add: dom_map_of_conv_image_fst)
  ultimately show ?case
    by (cases x) (auto simp: map_ok_put map_of_put fun_eq_iff map_add_def split: option.split)
qed simp

lemma map_put_last: "map_ok (m @ [(k, w)]) \<Longrightarrow> map_put k v m = m @ [(k, v)]"
  by (induction m) (auto simp: map_ok_def sorted_wrt_append)

lemma map_ok_prefix: "map_ok (m @ n) \<Longrightarrow> map_ok m"
  by (simp add: map_ok_def sorted_wrt_append)

text \<open>A map that is built from its own members is the same map.\<close>

lemma map_build_id: "map_ok m \<Longrightarrow> map_build [] m = m"
proof (induction m rule: rev_induct)
  case (snoc x m)
  then show ?case
    using map_put_last [of m "fst x" "snd x" "snd x"] map_ok_prefix [of m "[x]"] by simp
qed simp

lemma map_ok_distinct: "map_ok m \<Longrightarrow> distinct (map fst m)"
  by (simp add: map_ok_def strict_sorted_iff)

lemma map_ok_ext:
  assumes "map_ok m" and "map_ok n" and "map_of m = map_of n"
  shows "m = n"
proof -
  have d: "distinct (map fst m)" "distinct (map fst n)"
    using assms(1,2) by (simp_all add: map_ok_distinct)
  have "set m = set n"
    using assms(3) map_of_eq_Some_iff [OF d(1)] map_of_eq_Some_iff [OF d(2)] by auto
  with assms(1,2) have "map fst m = map fst n"
    by (intro sorted_distinct_set_unique) (simp_all add: map_ok_def strict_sorted_iff)
  then show ?thesis
  proof (rule nth_equalityI [OF map_eq_imp_length_eq])
    fix i
    assume i: "i < length m"
    then have fst: "fst (m ! i) = fst (n ! i)"
      using \<open>map fst m = map fst n\<close> by (metis map_eq_imp_length_eq nth_map)
    have "map_of m (fst (m ! i)) = Some (snd (m ! i))"
      using i d(1) by simp
    moreover have "map_of n (fst (n ! i)) = Some (snd (n ! i))"
      using i d(2) map_eq_imp_length_eq [OF \<open>map fst m = map fst n\<close>] by simp
    ultimately show "m ! i = n ! i"
      using fst assms(3) by (simp add: prod_eq_iff)
  qed
qed

lemma map_ok_map [simp]: "map_ok (map (\<lambda>(k, v). (k, f v)) m) = map_ok m"
  by (simp add: map_ok_def comp_def case_prod_beta')

text \<open>The order in which \<open>range\<close> visits the members of a map.\<close>

definition visits :: "((string \<times> 'a) list \<Rightarrow> (string \<times> 'a) list) \<Rightarrow> bool" where
  "visits ord \<longleftrightarrow> (\<forall>m. mset (ord m) = mset m)"

lemma visits_id [simp]: "visits (\<lambda>m. m)"
  by (simp add: visits_def)

lemma visitsD:
  assumes "visits ord" and "map_ok m"
  shows "distinct (map fst (ord m))" and "set (ord m) = set m" and "map_of (ord m) = map_of m"
proof -
  have eq: "mset (ord m) = mset m"
    using assms(1) by (simp add: visits_def)
  then show set: "set (ord m) = set m"
    by (rule mset_eq_setD)
  have "mset (map fst (ord m)) = mset (map fst m)"
    using eq by simp
  then show d: "distinct (map fst (ord m))"
    using map_ok_distinct [OF assms(2)] by (metis mset_eq_imp_distinct_iff)
  show "map_of (ord m) = map_of m"
    using set d map_ok_distinct [OF assms(2)] by (intro map_of_inject_set [THEN iffD2])
qed

end
