(* ===== verification/Go_Time.thy ===== *)
theory Go_Time
  imports Radix_Digits Json_Lexer "HOL-Library.Signed_Division"
begin

text \<open>
  What the package \<open>jwt\<close> uses of Go's numbers and times: 64-bit arithmetic, the decimal
  form of integers (\<open>strconv\<close>), and \<open>time.Time\<close> as the wall clock keeps it, seconds since
  the first of January of the year 1 in 64 bits and nanoseconds below a second. A duration
  is a 64-bit number of nanoseconds.
\<close>

section \<open>64-bit integers\<close>

definition wrap64 :: "int \<Rightarrow> int" where
  "wrap64 x = (x + 2 ^ 63) mod 2 ^ 64 - 2 ^ 63"

definition int64 :: "int \<Rightarrow> bool" where
  "int64 x \<longleftrightarrow> - (2 ^ 63) \<le> x \<and> x < 2 ^ 63"

lemma wrap64_int64: "int64 (wrap64 x)"
  by (simp add: wrap64_def int64_def)

lemma wrap64_id: "int64 x \<Longrightarrow> wrap64 x = x"
  by (simp add: wrap64_def int64_def)

lemma wrap64_add_wrap: "wrap64 (wrap64 x + y) = wrap64 (x + y)"
  by (simp add: wrap64_def algebra_simps mod_simps)

section \<open>Decimal integers\<close>

interpretation radix10: radix 10
  by unfold_locales simp

definition digit_char :: "nat \<Rightarrow> char" where
  "digit_char d = char_of (48 + d)"

definition char_digit :: "char \<Rightarrow> nat" where
  "char_digit c = of_char c - 48"

definition FormatUint :: "nat \<Rightarrow> string" where
  "FormatUint n = (if n = 0 then ''0'' else map digit_char (digits_of 10 n))"

definition FormatInt :: "int \<Rightarrow> string" where
  "FormatInt i = (if i < 0 then CHR ''-'' # FormatUint (nat (- i)) else FormatUint (nat i))"

text \<open>\<open>strconv.ParseInt\<close> to the base 10, for 64 bits.\<close>

definition ParseInt :: "string \<Rightarrow> int option" where
  "ParseInt s =
     (case s of
        [] \<Rightarrow> None
      | c # r \<Rightarrow>
          let ds = (if c = CHR ''-'' \<or> c = CHR ''+'' then r else s);
              v = int (digits_value 10 (map char_digit ds));
              i = (if c = CHR ''-'' then - v else v)
          in if ds = [] \<or> \<not> list_all is_digit ds \<or> \<not> int64 i then None else Some i)"

lemma digit_char_simps:
  assumes "d < 10"
  shows "is_digit (digit_char d)" and "char_digit (digit_char d) = d"
    and "digit_char d = CHR ''0'' \<longleftrightarrow> d = 0"
proof -
  show "is_digit (digit_char d)" and c: "char_digit (digit_char d) = d"
    using assms by (simp_all add: is_digit_def digit_char_def char_digit_def less_eq_char_def)
  have "digit_char 0 = CHR ''0''" and "char_digit (CHR ''0'') = 0"
    by (simp_all add: digit_char_def char_digit_def char_of_def bit_Suc_0_iff)
  then show "digit_char d = CHR ''0'' \<longleftrightarrow> d = 0"
    using c by metis
qed

lemma FormatUint_digits:
  "list_all is_digit (FormatUint n)" "FormatUint n \<noteq> []"
  "digits_value 10 (map char_digit (FormatUint n)) = n"
  "FormatUint n = ''0'' \<or> hd (FormatUint n) \<noteq> CHR ''0''"
proof -
  have d: "\<forall>d \<in> set (digits_of 10 n). d < 10" and h: "n \<noteq> 0 \<Longrightarrow> hd (digits_of 10 n) \<noteq> 0"
    using radix10.digits_of_canonical [of n] by (auto simp: canonical_digits_def list_all_iff)
  show "list_all is_digit (FormatUint n)" "FormatUint n \<noteq> []"
    using d by (auto simp: FormatUint_def list_all_iff digit_char_simps)
  have "map char_digit (map digit_char (digits_of 10 n)) = digits_of 10 n"
    using d by (auto simp: digit_char_simps intro!: map_idI)
  then show "digits_value 10 (map char_digit (FormatUint n)) = n"
    using radix10.value_of_digits
    by (simp add: FormatUint_def digits_value.simps [of 10 "[_]"] char_digit_def)
  have "hd (digits_of 10 n) < 10" if "n \<noteq> 0"
    using d that by (simp add: hd_in_set)
  then show "FormatUint n = ''0'' \<or> hd (FormatUint n) \<noteq> CHR ''0''"
    using h by (simp add: FormatUint_def hd_map digit_char_simps)
qed

lemma lex_digits_all: "list_all is_digit s \<Longrightarrow> lex_digits s = (s, [])"
  by (simp add: lex_digits_def list_all_iff)

lemma lex_unsigned_FormatUint: "lex_unsigned p (FormatUint n) = Some (p @ FormatUint n, [])"
proof -
  have "lex_int_part (FormatUint n) = Some (FormatUint n, [])"
    using FormatUint_digits [of n] lex_digits_all [of "FormatUint n"]
    by (cases "FormatUint n") (auto simp: lex_int_part_def)
  then show ?thesis
    by (simp add: lex_unsigned_def lex_fraction_def lex_exponent_def)
qed

lemma FormatInt_number: "valid_number (FormatInt i)"
proof (cases "i < 0")
  case True
  then show ?thesis
    by (simp add: valid_number_def FormatInt_def lex_number_def lex_unsigned_FormatUint)
next
  case False
  then obtain c r where "FormatUint (nat i) = c # r" and "is_digit c"
    using FormatUint_digits [of "nat i"] by (cases "FormatUint (nat i)") auto
  moreover have "c \<noteq> CHR ''-''"
    using \<open>is_digit c\<close> is_digit_simps by metis
  ultimately show ?thesis
    using False lex_unsigned_FormatUint [of "[]" "nat i"]
    by (simp add: valid_number_def FormatInt_def lex_number_def)
qed

lemma ParseInt_FormatInt:
  assumes "int64 i"
  shows "ParseInt (FormatInt i) = Some i"
proof (cases "i < 0")
  case True
  then show ?thesis
    using FormatUint_digits [of "nat (- i)"] assms
    by (simp add: ParseInt_def FormatInt_def Let_def)
next
  case False
  then obtain c r where c: "FormatUint (nat i) = c # r" "is_digit c"
    using FormatUint_digits [of "nat i"] by (cases "FormatUint (nat i)") auto
  then have "c \<noteq> CHR ''-''" "c \<noteq> CHR ''+''"
    using is_digit_simps by metis+
  then show ?thesis
    using False c FormatUint_digits [of "nat i"] assms
    by (simp add: ParseInt_def FormatInt_def Let_def)
qed

section \<open>Times\<close>

datatype go_time = GoTime (wall_sec: int) (wall_nsec: int)

definition unixToInternal :: int where
  "unixToInternal = 62135596800"

definition zero_time :: go_time where
  "zero_time = GoTime 0 0"

definition IsZero :: "go_time \<Rightarrow> bool" where
  "IsZero t \<longleftrightarrow> wall_sec t = 0 \<and> wall_nsec t = 0"

text \<open>\<open>Time.Unix\<close> and \<open>time.Unix(sec, 0)\<close>.\<close>

definition Time_Unix :: "go_time \<Rightarrow> int" where
  "Time_Unix t = wrap64 (wall_sec t - unixToInternal)"

definition from_Unix :: "int \<Rightarrow> go_time" where
  "from_Unix s = GoTime (wrap64 (s + unixToInternal)) 0"

text \<open>\<open>Time.Add\<close> carries the nanoseconds and saturates the seconds.\<close>

definition addSec :: "int \<Rightarrow> int \<Rightarrow> int" where
  "addSec s d =
     (let sum = wrap64 (s + d) in
      if (sum > s) = (d > 0) then sum else if d > 0 then 2 ^ 63 - 1 else - (2 ^ 63 - 1))"

definition Time_Add :: "go_time \<Rightarrow> int \<Rightarrow> go_time" where
  "Time_Add t d =
     (let dsec = d sdiv 1000000000;
          nsec = wall_nsec t + d smod 1000000000;
          (dsec, nsec) =
            (if nsec \<ge> 1000000000 then (dsec + 1, nsec - 1000000000)
             else if nsec < 0 then (dsec - 1, nsec + 1000000000)
             else (dsec, nsec))
      in GoTime (addSec (wall_sec t) dsec) nsec)"

text \<open>Times are ordered by seconds, then nanoseconds: \<open>Before\<close> is \<open><\<close>, \<open>After\<close> is \<open>>\<close>.\<close>

instantiation go_time :: linorder
begin

definition less_eq_go_time :: "go_time \<Rightarrow> go_time \<Rightarrow> bool" where
  "less_eq_go_time t u \<longleftrightarrow>
     wall_sec t < wall_sec u \<or> (wall_sec t = wall_sec u \<and> wall_nsec t \<le> wall_nsec u)"

definition less_go_time :: "go_time \<Rightarrow> go_time \<Rightarrow> bool" where
  "less_go_time t u \<longleftrightarrow>
     wall_sec t < wall_sec u \<or> (wall_sec t = wall_sec u \<and> wall_nsec t < wall_nsec u)"

instance
  by standard (auto simp: less_eq_go_time_def less_go_time_def intro: go_time.expand)

end

definition Before :: "go_time \<Rightarrow> go_time \<Rightarrow> bool" where
  "Before t u \<longleftrightarrow> t < u"

definition After :: "go_time \<Rightarrow> go_time \<Rightarrow> bool" where
  "After t u \<longleftrightarrow> u < t"

text \<open>A time a Go program can hold, and the same time as a single number of nanoseconds.\<close>

definition time_ok :: "go_time \<Rightarrow> bool" where
  "time_ok t \<longleftrightarrow> int64 (wall_sec t) \<and> 0 \<le> wall_nsec t \<and> wall_nsec t < 1000000000"

definition nanos :: "go_time \<Rightarrow> int" where
  "nanos t = wall_sec t * 1000000000 + wall_nsec t"

lemma less_nanos: "time_ok t \<Longrightarrow> time_ok u \<Longrightarrow> t < u \<longleftrightarrow> nanos t < nanos u"
  by (auto simp: less_go_time_def nanos_def time_ok_def)

text \<open>A time far from the ends of the range moves by exactly the duration.\<close>

definition time_sane :: "go_time \<Rightarrow> bool" where
  "time_sane t \<longleftrightarrow> time_ok t \<and> - (2 ^ 62) < wall_sec t \<and> wall_sec t < 2 ^ 62"

lemma time_sane_ok: "time_sane t \<Longrightarrow> time_ok t"
  by (simp add: time_sane_def)

lemma addSec_exact: "int64 (s + d) \<Longrightarrow> addSec s d = s + d"
  by (auto simp: addSec_def wrap64_id)

lemma Time_Add_exact:
  assumes "time_sane t" and "int64 d"
  shows "nanos (Time_Add t d) = nanos t + d" and "time_ok (Time_Add t d)"
proof -
  define q r where "q = d sdiv 1000000000" and "r = d smod 1000000000"
  have d: "d = q * 1000000000 + r"
    by (simp add: q_def r_def sdiv_mult_smod_eq)
  have r: "- 1000000000 < r" "r < 1000000000"
    using smod_int_range [of 1000000000 d] by (auto simp: r_def)
  with d assms(2) have q: "- 10000000000 < q" "q < 10000000000"
    by (auto simp: int64_def)
  have exact: "addSec (wall_sec t) (q + k) = wall_sec t + (q + k)" if "k \<in> {- 1, 0, 1}" for k
    using assms(1) q that by (intro addSec_exact) (auto simp: time_sane_def int64_def)
  have add: "Time_Add t d =
    (let n = wall_nsec t + r; k = (if n \<ge> 1000000000 then 1 else if n < 0 then - 1 else 0)
     in GoTime (wall_sec t + (q + k)) (n - k * 1000000000))"
    using exact [of 0] exact [of 1] exact [of "- 1"]
    by (simp add: Time_Add_def Let_def flip: q_def r_def)
  show "nanos (Time_Add t d) = nanos t + d"
    unfolding add using d by (simp add: nanos_def Let_def)
  show "time_ok (Time_Add t d)"
    unfolding add using assms(1) q r by (auto simp: Let_def time_ok_def time_sane_def int64_def)
qed

lemma from_Unix_Time_Unix: "time_ok t \<Longrightarrow> from_Unix (Time_Unix t) = GoTime (wall_sec t) 0"
  by (simp add: from_Unix_def Time_Unix_def wrap64_add_wrap time_ok_def wrap64_id)

end
