(* ===== verification/Jwt_Claims.thy ===== *)
theory Jwt_Claims
  imports Go_Members Go_Time Json_Text
begin

text \<open>
  \<open>jwt/claims.go\<close>: the claims of a token and their JSON form. Registered claims are fields,
  all others are members of \<open>Extra\<close>. A \<open>json.RawMessage\<close> is the value its text stands
  for; the order in which a decoder ranges over the members is the argument \<open>ord\<close>.
\<close>

section \<open>Values of type any\<close>

text \<open>
  The Go values that JSON is decoded into with \<open>UseNumber\<close>, and \<open>AnyForeign\<close> for every
  other one a caller may put into \<open>Extra\<close>: given by the JSON value that its
  \<open>json.Marshal\<close> prints, or \<open>None\<close> if that fails.
\<close>

datatype go_any =
    AnyNil
  | AnyBool bool
  | AnyNumber string
  | AnyString string
  | AnySlice "go_any list"
  | AnyMap "(string \<times> go_any) list"
  | AnyForeign "json option"

fun json_Marshal_any :: "go_any \<Rightarrow> json option" where
  "json_Marshal_any AnyNil = Some JNull"
| "json_Marshal_any (AnyBool b) = Some (JBool b)"
| "json_Marshal_any (AnyNumber l) =
     (let l = (if l = '''' then ''0'' else l)
      in if valid_number l then Some (JNumber l) else None)"
| "json_Marshal_any (AnyString s) = Some (JString s)"
| "json_Marshal_any (AnySlice xs) = map_option JArray (those (map json_Marshal_any xs))"
| "json_Marshal_any (AnyMap ms) =
     map_option JObject (those (map (\<lambda>(k, v). map_option (Pair k) (json_Marshal_any v)) ms))"
| "json_Marshal_any (AnyForeign j) = j"

fun jsonUnmarshalAny :: "json \<Rightarrow> go_any" where
  "jsonUnmarshalAny JNull = AnyNil"
| "jsonUnmarshalAny (JBool b) = AnyBool b"
| "jsonUnmarshalAny (JNumber l) = AnyNumber l"
| "jsonUnmarshalAny (JString s) = AnyString s"
| "jsonUnmarshalAny (JArray js) = AnySlice (map jsonUnmarshalAny js)"
| "jsonUnmarshalAny (JObject ms) = AnyMap (map_build [] (map (\<lambda>(k, v). (k, jsonUnmarshalAny v)) ms))"

section \<open>The audience\<close>

type_synonym audience = "string list"

fun Contains :: "audience \<Rightarrow> string \<Rightarrow> bool" where
  "Contains [] s = False"
| "Contains (v # a) s = (if v = s then True else Contains a s)"

fun Audience_MarshalJSON :: "audience \<Rightarrow> json" where
  "Audience_MarshalJSON [] = JNull"
| "Audience_MarshalJSON [a] = JString a"
| "Audience_MarshalJSON a = JArray (map JString a)"

datatype claim_error =
    SyntaxError
  | NotAnObject
  | TrailingData
  | NotAString
  | NotAnAudience
  | NotANumericDate
  | NotAWholeNumber
  | ClaimError string claim_error
  | ReservedClaim
  | EncodeClaim
  | TooDeep

text \<open>The elements of a \<open>[]string\<close>: \<open>null\<close> leaves the zero value.\<close>

fun string_element :: "json \<Rightarrow> string option" where
  "string_element (JString s) = Some s"
| "string_element JNull = Some ''''"
| "string_element _ = None"

definition Audience_UnmarshalJSON :: "json \<Rightarrow> claim_error + audience" where
  "Audience_UnmarshalJSON j =
     (case j of
        JNull \<Rightarrow> Inr []
      | JString one \<Rightarrow> Inr [one]
      | JArray js \<Rightarrow>
          (case those (map string_element js) of
             Some many \<Rightarrow> Inr many
           | None \<Rightarrow> Inl NotAnAudience)
      | _ \<Rightarrow> Inl NotAnAudience)"

section \<open>Claims\<close>

definition reservedClaims :: "string set" where
  "reservedClaims = {''sub'', ''iss'', ''aud'', ''jti'', ''iat'', ''exp'', ''nbf''}"

record claims =
  Subject :: string
  Issuer :: string
  Audience :: audience
  ClaimID :: string
  IssuedAt :: go_time
  ExpiresAt :: go_time
  NotBefore :: go_time
  Extra :: "(string \<times> go_any) list"

definition zero_claims :: claims where
  "zero_claims =
     \<lparr>Subject = '''', Issuer = '''', Audience = [], ClaimID = '''', IssuedAt = zero_time,
      ExpiresAt = zero_time, NotBefore = zero_time, Extra = []\<rparr>"

section \<open>Encoding\<close>

definition string_member :: "string \<Rightarrow> string \<Rightarrow> (string \<times> json) list" where
  "string_member k s = (if s = '''' then [] else [(k, JString s)])"

definition date_member :: "string \<Rightarrow> go_time \<Rightarrow> (string \<times> json) list" where
  "date_member k t =
     (let s = (if IsZero t then 0 else Time_Unix t)
      in if s = 0 then [] else [(k, JNumber (FormatInt s))])"

text \<open>The struct \<open>registered\<close>: every field has \<open>omitempty\<close>.\<close>

definition registered :: "claims \<Rightarrow> (string \<times> json) list" where
  "registered c =
     string_member ''sub'' (Subject c) @
     string_member ''iss'' (Issuer c) @
     (if Audience c = [] then [] else [(''aud'', Audience_MarshalJSON (Audience c))]) @
     string_member ''jti'' (ClaimID c) @
     date_member ''iat'' (IssuedAt c) @
     date_member ''exp'' (ExpiresAt c) @
     date_member ''nbf'' (NotBefore c)"

fun merge_extra :: "(string \<times> go_any) list \<Rightarrow> (string \<times> json) list \<Rightarrow> claim_error + (string \<times> json) list" where
  "merge_extra [] merged = Inr merged"
| "merge_extra ((name, v) # extra) merged =
     (case json_Marshal_any v of
        None \<Rightarrow> Inl EncodeClaim
      | Some raw \<Rightarrow> merge_extra extra (map_put name raw merged))"

definition MarshalJSON :: "claims \<Rightarrow> claim_error + json" where
  "MarshalJSON c =
     (if list_ex (\<lambda>(name, v). name \<in> reservedClaims) (Extra c) then Inl ReservedClaim
      else
        let payload = registered c in
        if Extra c = [] then Inr (JObject payload)
        else
          let merged = map_build [] payload in
          (case merge_extra (Extra c) merged of
             Inl err \<Rightarrow> Inl err
           | Inr merged \<Rightarrow> Inr (JObject merged)))"

text \<open>\<open>json.Marshal(claims)\<close> checks and compacts what \<open>MarshalJSON\<close> returns; the check fails
on too many open brackets.\<close>

definition json_Marshal_claims :: "claims \<Rightarrow> claim_error + string" where
  "json_Marshal_claims c =
     (case MarshalJSON c of
        Inl err \<Rightarrow> Inl err
      | Inr j \<Rightarrow> if json_depth j > max_nesting then Inl TooDeep else Inr (print_json j))"

section \<open>Decoding\<close>

text \<open>A decoder leaves a string as it was when it reads \<open>null\<close>.\<close>

definition jsonUnmarshalString :: "json \<Rightarrow> string \<Rightarrow> claim_error + string" where
  "jsonUnmarshalString j out =
     (case j of
        JString s \<Rightarrow> Inr s
      | JNull \<Rightarrow> Inr out
      | _ \<Rightarrow> Inl NotAString)"

definition jsonUnmarshalDate :: "json \<Rightarrow> claim_error + go_time" where
  "jsonUnmarshalDate j =
     (case j of
        JNumber number \<Rightarrow>
          (case ParseInt number of
             None \<Rightarrow> Inl NotAWholeNumber
           | Some seconds \<Rightarrow> Inr (from_Unix seconds))
      | _ \<Rightarrow> Inl NotANumericDate)"

text \<open>A setter of one field applied to the outcome of its decoder.\<close>

definition claim_set :: "string \<Rightarrow> claim_error + 'a \<Rightarrow> ('a \<Rightarrow> claims) \<Rightarrow> claim_error + claims" where
  "claim_set name r set_field =
     (case r of Inl err \<Rightarrow> Inl (ClaimError name err) | Inr x \<Rightarrow> Inr (set_field x))"

definition claim_step :: "string \<Rightarrow> json \<Rightarrow> claims \<Rightarrow> claim_error + claims" where
  "claim_step name member c =
     (if name = ''sub'' then
        claim_set name (jsonUnmarshalString member (Subject c)) (\<lambda>s. c\<lparr>Subject := s\<rparr>)
      else if name = ''iss'' then
        claim_set name (jsonUnmarshalString member (Issuer c)) (\<lambda>s. c\<lparr>Issuer := s\<rparr>)
      else if name = ''jti'' then
        claim_set name (jsonUnmarshalString member (ClaimID c)) (\<lambda>s. c\<lparr>ClaimID := s\<rparr>)
      else if name = ''aud'' then
        claim_set name (Audience_UnmarshalJSON member) (\<lambda>a. c\<lparr>Audience := a\<rparr>)
      else if name = ''iat'' then
        claim_set name (jsonUnmarshalDate member) (\<lambda>t. c\<lparr>IssuedAt := t\<rparr>)
      else if name = ''exp'' then
        claim_set name (jsonUnmarshalDate member) (\<lambda>t. c\<lparr>ExpiresAt := t\<rparr>)
      else if name = ''nbf'' then
        claim_set name (jsonUnmarshalDate member) (\<lambda>t. c\<lparr>NotBefore := t\<rparr>)
      else Inr (c\<lparr>Extra := map_put name (jsonUnmarshalAny member) (Extra c)\<rparr>))"

fun claims_loop :: "(string \<times> json) list \<Rightarrow> claims \<Rightarrow> claim_error + claims" where
  "claims_loop [] parsed = Inr parsed"
| "claims_loop ((name, member) # raw) parsed =
     (case claim_step name member parsed of
        Inl err \<Rightarrow> Inl err
      | Inr parsed \<Rightarrow> claims_loop raw parsed)"

text \<open>The decoder behind \<open>jsonUnmarshalStrict\<close> reads one value; \<open>More\<close> then looks at the
next character, a closing bracket not counting as more.\<close>

definition decoder_More :: "string \<Rightarrow> bool" where
  "decoder_More rest =
     (case skip_space rest of
        [] \<Rightarrow> False
      | c # _ \<Rightarrow> c \<noteq> CHR '']'' \<and> c \<noteq> CHR ''}'')"

definition jsonUnmarshalStrict :: "string \<Rightarrow> claim_error + (string \<times> json) list" where
  "jsonUnmarshalStrict data =
     (case parse_value data of
        None \<Rightarrow> Inl SyntaxError
      | Some (v, rest) \<Rightarrow>
          (case (case v of
                   JObject ms \<Rightarrow> Inr (map_build [] ms)
                 | JNull \<Rightarrow> Inr []
                 | _ \<Rightarrow> Inl NotAnObject) of
             Inl err \<Rightarrow> Inl err
           | Inr raw \<Rightarrow> if decoder_More rest then Inl TrailingData else Inr raw))"

type_synonym member_order = "(string \<times> json) list \<Rightarrow> (string \<times> json) list"

definition UnmarshalJSON :: "member_order \<Rightarrow> string \<Rightarrow> claim_error + claims" where
  "UnmarshalJSON ord data =
     (case jsonUnmarshalStrict data of
        Inl err \<Rightarrow> Inl err
      | Inr raw \<Rightarrow> claims_loop (ord raw) zero_claims)"

text \<open>\<open>json.Unmarshal(payload, &claims)\<close> first checks that the payload is one JSON value.\<close>

definition json_Unmarshal_claims :: "member_order \<Rightarrow> string \<Rightarrow> claim_error + claims" where
  "json_Unmarshal_claims ord payload =
     (case parse_json payload of
        None \<Rightarrow> Inl SyntaxError
      | Some _ \<Rightarrow> UnmarshalJSON ord payload)"

section \<open>The loop over the members\<close>

text \<open>Whether a member decodes does not depend on the claims read so far.\<close>

definition member_ok :: "string \<times> json \<Rightarrow> bool" where
  "member_ok m \<longleftrightarrow> (\<exists>c. claim_step (fst m) (snd m) zero_claims = Inr c)"

text \<open>What the members \<open>ms\<close> make of the claims \<open>c\<close>.\<close>

definition read_string :: "(string \<rightharpoonup> json) \<Rightarrow> string \<Rightarrow> string \<Rightarrow> string" where
  "read_string ms k old =
     (case ms k of Some j \<Rightarrow> (case jsonUnmarshalString j old of Inr s \<Rightarrow> s | Inl _ \<Rightarrow> old) | None \<Rightarrow> old)"

definition read_date :: "(string \<rightharpoonup> json) \<Rightarrow> string \<Rightarrow> go_time \<Rightarrow> go_time" where
  "read_date ms k old =
     (case ms k of Some j \<Rightarrow> (case jsonUnmarshalDate j of Inr t \<Rightarrow> t | Inl _ \<Rightarrow> old) | None \<Rightarrow> old)"

definition read_audience :: "(string \<rightharpoonup> json) \<Rightarrow> audience \<Rightarrow> audience" where
  "read_audience ms old =
     (case ms ''aud'' of
        Some j \<Rightarrow> (case Audience_UnmarshalJSON j of Inr a \<Rightarrow> a | Inl _ \<Rightarrow> old)
      | None \<Rightarrow> old)"

definition read_members :: "(string \<times> json) list \<Rightarrow> claims \<Rightarrow> claims" where
  "read_members ms c =
     \<lparr>Subject = read_string (map_of ms) ''sub'' (Subject c),
      Issuer = read_string (map_of ms) ''iss'' (Issuer c),
      Audience = read_audience (map_of ms) (Audience c),
      ClaimID = read_string (map_of ms) ''jti'' (ClaimID c),
      IssuedAt = read_date (map_of ms) ''iat'' (IssuedAt c),
      ExpiresAt = read_date (map_of ms) ''exp'' (ExpiresAt c),
      NotBefore = read_date (map_of ms) ''nbf'' (NotBefore c),
      Extra = map_build (Extra c)
        (map (\<lambda>(k, v). (k, jsonUnmarshalAny v)) (filter (\<lambda>(k, v). k \<notin> reservedClaims) ms))\<rparr>"

lemma reserved_simps [simp]:
  "''sub'' \<in> reservedClaims" "''iss'' \<in> reservedClaims" "''aud'' \<in> reservedClaims"
  "''jti'' \<in> reservedClaims" "''iat'' \<in> reservedClaims" "''exp'' \<in> reservedClaims"
  "''nbf'' \<in> reservedClaims"
  by (simp_all add: reservedClaims_def)

lemmas read_defs = read_members_def read_string_def read_date_def read_audience_def

lemma reserved_cases:
  obtains "k = ''sub''" | "k = ''iss''" | "k = ''aud''" | "k = ''jti''" | "k = ''iat''"
    | "k = ''exp''" | "k = ''nbf''" | "k \<notin> reservedClaims"
proof (cases "k \<in> reservedClaims")
  case True
  then have "k = ''sub'' \<or> k = ''iss'' \<or> k = ''aud'' \<or> k = ''jti'' \<or> k = ''iat'' \<or>
      k = ''exp'' \<or> k = ''nbf''"
    by (simp only: reservedClaims_def insert_iff empty_iff simp_thms)
  then show ?thesis
    by (elim disjE) (erule that)+
qed (rule that(8))

lemma claim_step_simps [simp]:
  "claim_step ''sub'' j c =
     claim_set ''sub'' (jsonUnmarshalString j (Subject c)) (\<lambda>s. c\<lparr>Subject := s\<rparr>)"
  "claim_step ''iss'' j c =
     claim_set ''iss'' (jsonUnmarshalString j (Issuer c)) (\<lambda>s. c\<lparr>Issuer := s\<rparr>)"
  "claim_step ''jti'' j c =
     claim_set ''jti'' (jsonUnmarshalString j (ClaimID c)) (\<lambda>s. c\<lparr>ClaimID := s\<rparr>)"
  "claim_step ''aud'' j c = claim_set ''aud'' (Audience_UnmarshalJSON j) (\<lambda>a. c\<lparr>Audience := a\<rparr>)"
  "claim_step ''iat'' j c = claim_set ''iat'' (jsonUnmarshalDate j) (\<lambda>t. c\<lparr>IssuedAt := t\<rparr>)"
  "claim_step ''exp'' j c = claim_set ''exp'' (jsonUnmarshalDate j) (\<lambda>t. c\<lparr>ExpiresAt := t\<rparr>)"
  "claim_step ''nbf'' j c = claim_set ''nbf'' (jsonUnmarshalDate j) (\<lambda>t. c\<lparr>NotBefore := t\<rparr>)"
  by (simp_all add: claim_step_def)

lemma claim_step_extra [simp]:
  assumes "k \<notin> reservedClaims"
  shows "claim_step k j c = Inr (c\<lparr>Extra := map_put k (jsonUnmarshalAny j) (Extra c)\<rparr>)"
proof -
  have "k \<noteq> ''sub''" "k \<noteq> ''iss''" "k \<noteq> ''aud''" "k \<noteq> ''jti''" "k \<noteq> ''iat''"
    "k \<noteq> ''exp''" "k \<noteq> ''nbf''"
    using assms reserved_simps by metis+
  then show ?thesis
    by (simp only: claim_step_def if_False)
qed

lemma read_one [simp]:
  "read_members [(''sub'', j)] c =
     c\<lparr>Subject := (case jsonUnmarshalString j (Subject c) of Inr s \<Rightarrow> s | Inl _ \<Rightarrow> Subject c)\<rparr>"
  "read_members [(''iss'', j)] c =
     c\<lparr>Issuer := (case jsonUnmarshalString j (Issuer c) of Inr s \<Rightarrow> s | Inl _ \<Rightarrow> Issuer c)\<rparr>"
  "read_members [(''jti'', j)] c =
     c\<lparr>ClaimID := (case jsonUnmarshalString j (ClaimID c) of Inr s \<Rightarrow> s | Inl _ \<Rightarrow> ClaimID c)\<rparr>"
  "read_members [(''aud'', j)] c =
     c\<lparr>Audience := (case Audience_UnmarshalJSON j of Inr a \<Rightarrow> a | Inl _ \<Rightarrow> Audience c)\<rparr>"
  "read_members [(''iat'', j)] c =
     c\<lparr>IssuedAt := (case jsonUnmarshalDate j of Inr t \<Rightarrow> t | Inl _ \<Rightarrow> IssuedAt c)\<rparr>"
  "read_members [(''exp'', j)] c =
     c\<lparr>ExpiresAt := (case jsonUnmarshalDate j of Inr t \<Rightarrow> t | Inl _ \<Rightarrow> ExpiresAt c)\<rparr>"
  "read_members [(''nbf'', j)] c =
     c\<lparr>NotBefore := (case jsonUnmarshalDate j of Inr t \<Rightarrow> t | Inl _ \<Rightarrow> NotBefore c)\<rparr>"
  by (simp_all add: read_defs)

lemma read_one_extra [simp]:
  assumes "k \<notin> reservedClaims"
  shows "read_members [(k, j)] c = c\<lparr>Extra := map_put k (jsonUnmarshalAny j) (Extra c)\<rparr>"
proof -
  have "k \<noteq> ''sub''" "k \<noteq> ''iss''" "k \<noteq> ''aud''" "k \<noteq> ''jti''" "k \<noteq> ''iat''"
    "k \<noteq> ''exp''" "k \<noteq> ''nbf''"
    using assms reserved_simps by metis+
  then show ?thesis
    using assms by (simp add: read_defs)
qed

lemma string_ok [simp]:
  "(\<exists>s. jsonUnmarshalString j old = Inr s) = (j = JNull \<or> (\<exists>s. j = JString s))"
  by (simp add: jsonUnmarshalString_def split: json.split)

lemma claim_set_ok [simp]:
  "(\<exists>c. claim_set k r f = Inr c) = (\<exists>x. r = Inr x)"
  "claim_set k (Inr x) f = Inr (f x)"
  by (simp_all add: claim_set_def split: sum.split)

lemma member_ok_simps:
  "member_ok (''sub'', j) = (j = JNull \<or> (\<exists>s. j = JString s))"
  "member_ok (''iss'', j) = (j = JNull \<or> (\<exists>s. j = JString s))"
  "member_ok (''jti'', j) = (j = JNull \<or> (\<exists>s. j = JString s))"
  "member_ok (''aud'', j) = (\<exists>a. Audience_UnmarshalJSON j = Inr a)"
  "member_ok (''iat'', j) = (\<exists>t. jsonUnmarshalDate j = Inr t)"
  "member_ok (''exp'', j) = (\<exists>t. jsonUnmarshalDate j = Inr t)"
  "member_ok (''nbf'', j) = (\<exists>t. jsonUnmarshalDate j = Inr t)"
  "k \<notin> reservedClaims \<Longrightarrow> member_ok (k, j)"
  by (simp_all add: member_ok_def zero_claims_def)

lemma member_ok_any: "(\<exists>c'. claim_step k v c = Inr c') = member_ok (k, v)"
  by (cases k rule: reserved_cases) (simp_all add: member_ok_simps)

lemma claim_step_reads:
  assumes "member_ok (k, v)"
  shows "claim_step k v c = Inr (read_members [(k, v)] c)"
proof -
  obtain c' where "claim_step k v c = Inr c'"
    using assms member_ok_any by blast
  then show ?thesis
    by (cases k rule: reserved_cases) (auto simp: claim_set_def split: sum.splits)
qed

lemma read_string_Cons:
  "map_of ms (fst m) = None \<Longrightarrow>
     read_string (map_of ms) k (read_string (map_of [m]) k old) = read_string (map_of (m # ms)) k old"
  by (cases m; cases "k = fst m") (simp_all add: read_string_def)

lemma read_date_Cons:
  "map_of ms (fst m) = None \<Longrightarrow>
     read_date (map_of ms) k (read_date (map_of [m]) k old) = read_date (map_of (m # ms)) k old"
  by (cases m; cases "k = fst m") (simp_all add: read_date_def)

lemma read_audience_Cons:
  "map_of ms (fst m) = None \<Longrightarrow>
     read_audience (map_of ms) (read_audience (map_of [m]) old) = read_audience (map_of (m # ms)) old"
  by (cases m; cases "''aud'' = fst m") (simp_all add: read_audience_def)

lemma read_members_Cons:
  assumes "fst m \<notin> fst ` set ms"
  shows "read_members ms (read_members [m] c) = read_members (m # ms) c"
proof -
  have "map_of ms (fst m) = None"
    using assms by (simp add: map_of_eq_None_iff)
  note cons = this [THEN read_string_Cons] this [THEN read_date_Cons] this [THEN read_audience_Cons]
  show ?thesis
    by (simp only: read_members_def claims.simps cons) (simp add: case_prod_beta')
qed

lemma read_members_Nil [simp]: "read_members [] c = c"
  by (simp add: read_defs)

lemma claims_loop_ok:
  assumes "list_all member_ok ms" and "distinct (map fst ms)"
  shows "claims_loop ms c = Inr (read_members ms c)"
  using assms
proof (induction ms arbitrary: c)
  case (Cons m ms)
  then show ?case
    using read_members_Cons [of m ms c] by (cases m) (simp add: claim_step_reads)
qed simp

lemma claims_loop_error:
  assumes "\<not> list_all member_ok ms"
  shows "\<exists>err. claims_loop ms c = Inl err"
  using assms
proof (induction ms arbitrary: c)
  case (Cons m ms)
  obtain k v where m: "m = (k, v)"
    by (cases m)
  show ?case
  proof (cases "member_ok m")
    case True
    with Cons show ?thesis
      by (simp add: m claim_step_reads)
  next
    case False
    then have "\<nexists>c'. claim_step k v c = Inr c'"
      by (simp add: m member_ok_any)
    then show ?thesis
      by (cases "claim_step k v c") (auto simp: m)
  qed
qed simp

text \<open>The order of the members does not matter for the claims that come out.\<close>

lemma filter_distinct: "distinct (map fst ms) \<Longrightarrow> distinct (map fst (filter P ms))"
  by (simp add: distinct_map_filter)

lemma map_of_filter_key:
  "map_of (filter (\<lambda>(k, v). P k) ms) = (\<lambda>k. if P k then map_of ms k else None)"
  by (induction ms) auto

lemma map_of_map_value: "map_of (map (\<lambda>(k, v). (k, f v)) ms) k = map_option f (map_of ms k)"
  by (induction ms) auto

definition extra_members :: "(string \<times> json) list \<Rightarrow> (string \<times> go_any) list" where
  "extra_members ms = map (\<lambda>(k, v). (k, jsonUnmarshalAny v)) (filter (\<lambda>(k, v). k \<notin> reservedClaims) ms)"

lemma map_of_extra_members:
  "map_of (extra_members ms) k =
     (if k \<in> reservedClaims then None else map_option jsonUnmarshalAny (map_of ms k))"
  by (simp add: extra_members_def map_of_map_value map_of_filter_key)

lemma extra_members_distinct: "distinct (map fst ms) \<Longrightarrow> distinct (map fst (extra_members ms))"
  by (simp add: extra_members_def comp_def case_prod_beta' filter_distinct)

lemma read_members_cong:
  assumes "map_of ms = map_of ns" and "distinct (map fst ms)" and "distinct (map fst ns)"
    and "map_ok (Extra c)"
  shows "read_members ms c = read_members ns c"
proof -
  have "map_build (Extra c) (extra_members ms) = map_build (Extra c) (extra_members ns)"
    using assms by (intro map_ok_ext map_ok_build)
      (simp_all add: map_of_build extra_members_distinct map_of_extra_members fun_eq_iff map_add_def)
  then show ?thesis
    by (simp add: read_members_def assms(1) flip: extra_members_def)
qed

lemma jsonUnmarshalStrict_ok: "jsonUnmarshalStrict data = Inr raw \<Longrightarrow> map_ok raw"
  by (auto simp: jsonUnmarshalStrict_def map_ok_build split: option.splits prod.splits json.splits
      if_splits)

text \<open>Decoding in one equation: every member decodes, and each claim is read off its member.\<close>

lemma claims_loop_ord:
  assumes "visits ord" and "map_ok raw"
  shows "claims_loop (ord raw) zero_claims =
      (if list_all member_ok raw then Inr (read_members raw zero_claims)
       else claims_loop (ord raw) zero_claims)"
    and "\<not> list_all member_ok raw \<Longrightarrow> \<exists>err. claims_loop (ord raw) zero_claims = Inl err"
proof -
  note ord = visitsD [OF assms]
  have all: "list_all member_ok (ord raw) = list_all member_ok raw"
    by (simp add: list_all_iff ord)
  show "claims_loop (ord raw) zero_claims =
      (if list_all member_ok raw then Inr (read_members raw zero_claims)
       else claims_loop (ord raw) zero_claims)"
    using claims_loop_ok [of "ord raw"] ord map_ok_distinct [OF assms(2)]
      read_members_cong [of "ord raw" raw zero_claims] by (simp add: all zero_claims_def)
  show "\<exists>err. claims_loop (ord raw) zero_claims = Inl err" if "\<not> list_all member_ok raw"
    using claims_loop_error [of "ord raw"] that by (simp add: all)
qed

lemma UnmarshalJSON_eq:
  assumes "visits ord"
  shows "UnmarshalJSON ord data = Inr c \<longleftrightarrow>
    (\<exists>raw. jsonUnmarshalStrict data = Inr raw \<and> list_all member_ok raw \<and>
       c = read_members raw zero_claims)"
proof (cases "jsonUnmarshalStrict data")
  case (Inr raw)
  then show ?thesis
    using claims_loop_ord [OF assms jsonUnmarshalStrict_ok [OF Inr]]
    by (cases "list_all member_ok raw") (auto simp: UnmarshalJSON_def)
qed (simp add: UnmarshalJSON_def)

end
