(* ===== verification/Jwt_Algorithm.thy ===== *)
theory Jwt_Algorithm
  imports Crypto_Hmac Jwt_Claims
begin

text \<open>
  \<open>jwt/errors.go\<close> and \<open>jwt/alg.go\<close>: the errors of the package, the interface of a signing
  algorithm, and its two implementations. HMAC-SHA-256 is computed; Ed25519 is a parameter,
  and what is used of it is the hypothesis \<open>ed25519_ok\<close>. The locale \<open>signature_scheme\<close>
  states what signing and verification rely on.
\<close>

section \<open>Errors\<close>

text \<open>The sentinels, and the errors that wrap one of them.\<close>

datatype jwt_error =
    ErrTokenMalformed
  | ErrTokenBadSignature
  | ErrTokenExpired
  | ErrTokenNotYetValid
  | ErrTokenIssuedInFuture
  | ErrAlgMismatch
  | ErrUnexpectedTyp
  | ErrUnsupportedCrit
  | ErrMissingExpiration
  | ErrMissingSubject
  | ErrReservedClaim
  | ErrIssuerMismatch
  | ErrAudienceMismatch
  | ErrInvalidKey
  | HMACKeyLength nat
  | PrivateKeyLength nat
  | PublicKeyLength nat
  | NoSigningKey
  | NoPrivateKey
  | AlgMismatch string string
  | UnexpectedTyp string
  | MalformedPayload claim_error
  | ExpiredOn go_time
  | NotValidBefore go_time
  | IssuedOn go_time
  | IssuerMismatch string string
  | AudienceMismatch audience string
  | EncodeClaims claim_error

fun jwt_Unwrap :: "jwt_error \<Rightarrow> jwt_error option" where
  "jwt_Unwrap (HMACKeyLength n) = Some ErrInvalidKey"
| "jwt_Unwrap (PrivateKeyLength n) = Some ErrInvalidKey"
| "jwt_Unwrap (PublicKeyLength n) = Some ErrInvalidKey"
| "jwt_Unwrap NoSigningKey = Some ErrInvalidKey"
| "jwt_Unwrap NoPrivateKey = Some ErrInvalidKey"
| "jwt_Unwrap (AlgMismatch got want) = Some ErrAlgMismatch"
| "jwt_Unwrap (UnexpectedTyp typ) = Some ErrUnexpectedTyp"
| "jwt_Unwrap (MalformedPayload err) = Some ErrTokenMalformed"
| "jwt_Unwrap (ExpiredOn t) = Some ErrTokenExpired"
| "jwt_Unwrap (NotValidBefore t) = Some ErrTokenNotYetValid"
| "jwt_Unwrap (IssuedOn t) = Some ErrTokenIssuedInFuture"
| "jwt_Unwrap (IssuerMismatch got want) = Some ErrIssuerMismatch"
| "jwt_Unwrap (AudienceMismatch got want) = Some ErrAudienceMismatch"
| "jwt_Unwrap (EncodeClaims ReservedClaim) = Some ErrReservedClaim"
| "jwt_Unwrap _ = None"

definition jwt_Is :: "jwt_error \<Rightarrow> jwt_error \<Rightarrow> bool" where
  "jwt_Is err target \<longleftrightarrow> err = target \<or> jwt_Unwrap err = Some target"

section \<open>Algorithms\<close>

record algorithm =
  alg_name :: string
  alg_header :: string
  alg_sign :: "string \<Rightarrow> jwt_error + string"
  alg_verify :: "string \<Rightarrow> string \<Rightarrow> jwt_error option"

definition AlgHS256 :: string where "AlgHS256 = ''HS256''"
definition AlgEdDSA :: string where "AlgEdDSA = ''EdDSA''"

subsection \<open>HMAC\<close>

definition minHMACKeySize :: nat where "minHMACKeySize = 32"

record hmacAlg =
  algName :: string
  hmac_secret :: string

definition newHMACAlg :: "string \<Rightarrow> string \<Rightarrow> jwt_error + hmacAlg" where
  "newHMACAlg name key =
     (if length key < minHMACKeySize then Inl (HMACKeyLength (length key))
      else Inr \<lparr>algName = name, hmac_secret = key\<rparr>)"

definition hmacAlg_header :: "hmacAlg \<Rightarrow> string" where
  "hmacAlg_header a = ''{\"alg\":\"'' @ algName a @ ''\",\"typ\":\"JWT\"}''"

definition hmacAlg_sign :: "hmacAlg \<Rightarrow> string \<Rightarrow> jwt_error + string" where
  "hmacAlg_sign a input = Inr (hmac_sha256 (hmac_secret a) input)"

definition hmacAlg_verify :: "hmacAlg \<Rightarrow> string \<Rightarrow> string \<Rightarrow> jwt_error option" where
  "hmacAlg_verify a input sig =
     (if sig \<noteq> hmac_sha256 (hmac_secret a) input then Some ErrTokenBadSignature else None)"

definition hmac_algorithm :: "hmacAlg \<Rightarrow> algorithm" where
  "hmac_algorithm a =
     \<lparr>alg_name = algName a, alg_header = hmacAlg_header a, alg_sign = hmacAlg_sign a,
      alg_verify = hmacAlg_verify a\<rparr>"

subsection \<open>Ed25519\<close>

text \<open>
  \<open>crypto/ed25519\<close>: a private key is a seed of 32 bytes followed by the public key made
  from it; \<open>Verify\<close> accepts what \<open>Sign\<close> made with the private key of the same pair.
\<close>

record ed25519 =
  ed_Public :: "string \<Rightarrow> string"
  ed_Sign :: "string \<Rightarrow> string \<Rightarrow> string"
  ed_Verify :: "string \<Rightarrow> string \<Rightarrow> string \<Rightarrow> bool"

definition ed25519_ok :: "ed25519 \<Rightarrow> bool" where
  "ed25519_ok ed \<longleftrightarrow>
     (\<forall>seed m. length seed = 32 \<longrightarrow>
        length (ed_Public ed seed) = 32 \<and>
        length (ed_Sign ed (seed @ ed_Public ed seed) m) = 64 \<and>
        ed_Verify ed (ed_Public ed seed) m (ed_Sign ed (seed @ ed_Public ed seed) m))"

definition PrivateKeySize :: nat where "PrivateKeySize = 64"
definition PublicKeySize :: nat where "PublicKeySize = 32"

record eddsaAlg =
  ed_priv :: string
  ed_pub :: string

definition newEdDSASignAlg :: "string \<Rightarrow> jwt_error + eddsaAlg" where
  "newEdDSASignAlg key =
     (if length key \<noteq> PrivateKeySize then Inl (PrivateKeyLength (length key))
      else Inr \<lparr>ed_priv = key, ed_pub = drop 32 key\<rparr>)"

definition newEdDSAVerifyAlg :: "string \<Rightarrow> jwt_error + eddsaAlg" where
  "newEdDSAVerifyAlg key =
     (if length key \<noteq> PublicKeySize then Inl (PublicKeyLength (length key))
      else Inr \<lparr>ed_priv = [], ed_pub = key\<rparr>)"

definition eddsaAlg_header :: string where
  "eddsaAlg_header = ''{\"alg\":\"EdDSA\",\"typ\":\"JWT\"}''"

definition eddsaAlg_sign :: "ed25519 \<Rightarrow> eddsaAlg \<Rightarrow> string \<Rightarrow> jwt_error + string" where
  "eddsaAlg_sign ed a input =
     (if length (ed_priv a) = 0 then Inl NoSigningKey else Inr (ed_Sign ed (ed_priv a) input))"

definition eddsaAlg_verify :: "ed25519 \<Rightarrow> eddsaAlg \<Rightarrow> string \<Rightarrow> string \<Rightarrow> jwt_error option" where
  "eddsaAlg_verify ed a input sig =
     (if \<not> ed_Verify ed (ed_pub a) input sig then Some ErrTokenBadSignature else None)"

definition eddsa_algorithm :: "ed25519 \<Rightarrow> eddsaAlg \<Rightarrow> algorithm" where
  "eddsa_algorithm ed a =
     \<lparr>alg_name = AlgEdDSA, alg_header = eddsaAlg_header, alg_sign = eddsaAlg_sign ed a,
      alg_verify = eddsaAlg_verify ed a\<rparr>"

section \<open>What tokens rely on\<close>

text \<open>
  A signing and a verifying algorithm that belong together: the header names the algorithm
  and the type JWT, signing succeeds with a signature that is not empty, and the verifier
  accepts it.
\<close>

definition jose_header :: "string \<Rightarrow> json" where
  "jose_header name = JObject [(''alg'', JString name), (''typ'', JString ''JWT'')]"

locale signature_scheme =
  fixes sa va :: algorithm
  assumes same_name: "alg_name va = alg_name sa"
    and header: "alg_header sa = print_json (jose_header (alg_name sa))"
    and plain_name: "valid_utf8 (alg_name sa)"
    and signs: "\<exists>sig. sig \<noteq> [] \<and> alg_sign sa m = Inr sig \<and> alg_verify va m sig = None"
begin

lemma header_parses: "parse_json (alg_header sa) = Some (jose_header (alg_name sa))"
proof -
  have "tidy (jose_header (alg_name sa)) = jose_header (alg_name sa)"
    using plain_name by (intro tidy_same) (simp add: jose_header_def)
  then show ?thesis
    using parse_json_print [of "jose_header (alg_name sa)"]
    by (simp add: header jose_header_def max_nesting_def)
qed

lemma header_nonempty: "alg_header sa \<noteq> []"
  by (simp add: header jose_header_def)

lemma signE:
  obtains sig where "sig \<noteq> []" and "alg_sign sa m = Inr sig" and "alg_verify va m sig = None"
  using signs by blast

end

lemma length_hmac [simp]: "length (hmac_sha256 key m) = 32"
  by (simp add: hmac_sha256_def Let_def)

lemma header_HS256: "''{\"alg\":\"'' @ AlgHS256 @ ''\",\"typ\":\"JWT\"}'' = print_json (jose_header AlgHS256)"
  by code_simp

lemma header_EdDSA: "eddsaAlg_header = print_json (jose_header AlgEdDSA)"
  by code_simp

interpretation hs256: signature_scheme
  "hmac_algorithm \<lparr>algName = AlgHS256, hmac_secret = key\<rparr>"
  "hmac_algorithm \<lparr>algName = AlgHS256, hmac_secret = key\<rparr>" for key
proof unfold_locales
  let ?a = "\<lparr>algName = AlgHS256, hmac_secret = key\<rparr>"
  show "alg_header (hmac_algorithm ?a) = print_json (jose_header (alg_name (hmac_algorithm ?a)))"
    using header_HS256 by (simp add: hmac_algorithm_def hmacAlg_header_def)
  show "valid_utf8 (alg_name (hmac_algorithm ?a))"
    by (simp add: hmac_algorithm_def AlgHS256_def)
  have "hmac_sha256 key m \<noteq> []" for m
    using length_hmac [of key m] by (metis list.size(3) zero_neq_numeral)
  then show "\<exists>sig. sig \<noteq> [] \<and> alg_sign (hmac_algorithm ?a) m = Inr sig \<and>
      alg_verify (hmac_algorithm ?a) m sig = None" for m
    by (simp add: hmac_algorithm_def hmacAlg_sign_def hmacAlg_verify_def)
qed simp

text \<open>A key pair of Ed25519, the private half at the signer, the public one at the verifier.\<close>

lemma eddsa_scheme:
  assumes "ed25519_ok ed" and "length seed = 32"
  shows "signature_scheme
    (eddsa_algorithm ed \<lparr>ed_priv = seed @ ed_Public ed seed, ed_pub = ed_Public ed seed\<rparr>)
    (eddsa_algorithm ed \<lparr>ed_priv = [], ed_pub = ed_Public ed seed\<rparr>)"
proof unfold_locales
  let ?sa = "eddsa_algorithm ed \<lparr>ed_priv = seed @ ed_Public ed seed, ed_pub = ed_Public ed seed\<rparr>"
  let ?va = "eddsa_algorithm ed \<lparr>ed_priv = [], ed_pub = ed_Public ed seed\<rparr>"
  show "alg_header ?sa = print_json (jose_header (alg_name ?sa))"
    using header_EdDSA by (simp add: eddsa_algorithm_def)
  show "valid_utf8 (alg_name ?sa)"
    by (simp add: eddsa_algorithm_def AlgEdDSA_def)
  have "length (ed_Sign ed (seed @ ed_Public ed seed) m) = 64" for m
    using assms by (simp add: ed25519_ok_def)
  then have "seed \<noteq> []" "ed_Sign ed (seed @ ed_Public ed seed) m \<noteq> []" for m
    using assms(2) by (metis list.size(3) zero_neq_numeral)+
  then show "\<exists>sig. sig \<noteq> [] \<and> alg_sign ?sa m = Inr sig \<and> alg_verify ?va m sig = None" for m
    using assms by (simp add: eddsa_algorithm_def eddsaAlg_sign_def eddsaAlg_verify_def ed25519_ok_def)
qed (simp add: eddsa_algorithm_def)

end
