(* ===== verification/Base64_Url.thy ===== *)
theory Base64_Url
  imports Go_Prelude
begin

text \<open>
  \<open>base64.RawURLEncoding\<close>, the codec behind \<open>b64encode\<close> and \<open>b64decode\<close> of \<open>jwt/alg.go\<close>:
  the URL alphabet, no padding, spare bits of the last character ignored when decoding,
  carriage returns and line feeds skipped. A Go string and a byte slice are both lists of
  bytes here (\<open>string\<close>); a byte is its eight bits, and coding regroups them by six.
\<close>

section \<open>The alphabet\<close>

text \<open>Six bits, the most significant first.\<close>

datatype sextet = Sextet bool bool bool bool bool bool

definition encodeURL :: string where
  "encodeURL = ''ABCDEFGHIJKLMNOPQRSTUVWXYZabcdefghijklmnopqrstuvwxyz0123456789-_''"

fun sextet_value :: "sextet \<Rightarrow> nat" where
  "sextet_value (Sextet a b c d e f) =
     32 * of_bool a + 16 * of_bool b + 8 * of_bool c + 4 * of_bool d + 2 * of_bool e + of_bool f"

definition b64_char :: "sextet \<Rightarrow> char" where
  "b64_char x = encodeURL ! sextet_value x"

definition b64_index :: "char \<Rightarrow> nat option" where
  "b64_index c =
     (if CHR ''A'' \<le> c \<and> c \<le> CHR ''Z'' then Some (of_char c - 65)
      else if CHR ''a'' \<le> c \<and> c \<le> CHR ''z'' then Some (of_char c - 71)
      else if CHR ''0'' \<le> c \<and> c \<le> CHR ''9'' then Some (of_char c + 4)
      else if c = CHR ''-'' then Some 62
      else if c = CHR ''_'' then Some 63
      else None)"

definition b64_sextet :: "char \<Rightarrow> sextet option" where
  "b64_sextet c =
     map_option (\<lambda>n. Sextet (odd (n div 32)) (odd (n div 16)) (odd (n div 8)) (odd (n div 4))
       (odd (n div 2)) (odd n)) (b64_index c)"

lemma b64_sextet_char [simp]: "b64_sextet (b64_char x) = Some x"
proof (cases x)
  case (Sextet a b c d e f)
  then show ?thesis
    by (cases a; cases b; cases c; cases d; cases e; cases f)
      (simp_all add: b64_char_def encodeURL_def b64_sextet_def b64_index_def)
qed

section \<open>Encoding\<close>

fun b64encode :: "string \<Rightarrow> string" where
  "b64encode [] = []"
| "b64encode [Char a0 a1 a2 a3 a4 a5 a6 a7] =
     [b64_char (Sextet a7 a6 a5 a4 a3 a2), b64_char (Sextet a1 a0 False False False False)]"
| "b64encode [Char a0 a1 a2 a3 a4 a5 a6 a7, Char b0 b1 b2 b3 b4 b5 b6 b7] =
     [b64_char (Sextet a7 a6 a5 a4 a3 a2), b64_char (Sextet a1 a0 b7 b6 b5 b4),
      b64_char (Sextet b3 b2 b1 b0 False False)]"
| "b64encode (Char a0 a1 a2 a3 a4 a5 a6 a7 # Char b0 b1 b2 b3 b4 b5 b6 b7 #
     Char c0 c1 c2 c3 c4 c5 c6 c7 # src) =
     b64_char (Sextet a7 a6 a5 a4 a3 a2) # b64_char (Sextet a1 a0 b7 b6 b5 b4) #
     b64_char (Sextet b3 b2 b1 b0 c7 c6) # b64_char (Sextet c5 c4 c3 c2 c1 c0) # b64encode src"

section \<open>Decoding\<close>

text \<open>A last group of two or three characters stands for one or two bytes, one of a single
character is an error.\<close>

fun b64_quanta :: "sextet list \<Rightarrow> string option" where
  "b64_quanta [] = Some []"
| "b64_quanta [_] = None"
| "b64_quanta [Sextet a7 a6 a5 a4 a3 a2, Sextet a1 a0 _ _ _ _] =
     Some [Char a0 a1 a2 a3 a4 a5 a6 a7]"
| "b64_quanta [Sextet a7 a6 a5 a4 a3 a2, Sextet a1 a0 b7 b6 b5 b4, Sextet b3 b2 b1 b0 _ _] =
     Some [Char a0 a1 a2 a3 a4 a5 a6 a7, Char b0 b1 b2 b3 b4 b5 b6 b7]"
| "b64_quanta (Sextet a7 a6 a5 a4 a3 a2 # Sextet a1 a0 b7 b6 b5 b4 # Sextet b3 b2 b1 b0 c7 c6 #
     Sextet c5 c4 c3 c2 c1 c0 # src) =
     map_option (\<lambda>dst. Char a0 a1 a2 a3 a4 a5 a6 a7 # Char b0 b1 b2 b3 b4 b5 b6 b7 #
       Char c0 c1 c2 c3 c4 c5 c6 c7 # dst) (b64_quanta src)"

fun b64_sextets :: "string \<Rightarrow> sextet list option" where
  "b64_sextets [] = Some []"
| "b64_sextets (c # s) =
     (if c = CHR 0x0A \<or> c = CHR 0x0D then b64_sextets s
      else case b64_sextet c of
          None \<Rightarrow> None
        | Some x \<Rightarrow> map_option ((#) x) (b64_sextets s))"

definition b64decode :: "string \<Rightarrow> string option" where
  "b64decode s = Option.bind (b64_sextets s) b64_quanta"

section \<open>The round trip\<close>

lemma b64_char_plain [simp]:
  "b64_char x \<noteq> CHR 0x0A" "b64_char x \<noteq> CHR 0x0D" "b64_char x \<noteq> CHR ''.''"
  "CHR 0x0A \<noteq> b64_char x" "CHR 0x0D \<noteq> b64_char x" "CHR ''.'' \<noteq> b64_char x"
proof -
  have ne: "b64_char x \<noteq> c" if "b64_index c = None" for c
    using that b64_sextet_char [of x] by (auto simp: b64_sextet_def)
  have "b64_char x \<noteq> CHR 0x0A \<and> b64_char x \<noteq> CHR 0x0D \<and> b64_char x \<noteq> CHR ''.''"
    by (intro conjI ne) (simp_all add: b64_index_def)
  then show "b64_char x \<noteq> CHR 0x0A" "b64_char x \<noteq> CHR 0x0D" "b64_char x \<noteq> CHR ''.''"
    "CHR 0x0A \<noteq> b64_char x" "CHR 0x0D \<noteq> b64_char x" "CHR ''.'' \<noteq> b64_char x"
    by auto
qed

lemma b64encode_no_dot [simp]: "CHR ''.'' \<notin> set (b64encode s)"
  by (induction s rule: b64encode.induct) simp_all

lemma b64encode_Nil [simp]: "b64encode s = [] \<longleftrightarrow> s = []"
  by (cases s rule: b64encode.cases) simp_all

lemma b64decode_encode [simp]: "b64decode (b64encode s) = Some s"
proof (induction s rule: b64encode.induct)
  case (4 a0 a1 a2 a3 a4 a5 a6 a7 b0 b1 b2 b3 b4 b5 b6 b7 c0 c1 c2 c3 c4 c5 c6 c7 src)
  then obtain xs where "b64_sextets (b64encode src) = Some xs" and "b64_quanta xs = Some src"
    by (auto simp: b64decode_def bind_eq_Some_conv)
  then show ?case
    by (simp add: b64decode_def)
qed (simp_all add: b64decode_def)

text \<open>Line breaks may be put anywhere into an encoded text.\<close>

lemma b64_sextets_append:
  "b64_sextets (s @ t) =
     Option.bind (b64_sextets s) (\<lambda>xs. map_option ((@) xs) (b64_sextets t))"
  by (induction s) (auto split: option.split simp: option.map_comp comp_def map_option_case)

lemma b64decode_newline:
  assumes "set nl \<subseteq> {CHR 0x0A, CHR 0x0D}"
  shows "b64decode (s @ nl @ t) = b64decode (s @ t)"
proof -
  have "b64_sextets (nl @ t) = b64_sextets t"
    using assms by (induction nl) auto
  then show ?thesis
    by (simp add: b64decode_def b64_sextets_append)
qed

interpretation b64: partial_codec b64encode
  "\<lambda>s. case b64decode s of None \<Rightarrow> Inl () | Some b \<Rightarrow> Inr b" "\<lambda>_. True"
  by unfold_locales simp

end
