(* ===== verification/Json_Valid.thy ===== *)
theory Json_Valid
  imports Json_Text
begin

text \<open>
  What the JSON parser lets through: every string of a parsed value is UTF-8, every number
  literal is one of the grammar.
\<close>

section \<open>Strings\<close>

text \<open>One UTF-8 sequence.\<close>

definition is_rune :: "string \<Rightarrow> bool" where
  "is_rune p \<longleftrightarrow> p \<noteq> [] \<and> rune_width p = length p"

lemma valid_utf8_rune: "is_rune p \<Longrightarrow> valid_utf8 (p @ s) = valid_utf8 s"
  using rune_width_prefix [of p "length p" s]
  by (simp add: is_rune_def valid_utf8_def utf8_pieces_rune)

lemma is_rune_take: "0 < rune_width s \<Longrightarrow> is_rune (take (rune_width s) s)"
  using rune_width_prefix [OF refl, of s "[]"] take_rune [of s] by (auto simp: is_rune_def)

lemma is_rune_error: "is_rune rune_error"
  by (simp add: is_rune_def rune_error_def rune_width_def rune_lead_def continuation_def)

lemma is_rune_ascii: "c < CHR 0x80 \<Longrightarrow> is_rune [c]"
  by (simp add: is_rune_def)

lemma char_less_int: "c < d \<longleftrightarrow> (of_char c :: int) < of_char d"
  by (metis less_char_def of_nat_less_iff of_nat_of_char)

lemma char_le_int: "c \<le> d \<longleftrightarrow> (of_char c :: int) \<le> of_char d"
  by (metis less_eq_char_def of_nat_le_iff of_nat_of_char)

lemma char_eq_int: "0 \<le> k \<Longrightarrow> k < 256 \<Longrightarrow> char_of k = c \<longleftrightarrow> k = (of_char c :: int)"
  by (metis char_of_char mod_pos_pos_trivial of_char_of)

lemma continuation_int: "0 \<le> k \<Longrightarrow> k < 64 \<Longrightarrow> continuation (char_of (0x80 + k :: int))"
  by (simp add: continuation_def char_le_int)

lemma rune_lead_int:
  assumes "0 \<le> k" and "k < 256"
  shows "rune_lead (char_of (k :: int)) =
     (if k < 0x80 then (1, CHR 0x80, CHR 0xBF)
      else if k < 0xC2 then (0, CHR 0x80, CHR 0xBF)
      else if k < 0xE0 then (2, CHR 0x80, CHR 0xBF)
      else if k = 0xE0 then (3, CHR 0xA0, CHR 0xBF)
      else if k = 0xED then (3, CHR 0x80, CHR 0x9F)
      else if k < 0xF0 then (3, CHR 0x80, CHR 0xBF)
      else if k = 0xF0 then (4, CHR 0x90, CHR 0xBF)
      else if k < 0xF4 then (4, CHR 0x80, CHR 0xBF)
      else if k = 0xF4 then (4, CHR 0x80, CHR 0x8F)
      else (0, CHR 0x80, CHR 0xBF))"
  using assms by (simp add: rune_lead_def char_less_int char_eq_int)

text \<open>A Unicode scalar value.\<close>

definition scalar_value :: "int \<Rightarrow> bool" where
  "scalar_value r \<longleftrightarrow> (0 \<le> r \<and> r < 0xD800) \<or> (0xE000 \<le> r \<and> r \<le> 0x10FFFF)"

lemma is_rune_Encode:
  assumes "scalar_value r"
  shows "is_rune (EncodeRune r)"
proof -
  have r: "0 \<le> r" "r < 0x110000"
    using assms by (auto simp: scalar_value_def)
  have div: "r div 4096 = r div 64 div 64" "r div 262144 = r div 64 div 64 div 64"
    by (simp_all flip: zdiv_zmult2_eq)
  have three: "u = w * 4096 + b * 64 + c" if "u = v * 64 + c" "v = w * 64 + b" for u v w b c :: int
    using that by simp
  have digit: "u = u div 64 * 64 + u mod 64" for u :: int
    by simp
  have split3: "r = r div 4096 * 4096 + r div 64 mod 64 * 64 + r mod 64"
    unfolding div by (rule three [OF digit digit])
  have high: "r div 64 = r div 262144 * 4096 + r div 4096 mod 64 * 64 + r div 64 mod 64"
    unfolding div by (rule three [OF digit digit])
  have four: "u = w * 262144 + a * 4096 + b * 64 + c"
    if "u = v * 64 + c" "v = w * 4096 + a * 64 + b" for u v w a b c :: int
    using that by simp
  have split4: "r = r div 262144 * 262144 + r div 4096 mod 64 * 4096 + r div 64 mod 64 * 64 + r mod 64"
    by (rule four [OF digit high])
  consider "r < 0x80" | "0x80 \<le> r" "r < 0x800" | "0x800 \<le> r" "r < 0x10000" | "0x10000 \<le> r"
    by linarith
  then show ?thesis
  proof cases
    case 1
    then show ?thesis
      using r by (simp add: EncodeRune_def is_rune_def rune_width_def rune_lead_int)
  next
    case 2
    then have "2 \<le> r div 64" "r div 64 < 32"
      by linarith+
    moreover from this have "0xC2 \<le> 0xC0 + r div 64" "0xC0 + r div 64 < 0xE0"
      by linarith+
    ultimately show ?thesis
      using 2 by (simp add: EncodeRune_def is_rune_def rune_width_def rune_lead_int char_le_int)
  next
    case 3
    define a b c where "a = r div 4096" and "b = r div 64 mod 64" and "c = r mod 64"
    have abc: "r = a * 4096 + b * 64 + c" "0 \<le> b" "b < 64" "0 \<le> c" "c < 64"
      using split3 by (simp_all add: a_def b_def c_def)
    have a: "0 \<le> a" "a < 16"
      using 3 by (auto simp: a_def)
    have "a = 0 \<longrightarrow> 32 \<le> b" "a = 13 \<longrightarrow> b < 32"
      using 3 abc assms by (auto simp: scalar_value_def)
    then show ?thesis
      using 3 a abc(2-5) continuation_int [of c]
      by (auto simp: EncodeRune_def is_rune_def rune_width_def rune_lead_int char_le_int
          simp flip: a_def b_def c_def)
  next
    case 4
    define a b c d where "a = r div 262144" and "b = r div 4096 mod 64"
      and "c = r div 64 mod 64" and "d = r mod 64"
    have abcd: "r = a * 262144 + b * 4096 + c * 64 + d" "0 \<le> b" "b < 64" "0 \<le> c" "c < 64"
        "0 \<le> d" "d < 64"
      using split4 by (simp_all add: a_def b_def c_def d_def)
    have a: "0 \<le> a" "a < 5"
      using 4 r by (auto simp: a_def)
    have "a = 0 \<longrightarrow> 16 \<le> b" "a = 4 \<longrightarrow> b < 16"
      using 4 r abcd by auto
    then show ?thesis
      using 4 a abcd(2-7) continuation_int [of c] continuation_int [of d]
      by (auto simp: EncodeRune_def is_rune_def rune_width_def rune_lead_int char_le_int
          simp flip: a_def b_def c_def d_def)
  qed
qed

lemma hex_value_range: "hex_value c = Some v \<Longrightarrow> 0 \<le> v \<and> v < 16"
  by (auto simp: hex_value_def char_le_int split: if_splits)

lemma getu4_range: "getu4 s = Some r \<Longrightarrow> 0 \<le> r \<and> r < 0x10000"
  unfolding getu4_def
  by (auto split: list.splits option.splits if_splits dest!: hex_value_range)

lemma is_rune_unicode:
  assumes "unescape_unicode s = Some (p, r)"
  shows "is_rune p"
proof -
  obtain r1 where r1: "getu4 s = Some r1" "0 \<le> r1" "r1 < 0x10000"
    using assms getu4_range by (auto simp: unescape_unicode_def split: option.splits)
  show ?thesis
  proof (cases "0xD800 \<le> r1 \<and> r1 < 0xE000")
    case False
    with assms r1 have "p = EncodeRune r1" and "scalar_value r1"
      by (auto simp: unescape_unicode_def scalar_value_def split: if_splits)
    then show ?thesis
      by (simp add: is_rune_Encode)
  next
    case True
    show ?thesis
    proof (cases "Option.bind (getu4 (drop 6 s)) (utf16_DecodeRune r1)")
      case None
      with assms r1 True show ?thesis
        by (simp add: unescape_unicode_def is_rune_error)
    next
      case (Some v)
      then obtain r2 where "utf16_DecodeRune r1 r2 = Some v"
        by (auto simp: bind_eq_Some_conv)
      then have "scalar_value v"
        by (auto simp: utf16_DecodeRune_def scalar_value_def split: if_splits)
      moreover have "p = EncodeRune v"
        using assms r1 True Some by (simp add: unescape_unicode_def)
      ultimately show ?thesis
        by (simp add: is_rune_Encode)
    qed
  qed
qed

lemma unescape_ascii: "unescape e = Some c \<Longrightarrow> c < CHR 0x80"
  by (auto simp: unescape_def split: if_splits)

lemma is_rune_step: "unquote_step s = Some (p, r) \<Longrightarrow> is_rune p"
  using is_rune_take [of s]
  by (auto simp: unquote_step_def is_rune_error is_rune_ascii dest: unescape_ascii is_rune_unicode
      split: if_splits list.splits)

lemma unquote_valid: "unquote s = Some (v, r) \<Longrightarrow> valid_utf8 v"
proof (induction s arbitrary: v rule: unquote.induct)
  case (1 s)
  show ?case
  proof (cases "s = [] \<or> hd s = CHR ''\"''")
    case True
    then show ?thesis
      using "1.prems" by (auto simp: unquote.simps [of s] split: if_splits)
  next
    case False
    then obtain p q w where step: "unquote_step s = Some (p, q)" "unquote q = Some (w, r)" "v = p @ w"
      using "1.prems" by (auto simp: unquote.simps [of s] split: option.splits)
    then show ?thesis
      using "1.IH" [OF _ _ step(1) refl step(2)] False is_rune_step [OF step(1)]
      by (simp add: valid_utf8_rune)
  qed
qed

section \<open>Numbers\<close>

text \<open>What is read as a number is a number by itself.\<close>

definition digit_free :: "string \<Rightarrow> bool" where
  "digit_free t \<longleftrightarrow> t = [] \<or> \<not> is_digit (hd t)"

lemma takeWhile_again:
  assumes "t = [] \<or> \<not> P (hd t)"
  shows "takeWhile P (takeWhile P s @ t) = takeWhile P s \<and> dropWhile P (takeWhile P s @ t) = t"
proof -
  have "takeWhile P t = []" "dropWhile P t = t"
    using assms by (cases t; auto)+
  then show ?thesis
    by (induction s) auto
qed

lemma lex_digits_again: "lex_digits s = (d, r) \<Longrightarrow> digit_free t \<Longrightarrow> lex_digits (d @ t) = (d, t)"
  using takeWhile_again [of t is_digit s] by (auto simp: lex_digits_def digit_free_def)

lemma lex_digits_hd: "lex_digits s = (d, r) \<Longrightarrow> d \<noteq> [] \<Longrightarrow> is_digit (hd d)"
  by (cases s) (auto simp: lex_digits_def split: if_splits)

lemma lex_digits1_again:
  assumes "lex_digits1 p s = Some (d, r)"
  obtains u where "d = p @ u" and "u \<noteq> []" and "is_digit (hd u)"
    and "\<And>t. digit_free t \<Longrightarrow> lex_digits1 p (u @ t) = Some (d, t)"
proof -
  obtain u where u: "lex_digits s = (u, r)" "d = p @ u" "u \<noteq> []"
    using assms by (auto simp: lex_digits1_def split: prod.splits if_splits)
  moreover have "lex_digits1 p (u @ t) = Some (d, t)" if "digit_free t" for t
    using lex_digits_again [OF u(1) that] u by (simp add: lex_digits1_def)
  ultimately show ?thesis
    using that lex_digits_hd by blast
qed

lemma lex_int_part_again:
  assumes "lex_int_part s = Some (i, r)" and "digit_free t"
  shows "lex_int_part (i @ t) = Some (i, t)"
proof -
  consider q where "s = CHR ''0'' # q" "i = ''0''"
    | c q where "s = c # q" "is_digit c" "c \<noteq> CHR ''0''" "lex_digits s = (i, r)"
    using assms(1) by (auto simp: lex_int_part_def split: list.splits if_splits)
  then show ?thesis
  proof cases
    case 2
    moreover from 2 obtain j where "i = c # j"
      by (auto simp: lex_digits_def)
    ultimately show ?thesis
      using lex_digits_again [OF 2(4) assms(2)] by (simp add: lex_int_part_def)
  qed (simp add: lex_int_part_def)
qed

lemma lex_fraction_again:
  assumes "lex_fraction s = Some (f, r)" and "digit_free t" and "t = [] \<or> hd t \<noteq> CHR ''.''"
  shows "lex_fraction (f @ t) = Some (f, t)" and "digit_free (f @ t)"
proof -
  consider "f = []" | q where "lex_digits1 ''.'' q = Some (f, r)"
    using assms(1) by (auto simp: lex_fraction_def split: list.splits if_splits)
  then have "lex_fraction (f @ t) = Some (f, t) \<and> digit_free (f @ t)"
  proof cases
    case 1
    with assms show ?thesis
      by (cases t) (auto simp: lex_fraction_def)
  next
    case 2
    then obtain u where "f = ''.'' @ u" "lex_digits1 ''.'' (u @ t) = Some (f, t)"
      using assms(2) by (elim lex_digits1_again) blast
    then show ?thesis
      by (simp add: lex_fraction_def digit_free_def)
  qed
  then show "lex_fraction (f @ t) = Some (f, t)" "digit_free (f @ t)"
    by simp_all
qed

lemma lex_exponent_again:
  assumes "lex_exponent s = Some (x, r)"
  shows "lex_exponent x = Some (x, [])" and "digit_free x" and "x = [] \<or> hd x \<noteq> CHR ''.''"
proof -
  have free: "digit_free []"
    by (simp add: digit_free_def)
  consider "x = []"
    | c q where "c \<in> {CHR ''e'', CHR ''E''}" "lex_digits1 [c] q = Some (x, r)"
    | c g q where "c \<in> {CHR ''e'', CHR ''E''}" "g \<in> {CHR ''+'', CHR ''-''}"
        "lex_digits1 [c, g] q = Some (x, r)"
    using assms by (auto simp: lex_exponent_def split: list.splits if_splits)
  then have "lex_exponent x = Some (x, []) \<and> digit_free x \<and> (x = [] \<or> hd x \<noteq> CHR ''.'')"
  proof cases
    case 2
    then obtain u where u: "x = [c] @ u" "u \<noteq> []" "is_digit (hd u)" "lex_digits1 [c] (u @ []) = Some (x, [])"
      using free by (elim lex_digits1_again) blast
    then obtain d v where d: "u = d # v" "is_digit d"
      by (cases u) auto
    then have "d \<noteq> CHR ''+''" "d \<noteq> CHR ''-''"
      using is_digit_simps by metis+
    with u d 2(1) show ?thesis
      by (auto simp: lex_exponent_def digit_free_def)
  next
    case 3
    then obtain u where "x = [c, g] @ u" "lex_digits1 [c, g] (u @ []) = Some (x, [])"
      using free by (elim lex_digits1_again) blast
    with 3(1,2) show ?thesis
      by (auto simp: lex_exponent_def digit_free_def)
  qed (simp add: lex_exponent_def digit_free_def)
  then show "lex_exponent x = Some (x, [])" "digit_free x" "x = [] \<or> hd x \<noteq> CHR ''.''"
    by simp_all
qed

lemma lex_unsigned_again:
  assumes "lex_unsigned p s = Some (q, r)"
  obtains u where "q = p @ u" and "u \<noteq> []" and "is_digit (hd u)" and "lex_unsigned p u = Some (q, [])"
proof -
  obtain i f x s1 s2 where l: "lex_int_part s = Some (i, s1)" "lex_fraction s1 = Some (f, s2)"
      "lex_exponent s2 = Some (x, r)" "q = p @ i @ f @ x"
    using assms by (auto simp: lex_unsigned_def split: option.splits prod.splits)
  note x = lex_exponent_again [OF l(3)]
  note f = lex_fraction_again [OF l(2) x(2,3)]
  have i: "i \<noteq> []" "is_digit (hd i)"
    using l(1) by (auto simp: lex_int_part_def lex_digits_def split: list.splits if_splits)
  show ?thesis
  proof (rule that [of "i @ f @ x"])
    show "lex_unsigned p (i @ f @ x) = Some (q, [])"
      using lex_int_part_again [OF l(1) f(2)] f(1) x(1) l(4) by (simp add: lex_unsigned_def)
  qed (use i l(4) in auto)
qed

lemma lex_number_valid:
  assumes "lex_number s = Some (q, r)"
  shows "valid_number q"
proof -
  obtain c t where s: "s = c # t"
    using assms by (cases s) (auto simp: lex_number_def)
  show ?thesis
  proof (cases "c = CHR ''-''")
    case True
    then obtain u where "q = ''-'' @ u" "lex_unsigned ''-'' u = Some (q, [])"
      using assms s by (auto simp: lex_number_def elim: lex_unsigned_again)
    then show ?thesis
      by (simp add: valid_number_def lex_number_def)
  next
    case False
    then obtain u where u: "q = [] @ u" "u \<noteq> []" "is_digit (hd u)" "lex_unsigned [] u = Some (q, [])"
      using assms s by (auto simp: lex_number_def elim: lex_unsigned_again)
    then obtain d v where d: "u = d # v" "is_digit d"
      by (cases u) auto
    then have "d \<noteq> CHR ''-''"
      using is_digit_simps by metis
    with u d show ?thesis
      by (simp add: valid_number_def lex_number_def)
  qed
qed

section \<open>Values\<close>

text \<open>The invariant of the scanner.\<close>

definition sound_json :: "json \<Rightarrow> bool" where
  "sound_json j \<longleftrightarrow> strings_valid j \<and> numbers_valid j"

lemma sound_json_simps [simp]:
  "sound_json JNull" "sound_json (JBool b)"
  "sound_json (JString s) = valid_utf8 s" "sound_json (JNumber l) = valid_number l"
  "sound_json (JArray js) = list_all sound_json js"
  "sound_json (JObject ms) = list_all (\<lambda>(k, v). valid_utf8 k \<and> sound_json v) ms"
  by (auto simp: sound_json_def list_all_iff)

fun sound_frame :: "parse_frame \<Rightarrow> bool" where
  "sound_frame (ParseObjectKey ms) = sound_json (JObject ms)"
| "sound_frame (ParseObjectValue ms k) = (valid_utf8 k \<and> sound_json (JObject ms))"
| "sound_frame (ParseArrayValue vs) = sound_json (JArray vs)"

fun sound_state :: "scan_state \<Rightarrow> bool" where
  "sound_state (EndKey k) = valid_utf8 k"
| "sound_state (EndValue v) = sound_json v"
| "sound_state _ = True"

fun sound_token :: "json_token \<Rightarrow> bool" where
  "sound_token (StringToken s) = valid_utf8 s"
| "sound_token (NumberToken l) = valid_number l"
| "sound_token _ = True"

definition sound_scanner :: "scanner \<Rightarrow> bool" where
  "sound_scanner sc \<longleftrightarrow> sound_state (fst sc) \<and> list_all sound_frame (snd sc)"

lemma next_token_sound: "next_token s = Some (t, r) \<Longrightarrow> sound_token t"
  by (auto simp: next_token_def lex_word_def dest: unquote_valid lex_number_valid
      split: list.splits if_splits)

lemma push_frame_sound:
  "push_frame st f stk = Some sc \<Longrightarrow> sound_state st \<Longrightarrow> sound_frame f \<Longrightarrow> list_all sound_frame stk \<Longrightarrow>
     sound_scanner sc"
  by (auto simp: push_frame_def sound_scanner_def split: if_splits)

lemma begin_value_sound:
  "begin_value t stk = Some sc \<Longrightarrow> sound_token t \<Longrightarrow> list_all sound_frame stk \<Longrightarrow> sound_scanner sc"
  by (cases t) (auto simp: sound_scanner_def push_frame_def split: if_splits)

lemma begin_string_sound:
  "begin_string t stk = Some sc \<Longrightarrow> sound_token t \<Longrightarrow> list_all sound_frame stk \<Longrightarrow> sound_scanner sc"
  by (cases t) (auto simp: sound_scanner_def)

lemma end_value_sound:
  "end_value v t stk = Some sc \<Longrightarrow> sound_json v \<Longrightarrow> list_all sound_frame stk \<Longrightarrow> sound_scanner sc"
  by (cases "(v, t, stk)" rule: end_value.cases) (auto simp: sound_scanner_def)

lemma scan_step_sound:
  "scan_step t sc = Some sc' \<Longrightarrow> sound_token t \<Longrightarrow> sound_scanner sc \<Longrightarrow> sound_scanner sc'"
  by (cases "(t, sc)" rule: scan_step.cases)
    (auto simp: sound_scanner_def [of "(_, _)"] sound_scanner_def [of sc] begin_value_sound
      begin_string_sound end_value_sound push_frame_sound)

lemma parse_loop_cases:
  assumes "parse_loop sc s = Some (v, r)"
  obtains "sc = (EndValue v, [])" "r = s"
    | t q sc' where "next_token s = Some (t, q)" "scan_step t sc = Some sc'"
      "parse_loop sc' q = Some (v, r)"
proof (cases "\<exists>w. sc = (EndValue w, [])")
  case True
  with assms that(1) show ?thesis
    by (auto simp: parse_done)
next
  case False
  with assms that(2) show ?thesis
    unfolding parse_loop.simps [of sc s]
    by (auto split: prod.splits scan_state.splits list.splits option.splits)
qed

lemma parse_loop_sound:
  "parse_loop sc s = Some (v, r) \<Longrightarrow> sound_scanner sc \<Longrightarrow> sound_json v"
proof (induction s arbitrary: sc rule: length_induct)
  case (1 s)
  from "1.prems"(1) show ?case
  proof (cases rule: parse_loop_cases)
    case 1
    then show ?thesis
      using "1.prems"(2) by (simp add: sound_scanner_def)
  next
    case (2 t q sc')
    then show ?thesis
      using "1.IH" "1.prems"(2) scan_step_sound next_token_sound next_token_shorter by blast
  qed
qed

lemma parse_value_sound: "parse_value s = Some (v, r) \<Longrightarrow> sound_json v"
  using parse_loop_sound [of "(BeginValue, [])" s] by (simp add: parse_value_def sound_scanner_def)

section \<open>Depth\<close>

text \<open>A parsed value is never deeper than the scanner's stack may grow.\<close>

lemma foldr_max_le: "foldr max ns (0 :: nat) \<le> n \<longleftrightarrow> (\<forall>k \<in> set ns. k \<le> n)"
  by (induction ns) auto

lemma json_depth_array_le: "json_depth (JArray js) \<le> Suc n \<longleftrightarrow> (\<forall>j \<in> set js. json_depth j \<le> n)"
  by (simp add: foldr_max_le)

lemma json_depth_object_le_iff:
  "json_depth (JObject ms) \<le> Suc n \<longleftrightarrow> (\<forall>m \<in> set ms. json_depth (snd m) \<le> n)"
  by (simp add: foldr_max_le)

fun frame_values :: "parse_frame \<Rightarrow> json list" where
  "frame_values (ParseObjectKey ms) = map snd ms"
| "frame_values (ParseObjectValue ms k) = map snd ms"
| "frame_values (ParseArrayValue vs) = vs"

fun stack_fits :: "parse_frame list \<Rightarrow> bool" where
  "stack_fits [] = True"
| "stack_fits (f # stk) =
     (list_all (\<lambda>v. Suc (length stk) + json_depth v \<le> max_nesting) (frame_values f) \<and>
      length stk < max_nesting \<and> stack_fits stk)"

fun scanner_fits :: "scanner \<Rightarrow> bool" where
  "scanner_fits (EndValue v, stk) = (length stk + json_depth v \<le> max_nesting \<and> stack_fits stk)"
| "scanner_fits (_, stk) = stack_fits stk"

lemma stack_fits_length: "stack_fits stk \<Longrightarrow> length stk \<le> max_nesting"
  by (cases stk) auto

lemma push_frame_fits:
  "push_frame st f stk = Some sc \<Longrightarrow> frame_values f = [] \<Longrightarrow> \<not> (\<exists>v. st = EndValue v) \<Longrightarrow> stack_fits stk \<Longrightarrow>
     scanner_fits sc"
  by (cases st) (auto simp: push_frame_def split: if_splits)

lemma begin_value_fits: "begin_value t stk = Some sc \<Longrightarrow> stack_fits stk \<Longrightarrow> scanner_fits sc"
  by (cases t) (auto simp: stack_fits_length elim: push_frame_fits)

lemma begin_string_fits: "begin_string t stk = Some sc \<Longrightarrow> stack_fits stk \<Longrightarrow> scanner_fits sc"
  by (cases t) auto

lemma closed_array_fits:
  assumes "length stk < max_nesting" and "\<forall>v \<in> set vs. Suc (length stk) + json_depth v \<le> max_nesting"
  shows "length stk + json_depth (JArray vs) \<le> max_nesting"
proof -
  obtain n where n: "max_nesting = length stk + Suc n"
    using assms(1) less_imp_Suc_add by auto
  then have "json_depth (JArray vs) \<le> Suc n"
    using assms(2) by (auto simp: foldr_max_le)
  then show ?thesis
    using n by linarith
qed

lemma closed_object_fits:
  assumes "length stk < max_nesting"
    and "\<forall>m \<in> set ms. Suc (length stk) + json_depth (snd m) \<le> max_nesting"
  shows "length stk + json_depth (JObject ms) \<le> max_nesting"
proof -
  obtain n where n: "max_nesting = length stk + Suc n"
    using assms(1) less_imp_Suc_add by auto
  then have "json_depth (JObject ms) \<le> Suc n"
    using assms(2) by (auto simp: foldr_max_le)
  then show ?thesis
    using n by linarith
qed

lemma end_value_fits:
  assumes "end_value v t stk = Some sc" and "length stk + json_depth v \<le> max_nesting"
    and "stack_fits stk"
  shows "scanner_fits sc"
  using assms
  by (cases "(v, t, stk)" rule: end_value.cases;
      auto simp: list_all_iff simp del: json_depth.simps(1) json_depth_object
      intro!: closed_array_fits closed_object_fits; force)

lemma scan_step_fits:
  "scan_step t sc = Some sc' \<Longrightarrow> scanner_fits sc \<Longrightarrow> scanner_fits sc'"
  by (cases "(t, sc)" rule: scan_step.cases;
      auto simp: list_all_iff stack_fits_length simp del: json_depth.simps(1) json_depth_object
      intro!: closed_array_fits closed_object_fits elim: begin_value_fits
      begin_string_fits end_value_fits push_frame_fits; force)

lemma parse_loop_fits:
  "parse_loop sc s = Some (v, r) \<Longrightarrow> scanner_fits sc \<Longrightarrow> json_depth v \<le> max_nesting"
proof (induction s arbitrary: sc rule: length_induct)
  case (1 s)
  from "1.prems"(1) show ?case
  proof (cases rule: parse_loop_cases)
    case 1
    then show ?thesis
      using "1.prems"(2) by simp
  next
    case (2 t q sc')
    then show ?thesis
      using "1.IH" "1.prems"(2) scan_step_fits next_token_shorter by blast
  qed
qed

lemma parse_value_fits: "parse_value s = Some (v, r) \<Longrightarrow> json_depth v \<le> max_nesting"
  using parse_loop_fits [of "(BeginValue, [])" s] by (simp add: parse_value_def)

end
