(* ===== verification/Jwt_Claims_Roundtrip.thy ===== *)
theory Jwt_Claims_Roundtrip
  imports Jwt_Claims Json_Valid
begin

text \<open>
  What encoding and decoding of claims do together: claims made of UTF-8 strings and JSON
  values come back as they were, with their times cut to whole seconds.
\<close>

section \<open>Values\<close>

text \<open>A value that JSON can hold as it is.\<close>

fun plain_any :: "go_any \<Rightarrow> bool" where
  "plain_any (AnyNumber l) = valid_number l"
| "plain_any (AnyString s) = valid_utf8 s"
| "plain_any (AnySlice xs) = list_all plain_any xs"
| "plain_any (AnyMap ms) = (map_ok ms \<and> list_all (\<lambda>(k, v). valid_utf8 k \<and> plain_any v) ms)"
| "plain_any (AnyForeign j) = False"
| "plain_any _ = True"

fun json_of_any :: "go_any \<Rightarrow> json" where
  "json_of_any (AnyBool b) = JBool b"
| "json_of_any (AnyNumber l) = JNumber l"
| "json_of_any (AnyString s) = JString s"
| "json_of_any (AnySlice xs) = JArray (map json_of_any xs)"
| "json_of_any (AnyMap ms) = JObject (map (\<lambda>(k, v). (k, json_of_any v)) ms)"
| "json_of_any _ = JNull"

lemma those_map_Some: "(\<And>x. x \<in> set xs \<Longrightarrow> f x = Some (g x)) \<Longrightarrow> those (map f xs) = Some (map g xs)"
  by (induction xs) auto

lemma valid_number_nonempty: "valid_number l \<Longrightarrow> l \<noteq> ''''"
  by (auto simp: valid_number_def lex_number_def)

lemma plain_Marshal: "plain_any a \<Longrightarrow> json_Marshal_any a = Some (json_of_any a)"
proof (induction a)
  case (AnyMap ms)
  have "(\<lambda>(k, v). map_option (Pair k) (json_Marshal_any v)) m = Some ((\<lambda>(k, v). (k, json_of_any v)) m)"
    if "m \<in> set ms" for m
    using AnyMap that by (cases m) (auto simp: list_all_iff intro: snds.intros)
  then show ?case
    by (simp add: those_map_Some)
qed (auto simp: those_map_Some list_all_iff valid_number_nonempty)

lemma plain_Unmarshal: "plain_any a \<Longrightarrow> jsonUnmarshalAny (json_of_any a) = a"
proof (induction a)
  case (AnyMap ms)
  have "map (\<lambda>(k, v). (k, jsonUnmarshalAny v)) (map (\<lambda>(k, v). (k, json_of_any v)) ms) = ms"
    using AnyMap by (auto simp: list_all_iff intro!: map_idI intro: snds.intros)
  with AnyMap show ?case
    by (simp add: map_build_id)
qed (auto simp: list_all_iff intro!: map_idI)

lemma plain_json: "plain_any a \<Longrightarrow> strings_valid (json_of_any a) \<and> numbers_valid (json_of_any a)"
proof (induction a)
  case (AnyMap ms)
  then show ?case
    by (fastforce simp: list_all_iff intro: snds.intros)
qed (auto simp: list_all_iff)

section \<open>Claims\<close>

definition plain_extra :: "(string \<times> go_any) list \<Rightarrow> bool" where
  "plain_extra m \<longleftrightarrow>
     map_ok m \<and> list_all (\<lambda>(k, v). k \<notin> reservedClaims \<and> valid_utf8 k \<and> plain_any v) m"

definition plain_claims :: "claims \<Rightarrow> bool" where
  "plain_claims c \<longleftrightarrow>
     valid_utf8 (Subject c) \<and> valid_utf8 (Issuer c) \<and> valid_utf8 (ClaimID c) \<and>
     list_all valid_utf8 (Audience c) \<and>
     time_ok (IssuedAt c) \<and> time_ok (ExpiresAt c) \<and> time_ok (NotBefore c) \<and>
     plain_extra (Extra c)"

text \<open>A time in a token: whole seconds, and the first second of 1970 reads as no time.\<close>

definition whole_seconds :: "go_time \<Rightarrow> go_time" where
  "whole_seconds t = (if Time_Unix t = 0 then zero_time else GoTime (wall_sec t) 0)"

definition settled :: "claims \<Rightarrow> claims" where
  "settled c = c\<lparr>IssuedAt := whole_seconds (IssuedAt c), ExpiresAt := whole_seconds (ExpiresAt c),
     NotBefore := whole_seconds (NotBefore c)\<rparr>"

lemma date_member_reads:
  assumes "time_ok t"
  shows "read_date (map_of (date_member k t)) k zero_time = whole_seconds t"
proof (cases "IsZero t")
  case True
  then have "t = zero_time"
    by (cases t) (simp add: IsZero_def zero_time_def)
  then show ?thesis
    by (simp add: date_member_def read_date_def IsZero_def zero_time_def whole_seconds_def
        Time_Unix_def wrap64_def unixToInternal_def)
next
  case False
  then show ?thesis
    using from_Unix_Time_Unix [OF assms]
    by (simp add: date_member_def read_date_def whole_seconds_def jsonUnmarshalDate_def
        ParseInt_FormatInt Time_Unix_def wrap64_int64 Let_def)
qed

lemma audience_round_trip: "a \<noteq> [] \<Longrightarrow> Audience_UnmarshalJSON (Audience_MarshalJSON a) = Inr a"
  by (cases a rule: Audience_MarshalJSON.cases)
    (simp_all add: Audience_UnmarshalJSON_def those_map_Some [where g = "\<lambda>x. x"] comp_def)

text \<open>The struct of the registered claims as a map.\<close>

lemma keys_string_member: "fst ` set (string_member k s) \<subseteq> {k}"
  by (simp add: string_member_def)

lemma keys_date_member: "fst ` set (date_member k t) \<subseteq> {k}"
  by (simp add: date_member_def Let_def)

lemma map_of_foreign: "fst ` set ms \<subseteq> {k} \<Longrightarrow> k' \<noteq> k \<Longrightarrow> map_of ms k' = None"
  by (auto simp: map_of_eq_None_iff)

lemmas lookup_simps =
  map_of_foreign [OF keys_string_member] map_of_foreign [OF keys_date_member]

lemma registered_lookup:
  "map_of (registered c) ''sub'' = map_of (string_member ''sub'' (Subject c)) ''sub''"
  "map_of (registered c) ''iss'' = map_of (string_member ''iss'' (Issuer c)) ''iss''"
  "map_of (registered c) ''aud'' =
     (if Audience c = [] then None else Some (Audience_MarshalJSON (Audience c)))"
  "map_of (registered c) ''jti'' = map_of (string_member ''jti'' (ClaimID c)) ''jti''"
  "map_of (registered c) ''iat'' = map_of (date_member ''iat'' (IssuedAt c)) ''iat''"
  "map_of (registered c) ''exp'' = map_of (date_member ''exp'' (ExpiresAt c)) ''exp''"
  "map_of (registered c) ''nbf'' = map_of (date_member ''nbf'' (NotBefore c)) ''nbf''"
  by (auto simp: registered_def map_of_append map_add_def lookup_simps split: option.split)

lemma registered_keys: "fst ` set (registered c) \<subseteq> reservedClaims"
  by (auto simp: registered_def string_member_def date_member_def Let_def)

lemma registered_distinct: "distinct (map fst (registered c))"
  by (simp add: registered_def string_member_def date_member_def Let_def)

lemma string_member_ok:
  "k \<in> {''sub'', ''iss'', ''jti''} \<Longrightarrow> m \<in> set (string_member k s) \<Longrightarrow> member_ok m"
  by (auto simp: string_member_def member_ok_simps split: if_splits)

lemma date_member_ok:
  "k \<in> {''iat'', ''exp'', ''nbf''} \<Longrightarrow> m \<in> set (date_member k t) \<Longrightarrow> member_ok m"
  by (auto simp: date_member_def Let_def member_ok_simps jsonUnmarshalDate_def ParseInt_FormatInt
      Time_Unix_def wrap64_int64 split: if_splits)

lemma audience_member_ok: "a \<noteq> [] \<Longrightarrow> member_ok (''aud'', Audience_MarshalJSON a)"
  by (simp add: member_ok_simps audience_round_trip)

lemma registered_cases:
  assumes "m \<in> set (registered c)"
  obtains k s where "k \<in> {''sub'', ''iss'', ''jti''}" "s \<in> {Subject c, Issuer c, ClaimID c}"
      "m \<in> set (string_member k s)"
    | k t where "k \<in> {''iat'', ''exp'', ''nbf''}" "m \<in> set (date_member k t)"
    | "Audience c \<noteq> []" "m = (''aud'', Audience_MarshalJSON (Audience c))"
  using assms unfolding registered_def by (auto split: if_splits)

lemma registered_member_ok: "m \<in> set (registered c) \<Longrightarrow> member_ok m"
  by (erule registered_cases) (use string_member_ok date_member_ok audience_member_ok in blast)+

text \<open>A member that is printed and read back as it is.\<close>

definition sound_member :: "string \<times> json \<Rightarrow> bool" where
  "sound_member m \<longleftrightarrow>
     valid_utf8 (fst m) \<and> strings_valid (snd m) \<and> numbers_valid (snd m)"

lemma reserved_utf8: "k \<in> reservedClaims \<Longrightarrow> valid_utf8 k"
  by (auto simp: reservedClaims_def)

lemma string_member_sound:
  "k \<in> reservedClaims \<Longrightarrow> valid_utf8 s \<Longrightarrow> m \<in> set (string_member k s) \<Longrightarrow> sound_member m"
  by (auto simp: string_member_def sound_member_def reserved_utf8 split: if_splits)

lemma date_member_sound:
  "k \<in> reservedClaims \<Longrightarrow> m \<in> set (date_member k t) \<Longrightarrow> sound_member m"
  by (auto simp: date_member_def sound_member_def reserved_utf8 FormatInt_number Let_def
      split: if_splits)

lemma audience_sound: "list_all valid_utf8 a \<Longrightarrow> sound_member (''aud'', Audience_MarshalJSON a)"
  by (cases a rule: Audience_MarshalJSON.cases)
    (simp_all add: sound_member_def list_all_iff)

lemma registered_sound:
  assumes "plain_claims c" and "m \<in> set (registered c)"
  shows "sound_member m"
  using assms(2)
proof (rule registered_cases)
  fix k s
  assume "k \<in> {''sub'', ''iss'', ''jti''}" "s \<in> {Subject c, Issuer c, ClaimID c}"
    and m: "m \<in> set (string_member k s)"
  then have "k \<in> reservedClaims" "valid_utf8 s"
    using assms(1) by (auto simp: plain_claims_def)
  then show ?thesis
    using m by (rule string_member_sound)
next
  fix k t
  assume "k \<in> {''iat'', ''exp'', ''nbf''}" "m \<in> set (date_member k t)"
  then show ?thesis
    by (intro date_member_sound [of k]) auto
next
  assume "m = (''aud'', Audience_MarshalJSON (Audience c))"
  then show ?thesis
    using assms(1) audience_sound by (simp add: plain_claims_def)
qed

section \<open>The round trip\<close>

lemma merge_extra_plain:
  "list_all (\<lambda>(k, v). plain_any v) extra \<Longrightarrow>
     merge_extra extra merged = Inr (map_build merged (map (\<lambda>(k, v). (k, json_of_any v)) extra))"
  by (induction extra merged rule: merge_extra.induct) (simp_all add: plain_Marshal)

text \<open>What plain claims are encoded to.\<close>

lemma MarshalJSON_plain:
  assumes "plain_claims c"
  obtains ms where "MarshalJSON c = Inr (JObject ms)" and "distinct (map fst ms)"
    and "set ms \<subseteq> set (registered c) \<union> set (map (\<lambda>(k, v). (k, json_of_any v)) (Extra c))"
    and "map_of ms = map_of (registered c) ++ map_of (map (\<lambda>(k, v). (k, json_of_any v)) (Extra c))"
proof -
  let ?extra = "map (\<lambda>(k, v). (k, json_of_any v)) (Extra c)"
  have x: "map_ok (Extra c)" "\<not> list_ex (\<lambda>(name, v). name \<in> reservedClaims) (Extra c)"
      "list_all (\<lambda>(k, v). plain_any v) (Extra c)"
    using assms by (auto simp: plain_claims_def plain_extra_def list_all_iff list_ex_iff)
  show ?thesis
  proof (cases "Extra c = []")
    case True
    then show ?thesis
      using that [of "registered c"] by (simp add: MarshalJSON_def registered_distinct)
  next
    case False
    let ?ms = "map_build (map_build [] (registered c)) ?extra"
    have distinct: "distinct (map fst ?extra)"
      using map_ok_distinct [OF x(1)] by (simp add: comp_def case_prod_beta')
    show ?thesis
    proof (rule that [of ?ms])
      show "MarshalJSON c = Inr (JObject ?ms)"
        using False x by (simp add: MarshalJSON_def merge_extra_plain)
      show "distinct (map fst ?ms)"
        by (intro map_ok_distinct map_ok_build) simp
      show "set ?ms \<subseteq> set (registered c) \<union> set ?extra"
        using map_build_members [of "map_build [] (registered c)" ?extra]
          map_build_members [of "[]" "registered c"] by auto
      show "map_of ?ms = map_of (registered c) ++ map_of ?extra"
        using distinct by (simp add: map_of_build map_ok_build registered_distinct)
    qed
  qed
qed

text \<open>Reading the members back.\<close>

lemma read_back_claims:
  assumes plain: "plain_claims c" and ok: "map_ok raw"
    and raw: "map_of raw = map_of (registered c) ++ map_of (map (\<lambda>(k, v). (k, json_of_any v)) (Extra c))"
  shows "read_members raw zero_claims = settled c"
proof -
  let ?extra = "map (\<lambda>(k, v). (k, json_of_any v)) (Extra c)"
  have x: "map_ok (Extra c)" "\<And>k v. (k, v) \<in> set (Extra c) \<Longrightarrow> k \<notin> reservedClaims \<and> plain_any v"
    using plain by (auto simp: plain_claims_def plain_extra_def list_all_iff)
  have extra: "map_of ?extra k = None" if "k \<in> reservedClaims" for k
    using x(2) that by (force simp: map_of_eq_None_iff)
  then have reg: "map_of raw k = map_of (registered c) k" if "k \<in> reservedClaims" for k
    using that by (simp add: raw map_add_def)
  have "map_of (registered c) k = None" if "k \<notin> reservedClaims" for k
    using that registered_keys [of c] by (auto simp: map_of_eq_None_iff)
  then have "map_of (extra_members raw) k = map_of (Extra c) k" for k
  proof (cases "map_of (Extra c) k")
    case None
    then show ?thesis
      using \<open>k \<notin> reservedClaims \<Longrightarrow> map_of (registered c) k = None\<close>
      by (simp add: map_of_extra_members raw map_add_def map_of_map_value)
  next
    case (Some v)
    then have "k \<notin> reservedClaims" "plain_any v"
      using x(2) map_of_SomeD by fastforce+
    then show ?thesis
      using Some by (simp add: map_of_extra_members raw map_add_def map_of_map_value plain_Unmarshal)
  qed
  then have "map_build [] (extra_members raw) = Extra c"
    using x(1) map_ok_distinct [OF ok]
    by (intro map_ok_ext map_ok_build) (simp_all add: map_of_build extra_members_distinct fun_eq_iff)
  moreover have "read_string (map_of (string_member k s)) k '''' = s" for k s
    by (simp add: read_string_def string_member_def jsonUnmarshalString_def)
  moreover have "read_audience (map_of raw) [] = Audience c"
    using audience_round_trip [of "Audience c"]
    by (simp add: read_audience_def reg registered_lookup)
  moreover note date_member_reads
  ultimately show ?thesis
    using plain
    by (simp add: read_members_def zero_claims_def settled_def reg registered_lookup read_string_def
        read_date_def plain_claims_def flip: extra_members_def)
qed

lemma sound_object:
  assumes "\<And>m. m \<in> set ms \<Longrightarrow> sound_member m"
  shows "strings_valid (JObject ms)" and "numbers_valid (JObject ms)"
  using assms by (auto simp: list_all_iff sound_member_def)

lemma json_depth_object_le:
  "(\<And>m. m \<in> set ms \<Longrightarrow> json_depth (snd m) \<le> n) \<Longrightarrow> json_depth (JObject ms) \<le> Suc n"
  by (induction ms) auto

lemma registered_depth: "m \<in> set (registered c) \<Longrightarrow> json_depth (snd m) \<le> 1"
proof (erule registered_cases)
  have "foldr max (map (\<lambda>x. 0) xs) (0 :: nat) = 0" for xs :: "'x list"
    by (induction xs) simp_all
  then have "json_depth (Audience_MarshalJSON a) \<le> 1" for a
    by (cases a rule: Audience_MarshalJSON.cases) (simp_all add: comp_def)
  then show "m = (''aud'', Audience_MarshalJSON (Audience c)) \<Longrightarrow> json_depth (snd m) \<le> 1"
    by simp
qed (auto simp: string_member_def date_member_def Let_def split: if_splits)

lemma claims_text:
  assumes "plain_claims c" and "visits ord" and "json_Marshal_claims c = Inr payload"
  shows "json_Unmarshal_claims ord payload = Inr (settled c)"
proof -
  obtain ms where M: "MarshalJSON c = Inr (JObject ms)" "distinct (map fst ms)"
      "set ms \<subseteq> set (registered c) \<union> set (map (\<lambda>(k, v). (k, json_of_any v)) (Extra c))"
      "map_of ms = map_of (registered c) ++ map_of (map (\<lambda>(k, v). (k, json_of_any v)) (Extra c))"
    using MarshalJSON_plain [OF assms(1)] by blast
  have "sound_member m" if "m \<in> set (map (\<lambda>(k, v). (k, json_of_any v)) (Extra c))" for m
    using that assms(1) plain_json
    by (auto simp: plain_claims_def plain_extra_def list_all_iff sound_member_def)
  then have sound: "strings_valid (JObject ms)" "numbers_valid (JObject ms)"
    using M(3) registered_sound [OF assms(1)] by (intro sound_object; blast)+
  have depth: "json_depth (JObject ms) \<le> max_nesting" and payload: "payload = print_json (JObject ms)"
    using assms(3) M(1) by (auto simp: json_Marshal_claims_def split: if_splits)
  let ?raw = "map_build [] ms"
  have "parse_value payload = Some (JObject ms, [])"
    using parse_value_print [OF sound(2) depth, of "[]"] tidy_same [OF sound(1)]
    unfolding payload by simp
  then have strict: "jsonUnmarshalStrict payload = Inr ?raw"
    by (simp add: jsonUnmarshalStrict_def decoder_More_def skip_space_def)
  have raw: "map_ok ?raw" "map_of ?raw = map_of ms"
    using M(2) by (simp_all add: map_ok_build map_of_build)
  have "member_ok m" if "m \<in> set ?raw" for m
  proof (cases "m \<in> set (registered c)")
    case False
    with that M(3) map_build_members [of "[]" ms] have "fst m \<in> fst ` set (Extra c)"
      by force
    then have "fst m \<notin> reservedClaims"
      using assms(1) by (auto simp: plain_claims_def plain_extra_def list_all_iff)
    then show ?thesis
      using member_ok_simps(8) [of "fst m" "snd m"] by simp
  qed (rule registered_member_ok)
  then have "UnmarshalJSON ord payload = Inr (read_members ?raw zero_claims)"
    using strict by (simp add: UnmarshalJSON_eq [OF assms(2)] list_all_iff)
  also have "read_members ?raw zero_claims = settled c"
    using raw M(4) by (intro read_back_claims [OF assms(1)]) simp_all
  finally show ?thesis
    using parse_json_print [OF sound(2) depth] by (simp add: json_Unmarshal_claims_def payload)
qed

text \<open>Encoding fails only if an extra claim nests too deep.\<close>

definition shallow_extra :: "claims \<Rightarrow> bool" where
  "shallow_extra c \<longleftrightarrow> list_all (\<lambda>(k, v). json_depth (json_of_any v) < max_nesting) (Extra c)"

lemma claims_encode:
  assumes "plain_claims c" and "shallow_extra c"
  shows "\<exists>payload. json_Marshal_claims c = Inr payload"
proof -
  obtain ms where M: "MarshalJSON c = Inr (JObject ms)"
      "set ms \<subseteq> set (registered c) \<union> set (map (\<lambda>(k, v). (k, json_of_any v)) (Extra c))"
    using MarshalJSON_plain [OF assms(1)] by blast
  have "json_depth (JObject ms) \<le> Suc (max_nesting - 1)"
  proof (rule json_depth_object_le)
    fix m
    assume "m \<in> set ms"
    then consider "m \<in> set (registered c)" | "m \<in> set (map (\<lambda>(k, v). (k, json_of_any v)) (Extra c))"
      using M(2) by blast
    then show "json_depth (snd m) \<le> max_nesting - 1"
    proof cases
      case 1
      then show ?thesis
        using registered_depth [OF 1] by (simp add: max_nesting_def)
    next
      case 2
      then show ?thesis
        using assms(2) by (fastforce simp: shallow_extra_def list_all_iff)
    qed
  qed
  then show ?thesis
    using M(1) by (simp add: json_Marshal_claims_def max_nesting_def)
qed

section \<open>Decoded claims\<close>

lemma jsonUnmarshalAny_plain: "sound_json j \<Longrightarrow> plain_any (jsonUnmarshalAny j)"
proof (induction j)
  case (JObject ms)
  let ?ms = "map (\<lambda>(k, v). (k, jsonUnmarshalAny v)) ms"
  have "list_all (\<lambda>(k, v). valid_utf8 k \<and> plain_any v) ?ms"
    using JObject by (auto simp: list_all_iff intro: snds.intros)
  then show ?case
    using map_build_members [of "[]" ?ms] by (auto simp: list_all_iff map_ok_build)
qed (auto simp: list_all_iff)

lemma jsonUnmarshalAny_depth: "json_depth (json_of_any (jsonUnmarshalAny j)) \<le> json_depth j"
proof (induction j)
  case (JArray js)
  then show ?case
    by (simp add: foldr_max_le del: foldr.simps)
      (meson depth_member le_trans)
next
  case (JObject ms)
  let ?ms = "map (\<lambda>(k, v). (k, jsonUnmarshalAny v)) ms"
  let ?d = "foldr max (map (\<lambda>m. json_depth (snd m)) ms) 0"
  have bound: "json_depth (json_of_any v) \<le> ?d" if v: "(k, v) \<in> set (map_build [] ?ms)" for k v
  proof -
    have "(k, v) \<in> set ?ms"
      using v by (rule map_build_member)
    then have "\<exists>x \<in> set ms. k = fst x \<and> v = jsonUnmarshalAny (snd x)"
      by (simp add: image_iff case_prod_beta')
    then obtain j where j: "(k, j) \<in> set ms" and "v = jsonUnmarshalAny j"
      by (metis prod.collapse)
    then have "json_depth (json_of_any v) \<le> json_depth j"
      using JObject [of "(k, j)" j] by (simp add: snds.simps)
    also have "\<dots> \<le> ?d"
      using depth_member [OF j, of "\<lambda>m. json_depth (snd m)"] by simp
    finally show ?thesis .
  qed
  have "json_depth (JObject (map (\<lambda>(k, v). (k, json_of_any v)) (map_build [] ?ms))) \<le> Suc ?d"
    by (rule json_depth_object_le) (auto dest: bound)
  then show ?case
    unfolding jsonUnmarshalAny.simps json_of_any.simps json_depth_object .
qed simp_all

lemma those_Some_set: "those xs = Some ys \<Longrightarrow> y \<in> set ys \<Longrightarrow> Some y \<in> set xs"
  by (induction xs arbitrary: ys) (auto split: option.splits)

lemma audience_valid:
  assumes "Audience_UnmarshalJSON j = Inr a" and "sound_json j"
  shows "list_all valid_utf8 a"
proof -
  have "valid_utf8 s" if "string_element e = Some s" "sound_json e" for e s
    using that by (cases e rule: string_element.cases) auto
  then show ?thesis
    using assms by (fastforce simp: Audience_UnmarshalJSON_def list_all_iff
        split: json.splits option.splits dest: those_Some_set)
qed

lemma jsonUnmarshalString_valid:
  "jsonUnmarshalString j s = Inr s' \<Longrightarrow> sound_json j \<Longrightarrow> valid_utf8 s \<Longrightarrow> valid_utf8 s'"
  by (auto simp: jsonUnmarshalString_def split: json.splits)

lemma jsonUnmarshalDate_ok:
  "jsonUnmarshalDate j = Inr t \<Longrightarrow> time_ok t \<and> wall_nsec t = 0"
  by (auto simp: jsonUnmarshalDate_def from_Unix_def time_ok_def wrap64_int64
      split: json.splits option.splits)

text \<open>The members that a strict decoder hands out.\<close>

lemma strict_members:
  assumes "jsonUnmarshalStrict data = Inr raw" and "m \<in> set raw"
  shows "valid_utf8 (fst m)" "sound_json (snd m)" "json_depth (snd m) < max_nesting"
proof -
  obtain ms rest where v: "parse_value data = Some (JObject ms, rest)" and "raw = map_build [] ms"
    using assms by (auto simp: jsonUnmarshalStrict_def split: option.splits prod.splits json.splits
        if_splits)
  then have m: "m \<in> set ms"
    using assms(2) map_build_members [of "[]" ms] by auto
  show "valid_utf8 (fst m)" "sound_json (snd m)"
    using parse_value_sound [OF v] m by (auto simp: list_all_iff)
  have "Suc (json_depth (snd m)) \<le> json_depth (JObject ms)"
    using depth_member [OF m, of "\<lambda>m. json_depth (snd m)"] by simp
  then show "json_depth (snd m) < max_nesting"
    using parse_value_fits [OF v] by linarith
qed

lemma read_string_valid:
  assumes "\<And>m. m \<in> set raw \<Longrightarrow> sound_json (snd m)"
  shows "valid_utf8 (read_string (map_of raw) k '''')"
  using assms map_of_SomeD [of raw k] jsonUnmarshalString_valid
  by (fastforce simp: read_string_def split: option.split sum.split)

lemma read_date_ok: "time_ok (read_date ms k zero_time) \<and> wall_nsec (read_date ms k zero_time) = 0"
  by (auto simp: read_date_def zero_time_def time_ok_def int64_def dest: jsonUnmarshalDate_ok
      split: option.split sum.split)

lemma decoded_plain:
  assumes "visits ord" and "UnmarshalJSON ord data = Inr c"
  shows "plain_claims c" and "shallow_extra c"
proof -
  obtain raw where raw: "jsonUnmarshalStrict data = Inr raw" and c: "c = read_members raw zero_claims"
    using assms by (auto simp: UnmarshalJSON_eq)
  note member = strict_members [OF raw]
  have extra: "Extra c = map_build [] (extra_members raw)"
    and fields: "Subject c = read_string (map_of raw) ''sub'' ''''"
      "Issuer c = read_string (map_of raw) ''iss'' ''''"
      "ClaimID c = read_string (map_of raw) ''jti'' ''''"
      "Audience c = read_audience (map_of raw) []"
      "IssuedAt c = read_date (map_of raw) ''iat'' zero_time"
      "ExpiresAt c = read_date (map_of raw) ''exp'' zero_time"
      "NotBefore c = read_date (map_of raw) ''nbf'' zero_time"
    by (simp_all add: c read_members_def zero_claims_def extra_members_def)
  have each: "\<exists>j. (k, j) \<in> set raw \<and> k \<notin> reservedClaims \<and> v = jsonUnmarshalAny j"
    if "(k, v) \<in> set (Extra c)" for k v
    using that map_build_members [of "[]" "extra_members raw"]
    by (auto simp: extra extra_members_def)
  have "list_all valid_utf8 (read_audience (map_of raw) [])"
    using member(2) map_of_SomeD [of raw "''aud''"] audience_valid
    by (fastforce simp: read_audience_def split: option.split sum.split)
  moreover have "map_ok (Extra c)"
    by (simp add: extra map_ok_build)
  moreover have "list_all (\<lambda>(k, v). k \<notin> reservedClaims \<and> valid_utf8 k \<and> plain_any v) (Extra c)"
    using each member(1,2) jsonUnmarshalAny_plain by (fastforce simp: list_all_iff)
  ultimately show "plain_claims c"
    using read_string_valid [of raw] member(2) read_date_ok
    by (simp add: plain_claims_def plain_extra_def fields)
  show "shallow_extra c"
    unfolding shallow_extra_def list_all_iff
  proof safe
    fix k v
    assume "(k, v) \<in> set (Extra c)"
    then obtain j where "(k, j) \<in> set raw" "v = jsonUnmarshalAny j"
      using each by blast
    then show "json_depth (json_of_any v) < max_nesting"
      using member(3) [of "(k, j)"] jsonUnmarshalAny_depth [of j] by simp
  qed
qed

lemma decoded_times:
  assumes "visits ord" and "UnmarshalJSON ord data = Inr c"
  shows "wall_nsec (IssuedAt c) = 0" "wall_nsec (ExpiresAt c) = 0" "wall_nsec (NotBefore c) = 0"
  using assms read_date_ok by (auto simp: UnmarshalJSON_eq read_members_def zero_claims_def)

lemma json_Unmarshal_claims_Inr:
  "json_Unmarshal_claims ord payload = Inr c \<Longrightarrow> UnmarshalJSON ord payload = Inr c"
  by (simp add: json_Unmarshal_claims_def split: option.splits)

section \<open>Properties\<close>

text \<open>Claims survive their JSON text: encoding succeeds, and decoding the text, in whatever order the
decoder visits the members, gives back the same subject, issuer, audience, id and extra claims, with
the three times cut to whole seconds (a time in the first second of 1970 comes back as no time).\<close>

theorem claims_round_trip:
  assumes "plain_claims c" and "shallow_extra c" and "visits ord"
  shows "\<exists>payload. json_Marshal_claims c = Inr payload \<and>
    json_Unmarshal_claims ord payload = Inr (settled c)"
  using claims_encode [OF assms(1,2)] claims_text [OF assms(1,3)] by blast

text \<open>Claims with two audiences, an extra claim and times, used by the witnesses.\<close>

definition sample_claims :: claims where
  "sample_claims =
     \<lparr>Subject = ''bob'', Issuer = ''login'', Audience = [''api'', ''web''], ClaimID = '''',
      IssuedAt = GoTime 63835596800 5, ExpiresAt = GoTime 63835597700 5, NotBefore = zero_time,
      Extra = [(''role'', AnyMap [(''a<b'', AnySlice [AnyNumber ''1e3'', AnyNil])])]\<rparr>"

lemma sample_claims_plain: "plain_claims sample_claims" "shallow_extra sample_claims"
  by (simp_all add: plain_claims_def sample_claims_def plain_extra_def reservedClaims_def
      time_ok_def int64_def zero_time_def map_ok_def valid_number_def lex_number_def
      lex_unsigned_def lex_int_part_def lex_fraction_def lex_exponent_def lex_digits1_def
      lex_digits_def is_digit_def shallow_extra_def max_nesting_def)

lemma claims_round_trip_witness:
  "\<exists>payload. json_Marshal_claims sample_claims = Inr payload \<and>
     json_Unmarshal_claims rev payload = Inr (settled sample_claims)"
  by (rule claims_round_trip [OF sample_claims_plain]) (simp add: visits_def)


text \<open>C27: Decoding yields only well-formed claims: every string of them is UTF-8, every number of the extra
claims is a JSON number, maps have each key once and none is a registered name, times are whole
seconds in range and the nesting is bounded. So claims that were decoded can always be encoded again,
and that text decodes to the same claims, except that a time equal to the Unix epoch is dropped.\<close>

theorem decoded_claims_well_formed:
  assumes "visits ord" and "json_Unmarshal_claims ord payload = Inr c"
  shows "plain_claims c \<and> shallow_extra c \<and>
    wall_nsec (IssuedAt c) = 0 \<and> wall_nsec (ExpiresAt c) = 0 \<and> wall_nsec (NotBefore c) = 0 \<and>
    (\<exists>again. json_Marshal_claims c = Inr again \<and>
       (\<forall>ord'. visits ord' \<longrightarrow> json_Unmarshal_claims ord' again = Inr (settled c)) \<and>
       (0 \<notin> Time_Unix ` {IssuedAt c, ExpiresAt c, NotBefore c} \<longrightarrow> settled c = c))"
proof -
  note decoded = json_Unmarshal_claims_Inr [OF assms(2)]
  note plain = decoded_plain [OF assms(1) decoded] and times = decoded_times [OF assms(1) decoded]
  have "whole_seconds t = t" if "Time_Unix t \<noteq> 0" "wall_nsec t = 0" for t
    using that by (cases t) (simp add: whole_seconds_def)
  then have "settled c = c" if "0 \<notin> Time_Unix ` {IssuedAt c, ExpiresAt c, NotBefore c}"
    using that times by (simp add: settled_def)
  then show ?thesis
    using plain times claims_encode [OF plain] claims_text [OF plain(1)] by blast
qed

lemma decoded_claims_well_formed_witness:
  "\<exists>payload c. json_Unmarshal_claims rev payload = Inr c \<and> Subject c = ''bob'' \<and> plain_claims c"
proof -
  obtain payload where "json_Marshal_claims sample_claims = Inr payload"
    using claims_encode [OF sample_claims_plain] by blast
  moreover have "visits rev"
    by (simp add: visits_def)
  ultimately have "json_Unmarshal_claims rev payload = Inr (settled sample_claims)"
    using claims_text [OF sample_claims_plain(1)] by blast
  moreover have "Subject (settled sample_claims) = ''bob''"
    by (simp add: settled_def sample_claims_def)
  ultimately show ?thesis
    using decoded_claims_well_formed [OF \<open>visits rev\<close>] by blast
qed

text \<open>Go ranges over the members of a JSON object in no fixed order, and it does not matter: in every
order decoding succeeds on the same payloads with the same claims, namely those each registered claim
is read from its own member; only which of several faulty members an error names may differ.\<close>

theorem claims_decode_order_irrelevant:
  assumes "visits ord" and "visits ord'"
  shows "json_Unmarshal_claims ord payload = Inr c \<longleftrightarrow> json_Unmarshal_claims ord' payload = Inr c"
  by (simp add: json_Unmarshal_claims_def UnmarshalJSON_eq [OF assms(1)] UnmarshalJSON_eq [OF assms(2)]
      split: option.split)

lemma claims_decode_order_irrelevant_witness:
  "\<exists>payload. json_Unmarshal_claims rev payload = Inr (settled sample_claims) \<and>
     json_Unmarshal_claims (\<lambda>m. m) payload = Inr (settled sample_claims)"
proof -
  obtain payload where "json_Marshal_claims sample_claims = Inr payload"
    using claims_encode [OF sample_claims_plain] by blast
  moreover have "visits rev"
    by (simp add: visits_def)
  ultimately have "json_Unmarshal_claims rev payload = Inr (settled sample_claims)"
    using claims_text [OF sample_claims_plain(1)] by blast
  then show ?thesis
    using claims_decode_order_irrelevant [OF \<open>visits rev\<close> visits_id] by blast
qed

end
