(* ===== verification/Jwt_Token.thy ===== *)
theory Jwt_Token
  imports Jwt_Algorithm Base64_Url Jwt_Claims_Roundtrip
begin

text \<open>
  \<open>jwt/jwt.go\<close> and \<open>jwt/symmetric.go\<close>: settings, signers and verifiers, the type \<open>JWT\<close>
  that binds one of each. The clock is a function of a world \<open>'w\<close> that each reading
  advances; a verifier also takes the order in which the claims decoder visits members.
\<close>

section \<open>Settings\<close>

type_synonym 'w jwt_clock = "'w \<Rightarrow> go_time \<times> 'w"

record 'w settings =
  set_ttl :: int
  set_issuer :: string
  set_audience :: audience
  set_leeway :: int
  set_expectIssuer :: string
  set_expectAudience :: string
  set_now :: "'w jwt_clock"

type_synonym 'w jwt_option = "'w settings \<Rightarrow> 'w settings"

definition WithTTL :: "int \<Rightarrow> 'w jwt_option" where
  "WithTTL d = (\<lambda>s. s\<lparr>set_ttl := d\<rparr>)"

definition WithIssuer :: "string \<Rightarrow> 'w jwt_option" where
  "WithIssuer iss = (\<lambda>s. s\<lparr>set_issuer := iss\<rparr>)"

definition WithAudience :: "audience \<Rightarrow> 'w jwt_option" where
  "WithAudience aud = (\<lambda>s. s\<lparr>set_audience := aud\<rparr>)"

definition WithLeeway :: "int \<Rightarrow> 'w jwt_option" where
  "WithLeeway d = (\<lambda>s. s\<lparr>set_leeway := d\<rparr>)"

definition WithExpectedIssuer :: "string \<Rightarrow> 'w jwt_option" where
  "WithExpectedIssuer iss = (\<lambda>s. s\<lparr>set_expectIssuer := iss\<rparr>)"

definition WithExpectedAudience :: "string \<Rightarrow> 'w jwt_option" where
  "WithExpectedAudience aud = (\<lambda>s. s\<lparr>set_expectAudience := aud\<rparr>)"

text \<open>The system clock is the first argument; no clock selects it.\<close>

definition jwt_WithNow :: "'w jwt_clock \<Rightarrow> 'w jwt_clock option \<Rightarrow> 'w jwt_option" where
  "jwt_WithNow sys now =
     (\<lambda>s. let now = (case now of None \<Rightarrow> sys | Some now \<Rightarrow> now) in s\<lparr>set_now := now\<rparr>)"

text \<open>No option leaves the clock unset (\<open>jwt_WithNow\<close>), so the final test of \<open>newSettings\<close>
for a missing clock finds none.\<close>

definition newSettings :: "'w jwt_clock \<Rightarrow> 'w jwt_option option list \<Rightarrow> 'w settings" where
  "newSettings sys opts =
     foldl (\<lambda>s opt. case opt of None \<Rightarrow> s | Some opt \<Rightarrow> opt s)
       \<lparr>set_ttl = 0, set_issuer = '''', set_audience = [], set_leeway = 0, set_expectIssuer = '''',
        set_expectAudience = '''', set_now = sys\<rparr> opts"

section \<open>Signers and verifiers\<close>

record 'w signer =
  sg_alg :: algorithm
  sg_set :: "'w settings"

record 'w verifier =
  vf_alg :: algorithm
  vf_set :: "'w settings"

definition NewSignerHS256 :: "'w jwt_clock \<Rightarrow> string \<Rightarrow> 'w jwt_option option list \<Rightarrow> jwt_error + 'w signer" where
  "NewSignerHS256 sys key opts =
     (case newHMACAlg AlgHS256 key of
        Inl err \<Rightarrow> Inl err
      | Inr alg \<Rightarrow> Inr \<lparr>sg_alg = hmac_algorithm alg, sg_set = newSettings sys opts\<rparr>)"

definition NewSignerEdDSA ::
  "ed25519 \<Rightarrow> 'w jwt_clock \<Rightarrow> string \<Rightarrow> 'w jwt_option option list \<Rightarrow> jwt_error + 'w signer" where
  "NewSignerEdDSA ed sys key opts =
     (case newEdDSASignAlg key of
        Inl err \<Rightarrow> Inl err
      | Inr alg \<Rightarrow> Inr \<lparr>sg_alg = eddsa_algorithm ed alg, sg_set = newSettings sys opts\<rparr>)"

definition NewVerifierHS256 ::
  "'w jwt_clock \<Rightarrow> string \<Rightarrow> 'w jwt_option option list \<Rightarrow> jwt_error + 'w verifier" where
  "NewVerifierHS256 sys key opts =
     (case newHMACAlg AlgHS256 key of
        Inl err \<Rightarrow> Inl err
      | Inr alg \<Rightarrow> Inr \<lparr>vf_alg = hmac_algorithm alg, vf_set = newSettings sys opts\<rparr>)"

definition NewVerifierEdDSA ::
  "ed25519 \<Rightarrow> 'w jwt_clock \<Rightarrow> string \<Rightarrow> 'w jwt_option option list \<Rightarrow> jwt_error + 'w verifier" where
  "NewVerifierEdDSA ed sys key opts =
     (case newEdDSAVerifyAlg key of
        Inl err \<Rightarrow> Inl err
      | Inr alg \<Rightarrow> Inr \<lparr>vf_alg = eddsa_algorithm ed alg, vf_set = newSettings sys opts\<rparr>)"

definition Signer_Algorithm :: "'w signer \<Rightarrow> string" where
  "Signer_Algorithm s = alg_name (sg_alg s)"

definition Verifier_Algorithm :: "'w verifier \<Rightarrow> string" where
  "Verifier_Algorithm v = alg_name (vf_alg v)"

section \<open>Signing\<close>

text \<open>The defaults that \<open>Sign\<close> fills in before it encodes.\<close>

definition fill_defaults :: "'w settings \<Rightarrow> go_time \<Rightarrow> claims \<Rightarrow> jwt_error + claims" where
  "fill_defaults cfg now c =
     (let c = (if IsZero (IssuedAt c) then c\<lparr>IssuedAt := now\<rparr> else c) in
      if IsZero (ExpiresAt c) \<and> set_ttl cfg \<le> 0 then Inl ErrMissingExpiration
      else
        let c = (if IsZero (ExpiresAt c)
                 then c\<lparr>ExpiresAt := Time_Add (IssuedAt c) (set_ttl cfg)\<rparr> else c);
            c = (if Issuer c = '''' then c\<lparr>Issuer := set_issuer cfg\<rparr> else c);
            c = (if length (Audience c) = 0 then c\<lparr>Audience := set_audience cfg\<rparr> else c)
        in Inr c)"

definition Sign :: "'w signer \<Rightarrow> claims \<Rightarrow> 'w \<Rightarrow> (jwt_error + string) \<times> 'w" where
  "Sign s claims w =
     (if Subject claims = '''' then (Inl ErrMissingSubject, w)
      else
        let (now, w) = set_now (sg_set s) w in
        (case fill_defaults (sg_set s) now claims of
           Inl err \<Rightarrow> (Inl err, w)
         | Inr claims \<Rightarrow>
        (case json_Marshal_claims claims of
           Inl err \<Rightarrow> (Inl (EncodeClaims err), w)
         | Inr payload \<Rightarrow>
             let input = b64encode (alg_header (sg_alg s)) @ ''.'' @ b64encode payload in
             (case alg_sign (sg_alg s) input of
                Inl err \<Rightarrow> (Inl err, w)
              | Inr signature \<Rightarrow> (Inr (input @ ''.'' @ b64encode signature), w)))))"

section \<open>Verification\<close>

text \<open>\<open>strings.Split\<close> by a single byte.\<close>

fun Split :: "char \<Rightarrow> string \<Rightarrow> string list" where
  "Split sep [] = [[]]"
| "Split sep (c # s) =
     (if c = sep then [] # Split sep s
      else (case Split sep s of
          [] \<Rightarrow> [[c]]
        | p # ps \<Rightarrow> (c # p) # ps))"

text \<open>
  The struct \<open>jose\<close> and its decoding by \<open>json.Unmarshal\<close>: member names match without regard
  to case, later members win, \<open>null\<close> leaves a string as it is and empties a slice, any
  other value of the wrong type is an error.
\<close>

record jose =
  jose_Alg :: string
  jose_Typ :: string
  jose_Crit :: "string list"

definition zero_jose :: jose where
  "zero_jose = \<lparr>jose_Alg = '''', jose_Typ = '''', jose_Crit = []\<rparr>"

definition lower_char :: "char \<Rightarrow> char" where
  "lower_char c = (if CHR ''A'' \<le> c \<and> c \<le> CHR ''Z'' then char_of (of_char c + 32 :: nat) else c)"

definition fold_name :: "string \<Rightarrow> string" where
  "fold_name k = map lower_char k"

definition into_string :: "json \<Rightarrow> string \<Rightarrow> string option" where
  "into_string j out = (case j of JString s \<Rightarrow> Some s | JNull \<Rightarrow> Some out | _ \<Rightarrow> None)"

definition into_strings :: "json \<Rightarrow> string list option" where
  "into_strings j =
     (case j of
        JNull \<Rightarrow> Some []
      | JArray js \<Rightarrow> those (map string_element js)
      | _ \<Rightarrow> None)"

definition jose_member :: "string \<times> json \<Rightarrow> jose \<Rightarrow> jose option" where
  "jose_member m h =
     (let k = fold_name (fst m) in
      if k = ''alg'' then map_option (\<lambda>s. h\<lparr>jose_Alg := s\<rparr>) (into_string (snd m) (jose_Alg h))
      else if k = ''typ'' then map_option (\<lambda>s. h\<lparr>jose_Typ := s\<rparr>) (into_string (snd m) (jose_Typ h))
      else if k = ''crit'' then map_option (\<lambda>c. h\<lparr>jose_Crit := c\<rparr>) (into_strings (snd m))
      else Some h)"

fun jose_members :: "(string \<times> json) list \<Rightarrow> jose \<Rightarrow> jose option" where
  "jose_members [] h = Some h"
| "jose_members (m # ms) h = Option.bind (jose_member m h) (jose_members ms)"

definition json_Unmarshal_jose :: "string \<Rightarrow> jose option" where
  "json_Unmarshal_jose header =
     (case parse_json header of
        Some (JObject ms) \<Rightarrow> jose_members ms zero_jose
      | Some JNull \<Rightarrow> Some zero_jose
      | _ \<Rightarrow> None)"

text \<open>
  \<open>strings.TrimSpace\<close> and \<open>strings.ToLower\<close> on the UTF-8 sequences of a text. Of the
  letters outside ASCII only those whose lower case is an ASCII letter are changed here,
  which is enough to compare with an ASCII word.
\<close>

definition space_runes :: "string list" where
  "space_runes =
     [[CHR 0x09], [CHR 0x0A], [CHR 0x0B], [CHR 0x0C], [CHR 0x0D], [CHR 0x20],
      [CHR 0xC2, CHR 0x85], [CHR 0xC2, CHR 0xA0], [CHR 0xE1, CHR 0x9A, CHR 0x80],
      [CHR 0xE2, CHR 0x80, CHR 0xA8], [CHR 0xE2, CHR 0x80, CHR 0xA9], [CHR 0xE2, CHR 0x80, CHR 0xAF],
      [CHR 0xE2, CHR 0x81, CHR 0x9F], [CHR 0xE3, CHR 0x80, CHR 0x80]] @
     map (\<lambda>n. [CHR 0xE2, CHR 0x80, char_of (128 + n :: nat)]) [0 ..< 11]"

definition space_piece :: "string option \<Rightarrow> bool" where
  "space_piece p = (case p of None \<Rightarrow> False | Some r \<Rightarrow> r \<in> set space_runes)"

definition TrimSpace :: "string \<Rightarrow> string option list" where
  "TrimSpace s = rev (dropWhile space_piece (rev (dropWhile space_piece (utf8_pieces s))))"

definition lower_piece :: "string option \<Rightarrow> string" where
  "lower_piece p =
     (case p of
        None \<Rightarrow> rune_error
      | Some r \<Rightarrow>
          if r = [CHR 0xC4, CHR 0xB0] then ''i''
          else if r = [CHR 0xE2, CHR 0x84, CHR 0xAA] then ''k''
          else map lower_char r)"

definition TrimPrefix :: "string \<Rightarrow> string \<Rightarrow> string" where
  "TrimPrefix s p = (if take (length p) s = p then drop (length p) s else s)"

definition typIsJWT :: "string \<Rightarrow> bool" where
  "typIsJWT typ \<longleftrightarrow> TrimPrefix (concat (map lower_piece (TrimSpace typ))) ''application/'' = ''jwt''"

definition validate :: "'w verifier \<Rightarrow> claims \<Rightarrow> 'w \<Rightarrow> jwt_error option \<times> 'w" where
  "validate v c w =
     (let cfg = vf_set v; (now, w) = set_now cfg w in
      (if \<not> IsZero (ExpiresAt c) \<and> After now (Time_Add (ExpiresAt c) (set_leeway cfg))
       then Some (ExpiredOn (ExpiresAt c))
       else if \<not> IsZero (NotBefore c) \<and> Before now (Time_Add (NotBefore c) (wrap64 (- set_leeway cfg)))
       then Some (NotValidBefore (NotBefore c))
       else if \<not> IsZero (IssuedAt c) \<and> Before now (Time_Add (IssuedAt c) (wrap64 (- set_leeway cfg)))
       then Some (IssuedOn (IssuedAt c))
       else if set_expectIssuer cfg \<noteq> '''' \<and> Issuer c \<noteq> set_expectIssuer cfg
       then Some (IssuerMismatch (Issuer c) (set_expectIssuer cfg))
       else if set_expectAudience cfg \<noteq> '''' \<and> \<not> Contains (Audience c) (set_expectAudience cfg)
       then Some (AudienceMismatch (Audience c) (set_expectAudience cfg))
       else None,
       w))"

text \<open>The header checks, up to the signature.\<close>

definition check_header :: "'w verifier \<Rightarrow> string \<Rightarrow> jwt_error option" where
  "check_header v part =
     (case b64decode part of
        None \<Rightarrow> Some ErrTokenMalformed
      | Some header \<Rightarrow>
     (case json_Unmarshal_jose header of
        None \<Rightarrow> Some ErrTokenMalformed
      | Some jose \<Rightarrow>
          if jose_Alg jose \<noteq> alg_name (vf_alg v)
          then Some (AlgMismatch (jose_Alg jose) (alg_name (vf_alg v)))
          else if jose_Typ jose \<noteq> '''' \<and> \<not> typIsJWT (jose_Typ jose)
          then Some (UnexpectedTyp (jose_Typ jose))
          else if length (jose_Crit jose) > 0 then Some ErrUnsupportedCrit
          else None))"

definition Verify :: "member_order \<Rightarrow> 'w verifier \<Rightarrow> string \<Rightarrow> 'w \<Rightarrow> (jwt_error + claims) \<times> 'w" where
  "Verify ord v token w =
     (case Split (CHR ''.'') token of
        [header, body, sig] \<Rightarrow>
          if header = '''' \<or> body = '''' \<or> sig = '''' then (Inl ErrTokenMalformed, w)
          else
            (case check_header v header of
               Some err \<Rightarrow> (Inl err, w)
             | None \<Rightarrow>
            (case b64decode sig of
               None \<Rightarrow> (Inl ErrTokenMalformed, w)
             | Some signature \<Rightarrow>
            (case alg_verify (vf_alg v) (header @ ''.'' @ body) signature of
               Some err \<Rightarrow> (Inl err, w)
             | None \<Rightarrow>
            (case b64decode body of
               None \<Rightarrow> (Inl ErrTokenMalformed, w)
             | Some payload \<Rightarrow>
            (case json_Unmarshal_claims ord payload of
               Inl err \<Rightarrow> (Inl (MalformedPayload err), w)
             | Inr claims \<Rightarrow>
            (case validate v claims w of
               (Some err, w) \<Rightarrow> (Inl err, w)
             | (None, w) \<Rightarrow> (Inr claims, w)))))))
      | _ \<Rightarrow> (Inl ErrTokenMalformed, w))"

section \<open>The symmetric view\<close>

record 'w jwt =
  jw_sign :: "'w signer"
  jw_verify :: "'w verifier"

definition jwt_New :: "'w jwt_clock \<Rightarrow> string \<Rightarrow> 'w jwt_option option list \<Rightarrow> jwt_error + 'w jwt" where
  "jwt_New sys key opts =
     (case NewSignerHS256 sys key opts of
        Inl err \<Rightarrow> Inl err
      | Inr s \<Rightarrow>
     (case NewVerifierHS256 sys key opts of
        Inl err \<Rightarrow> Inl err
      | Inr v \<Rightarrow> Inr \<lparr>jw_sign = s, jw_verify = v\<rparr>))"

text \<open>The private key is \<open>None\<close> for a nil slice.\<close>

definition NewEdDSA ::
  "ed25519 \<Rightarrow> 'w jwt_clock \<Rightarrow> string option \<Rightarrow> string \<Rightarrow> 'w jwt_option option list \<Rightarrow> jwt_error + 'w jwt" where
  "NewEdDSA ed sys priv pub opts =
     (case priv of
        None \<Rightarrow> Inl NoPrivateKey
      | Some priv \<Rightarrow>
     (case NewSignerEdDSA ed sys priv opts of
        Inl err \<Rightarrow> Inl err
      | Inr s \<Rightarrow>
     (case NewVerifierEdDSA ed sys pub opts of
        Inl err \<Rightarrow> Inl err
      | Inr v \<Rightarrow> Inr \<lparr>jw_sign = s, jw_verify = v\<rparr>)))"

definition JWT_Algorithm :: "'w jwt \<Rightarrow> string" where
  "JWT_Algorithm j = Signer_Algorithm (jw_sign j)"

definition jwt_Encode :: "'w jwt \<Rightarrow> claims \<Rightarrow> 'w \<Rightarrow> (jwt_error + string) \<times> 'w" where
  "jwt_Encode j claims w = Sign (jw_sign j) claims w"

definition jwt_Decode :: "member_order \<Rightarrow> 'w jwt \<Rightarrow> string \<Rightarrow> 'w \<Rightarrow> (jwt_error + claims) \<times> 'w" where
  "jwt_Decode ord j token w = Verify ord (jw_verify j) token w"

end
