(* ===== verification/Jwt_Lemmas.thy ===== *)
theory Jwt_Lemmas
  imports Jwt_Token
begin

text \<open>
  The lemmas behind the properties of tokens: how a token splits, what the header of a
  signer says to a verifier, what signing followed by verification comes to, and the time
  window of \<open>validate\<close> in nanoseconds.
\<close>

section \<open>Splitting\<close>

lemma Split_nonempty: "Split sep s \<noteq> []"
  by (induction s) (auto split: list.split)

lemma Split_whole: "sep \<notin> set s \<Longrightarrow> Split sep s = [s]"
  by (induction s) auto

lemma Split_first: "sep \<notin> set a \<Longrightarrow> Split sep (a @ sep # b) = a # Split sep b"
  by (induction a) auto

fun join_with :: "char \<Rightarrow> string list \<Rightarrow> string" where
  "join_with sep [] = []"
| "join_with sep [p] = p"
| "join_with sep (p # q # ps) = p @ sep # join_with sep (q # ps)"

lemma join_with_Cons: "ps \<noteq> [] \<Longrightarrow> join_with sep (p # ps) = p @ sep # join_with sep ps"
  by (cases ps) auto

lemma join_Split: "join_with sep (Split sep s) = s"
proof (induction s)
  case (Cons c s)
  obtain p ps where "Split sep s = p # ps"
    using Split_nonempty by (metis list.exhaust)
  with Cons show ?case
    by (cases ps) (auto simp: join_with_Cons)
qed simp

lemma Split_no_sep: "p \<in> set (Split sep s) \<Longrightarrow> sep \<notin> set p"
proof (induction s arbitrary: p)
  case (Cons c s)
  obtain q qs where "Split sep s = q # qs"
    using Split_nonempty by (metis list.exhaust)
  with Cons show ?case
    by (auto split: if_splits)
qed simp

text \<open>A token in its three parts.\<close>

definition compact :: "string \<Rightarrow> string \<Rightarrow> string \<Rightarrow> string" where
  "compact h p s = h @ ''.'' @ p @ ''.'' @ s"

definition token_part :: "string \<Rightarrow> bool" where
  "token_part p \<longleftrightarrow> p \<noteq> '''' \<and> CHR ''.'' \<notin> set p"

lemma Split_compact:
  "token_part h \<Longrightarrow> token_part p \<Longrightarrow> token_part s \<Longrightarrow> Split (CHR ''.'') (compact h p s) = [h, p, s]"
  by (simp add: compact_def token_part_def Split_first Split_whole)

lemma token_part_encode: "b \<noteq> [] \<Longrightarrow> token_part (b64encode b)"
  by (simp add: token_part_def)

lemma Split_three:
  assumes "Split (CHR ''.'') token = [h, p, s]"
  shows "token = compact h p s" and "CHR ''.'' \<notin> set h" and "CHR ''.'' \<notin> set p" and "CHR ''.'' \<notin> set s"
  using join_Split [of "CHR ''.''" token] Split_no_sep [of _ "CHR ''.''" token] assms
  by (auto simp: compact_def)

text \<open>Verification of a token in three parts.\<close>

lemma Verify_compact:
  assumes "token_part h" and "token_part p" and "token_part s"
  shows "Verify ord v (compact h p s) w =
    (case check_header v h of
       Some err \<Rightarrow> (Inl err, w)
     | None \<Rightarrow>
    (case b64decode s of
       None \<Rightarrow> (Inl ErrTokenMalformed, w)
     | Some signature \<Rightarrow>
    (case alg_verify (vf_alg v) (h @ ''.'' @ p) signature of
       Some err \<Rightarrow> (Inl err, w)
     | None \<Rightarrow>
    (case b64decode p of
       None \<Rightarrow> (Inl ErrTokenMalformed, w)
     | Some payload \<Rightarrow>
    (case json_Unmarshal_claims ord payload of
       Inl err \<Rightarrow> (Inl (MalformedPayload err), w)
     | Inr claims \<Rightarrow>
    (case validate v claims w of
       (Some err, w) \<Rightarrow> (Inl err, w)
     | (None, w) \<Rightarrow> (Inr claims, w)))))))"
  using assms by (simp add: Verify_def Split_compact token_part_def)

lemma Verify_malformed:
  assumes "\<nexists>h p s. token = compact h p s \<and> token_part h \<and> token_part p \<and> token_part s"
  shows "Verify ord v token w = (Inl ErrTokenMalformed, w)"
proof -
  have "h = '''' \<or> p = '''' \<or> s = ''''" if "Split (CHR ''.'') token = [h, p, s]" for h p s
    using assms Split_three [OF that] by (auto simp: token_part_def)
  then show ?thesis
    by (simp add: Verify_def split: list.split) blast
qed

text \<open>An accepted token, taken apart.\<close>

lemma Verify_accepts:
  assumes "fst (Verify ord v token w) = Inr c"
  obtains h p s sig payload where "token = compact h p s"
    and "token_part h" and "token_part p" and "token_part s" and "check_header v h = None"
    and "b64decode s = Some sig" and "alg_verify (vf_alg v) (h @ ''.'' @ p) sig = None"
    and "b64decode p = Some payload" and "json_Unmarshal_claims ord payload = Inr c"
    and "fst (validate v c w) = None"
proof -
  have "\<exists>h p s. token = compact h p s \<and> token_part h \<and> token_part p \<and> token_part s"
  proof (rule ccontr)
    assume "\<not> ?thesis"
    then have "Verify ord v token w = (Inl ErrTokenMalformed, w)"
      by (rule Verify_malformed)
    with assms show False
      by simp
  qed
  then obtain h p s where t: "token = compact h p s" "token_part h" "token_part p" "token_part s"
    by blast
  show ?thesis
    using assms that [OF t] t(2-4)
    by (auto simp: t(1) Verify_compact split: option.splits sum.splits prod.splits)
qed

section \<open>The header\<close>

lemma typIsJWT_JWT: "typIsJWT ''JWT''"
  by code_simp

lemma jose_of_header:
  assumes "parse_json header = Some (jose_header name)"
  shows "json_Unmarshal_jose header = Some \<lparr>jose_Alg = name, jose_Typ = ''JWT'', jose_Crit = []\<rparr>"
proof -
  have "fold_name ''alg'' = ''alg''" "fold_name ''typ'' = ''typ''"
    by (simp_all add: fold_name_def lower_char_def)
  with assms show ?thesis
    by (simp add: json_Unmarshal_jose_def jose_header_def jose_member_def zero_jose_def
        into_string_def)
qed

lemma check_header_of:
  assumes "parse_json header = Some (jose_header name)"
  shows "check_header v (b64encode header) =
    (if name = alg_name (vf_alg v) then None else Some (AlgMismatch name (alg_name (vf_alg v))))"
  using typIsJWT_JWT by (simp add: check_header_def jose_of_header [OF assms])

section \<open>Signing, then verifying\<close>

text \<open>What a verifier answers once a payload has been authenticated and decoded.\<close>

definition judged :: "'w verifier \<Rightarrow> claims \<Rightarrow> 'w \<Rightarrow> (jwt_error + claims) \<times> 'w" where
  "judged v c w = (case validate v c w of (Some err, w) \<Rightarrow> (Inl err, w) | (None, w) \<Rightarrow> (Inr c, w))"

context signature_scheme
begin

lemma Sign_token:
  assumes "sg_alg s = sa" and "Subject c \<noteq> ''''" and "set_now (sg_set s) w = (now, w1)"
    and "fill_defaults (sg_set s) now c = Inr d" and "json_Marshal_claims d = Inr payload"
    and "payload \<noteq> []"
  obtains sig where "sig \<noteq> []"
    and "alg_sign sa (b64encode (alg_header sa) @ ''.'' @ b64encode payload) = Inr sig"
    and "alg_verify va (b64encode (alg_header sa) @ ''.'' @ b64encode payload) sig = None"
    and "Sign s c w = (Inr (compact (b64encode (alg_header sa)) (b64encode payload) (b64encode sig)), w1)"
proof -
  obtain sig where "sig \<noteq> []"
      and sig: "alg_sign sa (b64encode (alg_header sa) @ ''.'' @ b64encode payload) = Inr sig"
        "alg_verify va (b64encode (alg_header sa) @ ''.'' @ b64encode payload) sig = None"
    using signE by blast
  then show ?thesis
    using assms by (intro that [of sig]) (simp_all add: Sign_def compact_def)
qed

lemma sign_then_verify:
  assumes "sg_alg s = sa" and "vf_alg v = va"
    and "Subject c \<noteq> ''''" and "set_now (sg_set s) w = (now, w1)"
    and "fill_defaults (sg_set s) now c = Inr d" and "plain_claims d" and "shallow_extra d"
  shows "\<exists>token. Sign s c w = (Inr token, w1) \<and>
    (\<forall>ord w'. visits ord \<longrightarrow> Verify ord v token w' = judged v (settled d) w')"
proof -
  obtain payload where payload: "json_Marshal_claims d = Inr payload"
    using claims_encode assms(6,7) by blast
  then have decodes: "json_Unmarshal_claims ord payload = Inr (settled d)" if "visits ord" for ord
    using claims_text [OF assms(6) that] by blast
  have "payload \<noteq> []"
    using decodes [of "\<lambda>m. m"]
    by (auto simp: json_Unmarshal_claims_def parse_json_def parse_value_def parse_loop.simps
        next_token_def skip_space_def)
  then obtain sig where sig: "sig \<noteq> []"
      "alg_verify va (b64encode (alg_header sa) @ ''.'' @ b64encode payload) sig = None"
      "Sign s c w = (Inr (compact (b64encode (alg_header sa)) (b64encode payload) (b64encode sig)), w1)"
    using Sign_token [OF assms(1,3-5) payload] by blast
  have "Verify ord v (compact (b64encode (alg_header sa)) (b64encode payload) (b64encode sig)) w' =
      judged v (settled d) w'" if "visits ord" for ord w'
    using sig(1,2) \<open>payload \<noteq> []\<close> decodes [OF that] header_nonempty same_name assms(2)
    by (simp add: Verify_compact token_part_encode check_header_of [OF header_parses] judged_def)
  with sig(3) show ?thesis
    by blast
qed

text \<open>A verifier pinned to another algorithm turns the token away.\<close>

lemma other_algorithm:
  assumes "sg_alg s = sa" and "alg_name (vf_alg v) \<noteq> alg_name sa" and "fst (Sign s c w) = Inr token"
  shows "Verify ord v token w' = (Inl (AlgMismatch (alg_name sa) (alg_name (vf_alg v))), w')"
proof -
  obtain payload sig where token: "token = compact (b64encode (alg_header sa)) (b64encode payload) (b64encode sig)"
      and sig: "alg_sign sa (b64encode (alg_header sa) @ ''.'' @ b64encode payload) = Inr sig"
      and payload: "\<exists>d. json_Marshal_claims d = Inr payload"
    using assms(1,3) by (auto simp: Sign_def compact_def Let_def split: prod.splits sum.splits if_splits)
  have "sig \<noteq> []"
    using sig signs [of "b64encode (alg_header sa) @ ''.'' @ b64encode payload"] by auto
  moreover obtain j where "payload = print_json (JObject j)"
    using payload by (auto simp: json_Marshal_claims_def MarshalJSON_def Let_def
        split: sum.splits if_splits)
  ultimately show ?thesis
    using assms(2) header_nonempty
    by (simp add: token Verify_compact token_part_encode check_header_of [OF header_parses])
qed

end

section \<open>The defaults of Sign\<close>

definition defaulted :: "'w settings \<Rightarrow> go_time \<Rightarrow> claims \<Rightarrow> claims" where
  "defaulted cfg now c =
     (let iat = (if IsZero (IssuedAt c) then now else IssuedAt c) in
      c\<lparr>IssuedAt := iat,
        ExpiresAt := (if IsZero (ExpiresAt c) then Time_Add iat (set_ttl cfg) else ExpiresAt c),
        Issuer := (if Issuer c = '''' then set_issuer cfg else Issuer c),
        Audience := (if Audience c = [] then set_audience cfg else Audience c)\<rparr>)"

lemma fill_defaults_eq:
  "fill_defaults cfg now c =
     (if IsZero (ExpiresAt c) \<and> set_ttl cfg \<le> 0 then Inl ErrMissingExpiration
      else Inr (defaulted cfg now c))"
  by (simp add: fill_defaults_def defaulted_def Let_def)

section \<open>The window of validity\<close>

definition not_expired :: "int \<Rightarrow> go_time \<Rightarrow> claims \<Rightarrow> bool" where
  "not_expired leeway now c \<longleftrightarrow> IsZero (ExpiresAt c) \<or> nanos now \<le> nanos (ExpiresAt c) + leeway"

definition started :: "int \<Rightarrow> go_time \<Rightarrow> claims \<Rightarrow> bool" where
  "started leeway now c \<longleftrightarrow> IsZero (NotBefore c) \<or> nanos (NotBefore c) - leeway \<le> nanos now"

definition issued :: "int \<Rightarrow> go_time \<Rightarrow> claims \<Rightarrow> bool" where
  "issued leeway now c \<longleftrightarrow> IsZero (IssuedAt c) \<or> nanos (IssuedAt c) - leeway \<le> nanos now"

definition pinned :: "'w settings \<Rightarrow> claims \<Rightarrow> bool" where
  "pinned cfg c \<longleftrightarrow>
     (set_expectIssuer cfg = '''' \<or> Issuer c = set_expectIssuer cfg) \<and>
     (set_expectAudience cfg = '''' \<or> set_expectAudience cfg \<in> set (Audience c))"

lemma Contains_member: "Contains a s \<longleftrightarrow> s \<in> set a"
  by (induction a) auto

definition sane_claims :: "claims \<Rightarrow> bool" where
  "sane_claims c \<longleftrightarrow> time_sane (IssuedAt c) \<and> time_sane (ExpiresAt c) \<and> time_sane (NotBefore c)"

definition sane_leeway :: "int \<Rightarrow> bool" where
  "sane_leeway d \<longleftrightarrow> - (2 ^ 63) < d \<and> d < 2 ^ 63"

lemma After_nanos:
  assumes "time_ok now" and "time_sane t" and "int64 d"
  shows "After now (Time_Add t d) \<longleftrightarrow> nanos t + d < nanos now"
  using less_nanos Time_Add_exact [OF assms(2,3)] assms(1) by (simp add: After_def)

lemma Before_nanos:
  assumes "time_ok now" and "time_sane t" and "sane_leeway d"
  shows "Before now (Time_Add t (wrap64 (- d))) \<longleftrightarrow> nanos now < nanos t - d"
proof -
  have d: "int64 (- d)"
    using assms(3) by (simp add: sane_leeway_def int64_def)
  show ?thesis
    using less_nanos Time_Add_exact [OF assms(2) d] assms(1) by (simp add: Before_def wrap64_id [OF d])
qed

lemma validate_window:
  assumes "set_now (vf_set v) w = (now, w')" and "time_ok now" and "sane_claims c"
    and "sane_leeway (set_leeway (vf_set v))"
  shows "validate v c w =
    ((if \<not> not_expired (set_leeway (vf_set v)) now c then Some (ExpiredOn (ExpiresAt c))
      else if \<not> started (set_leeway (vf_set v)) now c then Some (NotValidBefore (NotBefore c))
      else if \<not> issued (set_leeway (vf_set v)) now c then Some (IssuedOn (IssuedAt c))
      else if set_expectIssuer (vf_set v) \<noteq> '''' \<and> Issuer c \<noteq> set_expectIssuer (vf_set v)
      then Some (IssuerMismatch (Issuer c) (set_expectIssuer (vf_set v)))
      else if set_expectAudience (vf_set v) \<noteq> '''' \<and> set_expectAudience (vf_set v) \<notin> set (Audience c)
      then Some (AudienceMismatch (Audience c) (set_expectAudience (vf_set v)))
      else None), w')"
proof -
  have "int64 (set_leeway (vf_set v))"
    using assms(4) by (simp add: sane_leeway_def int64_def)
  then show ?thesis
    using assms
    by (simp add: validate_def sane_claims_def After_nanos Before_nanos Contains_member
        not_expired_def started_def issued_def not_less not_le)
qed

end
