(* ===== verification/Jwt_Properties.thy ===== *)
theory Jwt_Properties
  imports Jwt_Lemmas
begin

text \<open>
  The properties of tokens, stated on the type \<open>JWT\<close> as its two constructors make it:
  with one secret for HS256, or with the two halves of one key pair for EdDSA.
\<close>

section \<open>The constructors\<close>

definition jwt_made :: "'w jwt_clock \<Rightarrow> 'w jwt_option option list \<Rightarrow> 'w jwt \<Rightarrow> bool" where
  "jwt_made sys opts j \<longleftrightarrow>
     (\<exists>key. jwt_New sys key opts = Inr j) \<or>
     (\<exists>ed seed. ed25519_ok ed \<and> length seed = 32 \<and>
        NewEdDSA ed sys (Some (seed @ ed_Public ed seed)) (ed_Public ed seed) opts = Inr j)"

lemma jwt_New_eq:
  "jwt_New sys key opts =
     (if length key < 32 then Inl (HMACKeyLength (length key))
      else Inr \<lparr>jw_sign = \<lparr>sg_alg = hmac_algorithm \<lparr>algName = AlgHS256, hmac_secret = key\<rparr>,
                  sg_set = newSettings sys opts\<rparr>,
                jw_verify = \<lparr>vf_alg = hmac_algorithm \<lparr>algName = AlgHS256, hmac_secret = key\<rparr>,
                  vf_set = newSettings sys opts\<rparr>\<rparr>)"
  by (simp add: jwt_New_def NewSignerHS256_def NewVerifierHS256_def newHMACAlg_def minHMACKeySize_def)

lemma NewEdDSA_eq:
  assumes "ed25519_ok ed" and "length seed = 32"
  shows "NewEdDSA ed sys (Some (seed @ ed_Public ed seed)) (ed_Public ed seed) opts =
    Inr \<lparr>jw_sign = \<lparr>sg_alg = eddsa_algorithm ed \<lparr>ed_priv = seed @ ed_Public ed seed, ed_pub = ed_Public ed seed\<rparr>,
             sg_set = newSettings sys opts\<rparr>,
           jw_verify = \<lparr>vf_alg = eddsa_algorithm ed \<lparr>ed_priv = [], ed_pub = ed_Public ed seed\<rparr>,
             vf_set = newSettings sys opts\<rparr>\<rparr>"
  using assms
  by (simp add: NewEdDSA_def NewSignerEdDSA_def NewVerifierEdDSA_def newEdDSASignAlg_def
      newEdDSAVerifyAlg_def PrivateKeySize_def PublicKeySize_def ed25519_ok_def)

lemma jwt_made_scheme:
  assumes "jwt_made sys opts j"
  shows "signature_scheme (sg_alg (jw_sign j)) (vf_alg (jw_verify j))"
    and "sg_set (jw_sign j) = newSettings sys opts" and "vf_set (jw_verify j) = newSettings sys opts"
  using assms hs256.signature_scheme_axioms
  by (auto simp: jwt_made_def jwt_New_eq NewEdDSA_eq eddsa_scheme split: if_splits)

section \<open>Times\<close>

lemma Time_Add_ok:
  assumes "time_ok t"
  shows "time_ok (Time_Add t d)"
proof -
  have s: "int64 (addSec s k)" for s k
    by (simp add: addSec_def wrap64_int64 Let_def) (simp add: int64_def)
  have "- 1000000000 < d smod 1000000000" "d smod 1000000000 < 1000000000"
    using smod_int_range [of 1000000000 d] by auto
  then show ?thesis
    using assms s by (auto simp: Time_Add_def time_ok_def Let_def)
qed

text \<open>The settings of a signer do no harm to the text of the claims.\<close>

definition plain_settings :: "'w settings \<Rightarrow> bool" where
  "plain_settings cfg \<longleftrightarrow> valid_utf8 (set_issuer cfg) \<and> list_all valid_utf8 (set_audience cfg)"

lemma plain_defaulted:
  assumes "plain_claims c" and "plain_settings cfg" and "time_ok now"
  shows "plain_claims (defaulted cfg now c)"
  using assms by (simp add: plain_claims_def defaulted_def plain_settings_def Let_def Time_Add_ok)

lemma shallow_defaulted [simp]: "shallow_extra (defaulted cfg now c) = shallow_extra c"
  by (simp add: shallow_extra_def defaulted_def Let_def)

text \<open>Encoding, then decoding, in terms of what the verifier says of the settled claims.\<close>

lemma encode_decode:
  assumes "jwt_made sys opts j" and "cfg = newSettings sys opts"
    and "Subject c \<noteq> ''''" and "plain_claims c" and "shallow_extra c" and "plain_settings cfg"
    and "set_now cfg w = (now, w1)" and "time_ok now"
    and "\<not> IsZero (ExpiresAt c) \<or> 0 < set_ttl cfg"
  shows "\<exists>token. jwt_Encode j c w = (Inr token, w1) \<and>
    (\<forall>ord w'. visits ord \<longrightarrow>
       jwt_Decode ord j token w' = judged (jw_verify j) (settled (defaulted cfg now c)) w')"
proof -
  note made = jwt_made_scheme [OF assms(1)]
  have "fill_defaults cfg now c = Inr (defaulted cfg now c)"
    using assms(9) by (auto simp: fill_defaults_eq)
  then show ?thesis
    using signature_scheme.sign_then_verify [OF made(1), of "jw_sign j" "jw_verify j" c w now w1
        "defaulted cfg now c"] assms plain_defaulted [OF assms(4,6,8)]
    by (simp add: jwt_Encode_def jwt_Decode_def made)
qed

section \<open>The claims of a fresh token\<close>

text \<open>
  What the settings of a JWT must be like for its own tokens to be accepted, and the claims a
  token for \<open>u\<close> issued at \<open>t0\<close> decodes to.
\<close>

definition accepts_own :: "'w settings \<Rightarrow> bool" where
  "accepts_own cfg \<longleftrightarrow>
     plain_settings cfg \<and> 0 < set_ttl cfg \<and> int64 (set_ttl cfg) \<and> sane_leeway (set_leeway cfg) \<and>
     set_expectIssuer cfg \<in> {'''', set_issuer cfg} \<and>
     set_expectAudience cfg \<in> insert '''' (set (set_audience cfg))"

definition fresh_claims :: "'w settings \<Rightarrow> go_time \<Rightarrow> string \<Rightarrow> claims" where
  "fresh_claims cfg t0 u = settled (defaulted cfg t0 (zero_claims\<lparr>Subject := u\<rparr>))"

text \<open>A time after 1970 and far from the end of the range.\<close>

definition modern :: "go_time \<Rightarrow> bool" where
  "modern t \<longleftrightarrow> time_ok t \<and> unixToInternal < wall_sec t \<and> wall_sec t < 2 ^ 61"

text \<open>The last moment at which the token is accepted, without the leeway.\<close>

definition last_nano :: "'w settings \<Rightarrow> go_time \<Rightarrow> int" where
  "last_nano cfg t0 = (nanos t0 + set_ttl cfg) div 1000000000 * 1000000000"

lemma fresh_encode_decode:
  assumes "jwt_made sys opts j" and "cfg = newSettings sys opts" and "accepts_own cfg"
    and "u \<noteq> ''''" "valid_utf8 u" and "set_now cfg w = (t0, w1)" "modern t0"
  shows "\<exists>token. jwt_Encode j (zero_claims\<lparr>Subject := u\<rparr>) w = (Inr token, w1) \<and>
    (\<forall>ord w'. visits ord \<longrightarrow> jwt_Decode ord j token w' = judged (jw_verify j) (fresh_claims cfg t0 u) w')"
proof -
  have "plain_claims (zero_claims\<lparr>Subject := u\<rparr>)" "shallow_extra (zero_claims\<lparr>Subject := u\<rparr>)"
      "Subject (zero_claims\<lparr>Subject := u\<rparr>) \<noteq> ''''" "plain_settings cfg" "time_ok t0"
      "\<not> IsZero (ExpiresAt (zero_claims\<lparr>Subject := u\<rparr>)) \<or> 0 < set_ttl cfg"
    using assms(3-5,7) by (simp_all add: plain_claims_def zero_claims_def plain_extra_def zero_time_def
        time_ok_def int64_def shallow_extra_def accepts_own_def modern_def)
  from encode_decode [OF assms(1,2) this(3,1,2,4) assms(6) this(5,6)] show ?thesis
    by (simp add: fresh_claims_def)
qed

lemma fresh_claims_fields:
  assumes "accepts_own cfg" and "modern t0"
  shows "nanos (ExpiresAt (fresh_claims cfg t0 u)) = last_nano cfg t0"
    and "wall_sec (ExpiresAt (fresh_claims cfg t0 u)) > 0"
    and "IssuedAt (fresh_claims cfg t0 u) = GoTime (wall_sec t0) 0"
    and "NotBefore (fresh_claims cfg t0 u) = zero_time" and "Subject (fresh_claims cfg t0 u) = u"
    and "pinned cfg (fresh_claims cfg t0 u)" and "sane_claims (fresh_claims cfg t0 u)"
proof -
  define e where "e = Time_Add t0 (set_ttl cfg)"
  have ttl: "0 < set_ttl cfg" "int64 (set_ttl cfg)"
    and own: "set_expectIssuer cfg \<in> {'''', set_issuer cfg}"
      "set_expectAudience cfg \<in> insert '''' (set (set_audience cfg))"
    using assms(1) by (simp_all add: accepts_own_def)
  have t0: "time_sane t0" "wall_nsec t0 < 1000000000" "0 \<le> wall_nsec t0"
      "unixToInternal < wall_sec t0" "wall_sec t0 < 2 ^ 61"
    using assms(2) by (auto simp: modern_def time_sane_def unixToInternal_def time_ok_def)
  note e = Time_Add_exact [OF t0(1) ttl(2), folded e_def]
  have sec: "wall_sec e = nanos e div 1000000000"
    using e(2) by (simp add: nanos_def time_ok_def)
  have "wall_sec t0 \<le> wall_sec e" "wall_sec e < 2 ^ 62"
    using e t0 ttl by (auto simp: nanos_def time_ok_def int64_def)
  then have late: "unixToInternal < wall_sec e" "wall_sec e < 2 ^ 62"
    using t0(4) by simp_all
  have unix: "Time_Unix x \<noteq> 0" if "unixToInternal < wall_sec x" "wall_sec x < 2 ^ 62" for x
    using that by (simp add: Time_Unix_def unixToInternal_def wrap64_id int64_def)
  have times: "ExpiresAt (fresh_claims cfg t0 u) = GoTime (wall_sec e) 0"
      "IssuedAt (fresh_claims cfg t0 u) = GoTime (wall_sec t0) 0"
      "NotBefore (fresh_claims cfg t0 u) = zero_time" "Subject (fresh_claims cfg t0 u) = u"
      "pinned cfg (fresh_claims cfg t0 u)"
    using t0(4,5) unix [of t0] unix [of e] late own
    by (auto simp: fresh_claims_def settled_def defaulted_def zero_claims_def IsZero_def zero_time_def
        whole_seconds_def e_def Time_Unix_def wrap64_def unixToInternal_def pinned_def)
  then show "IssuedAt (fresh_claims cfg t0 u) = GoTime (wall_sec t0) 0"
    "NotBefore (fresh_claims cfg t0 u) = zero_time" "Subject (fresh_claims cfg t0 u) = u"
    "pinned cfg (fresh_claims cfg t0 u)" "wall_sec (ExpiresAt (fresh_claims cfg t0 u)) > 0"
    using late by (simp_all add: unixToInternal_def)
  show "nanos (ExpiresAt (fresh_claims cfg t0 u)) = last_nano cfg t0"
    using sec e(1) by (simp add: times last_nano_def nanos_def [of "GoTime _ _"])
  show "sane_claims (fresh_claims cfg t0 u)"
    using times late t0(4,5) by (simp add: sane_claims_def time_sane_def time_ok_def int64_def
        zero_time_def unixToInternal_def)
qed

lemma fresh_validate:
  assumes "jwt_made sys opts j" and "cfg = newSettings sys opts" and "accepts_own cfg" and "modern t0"
    and "set_now cfg w' = (t, w'')" "time_ok t" "nanos t0 - set_leeway cfg \<le> nanos t"
  shows "validate (jw_verify j) (fresh_claims cfg t0 u) w' =
    (if nanos t \<le> last_nano cfg t0 + set_leeway cfg then None
     else Some (ExpiredOn (ExpiresAt (fresh_claims cfg t0 u))), w'')"
proof -
  let ?d = "fresh_claims cfg t0 u"
  note d = fresh_claims_fields [OF assms(3,4), of u]
  have "nanos (IssuedAt ?d) \<le> nanos t0"
    using assms(4) by (simp add: d nanos_def modern_def time_ok_def)
  then have "started (set_leeway cfg) t ?d" "issued (set_leeway cfg) t ?d"
    using assms(7) by (auto simp: started_def issued_def d(4) IsZero_def zero_time_def)
  moreover have "not_expired (set_leeway cfg) t ?d \<longleftrightarrow> nanos t \<le> last_nano cfg t0 + set_leeway cfg"
    using d(1,2) by (simp add: not_expired_def IsZero_def)
  moreover have "sane_leeway (set_leeway cfg)"
    using assms(3) by (simp add: accepts_own_def)
  ultimately show ?thesis
    using validate_window [of "jw_verify j" w' t w'' ?d] assms(5,6) d(6,7)
    by (auto simp: jwt_made_scheme(3) [OF assms(1)] pinned_def simp flip: assms(2))
qed

section \<open>A worked instance\<close>

text \<open>
  A clock that reads the world, which is a time, and lets a second pass; and an instance of
  \<open>JWT\<close> as the package comment makes it.
\<close>

definition tick :: "go_time jwt_clock" where
  "tick t = (t, Time_Add t 1000000000)"

definition demo_key :: string where
  "demo_key = replicate 32 (CHR ''k'')"

definition demo_options :: "go_time jwt_option option list" where
  "demo_options =
     [Some (WithTTL 900000000000), Some (WithIssuer ''login''), None,
      Some (WithExpectedIssuer ''login''), Some (WithLeeway 5000000000)]"

definition demo_settings :: "go_time settings" where
  "demo_settings =
     \<lparr>set_ttl = 900000000000, set_issuer = ''login'', set_audience = [], set_leeway = 5000000000,
      set_expectIssuer = ''login'', set_expectAudience = '''', set_now = tick\<rparr>"

definition demo_jwt :: "go_time jwt" where
  "demo_jwt =
     \<lparr>jw_sign = \<lparr>sg_alg = hmac_algorithm \<lparr>algName = AlgHS256, hmac_secret = demo_key\<rparr>,
        sg_set = demo_settings\<rparr>,
      jw_verify = \<lparr>vf_alg = hmac_algorithm \<lparr>algName = AlgHS256, hmac_secret = demo_key\<rparr>,
        vf_set = demo_settings\<rparr>\<rparr>"

definition demo_time :: go_time where
  "demo_time = GoTime 63835596800 250000000"

lemma demo_settings_eq: "newSettings tick demo_options = demo_settings"
  by (simp add: newSettings_def demo_options_def demo_settings_def WithTTL_def WithIssuer_def
      WithExpectedIssuer_def WithLeeway_def)

lemma demo_jwt_New: "jwt_New tick demo_key demo_options = Inr demo_jwt"
  by (simp add: jwt_New_eq demo_settings_eq demo_jwt_def demo_key_def)

lemma demo_jwt_made: "jwt_made tick demo_options demo_jwt"
  using demo_jwt_New by (auto simp: jwt_made_def)

lemma demo_simps:
  "plain_settings demo_settings" "set_now demo_settings t = (t, Time_Add t 1000000000)"
  "0 < set_ttl demo_settings" "set_ttl demo_settings = 900000000000"
  "set_leeway demo_settings = 5000000000" "sane_leeway (set_leeway demo_settings)"
  "int64 (set_ttl demo_settings)" "vf_set (jw_verify demo_jwt) = demo_settings"
  "set_issuer demo_settings = ''login''" "set_expectIssuer demo_settings = ''login''"
  "set_expectAudience demo_settings = ''''" "time_ok demo_time"
  by (simp_all add: demo_settings_def plain_settings_def tick_def sane_leeway_def int64_def
      demo_jwt_def demo_time_def time_ok_def)

lemma demo_own: "accepts_own demo_settings"
  using demo_simps by (simp add: accepts_own_def)

lemma demo_modern: "modern demo_time"
  by (simp add: modern_def demo_time_def time_ok_def int64_def unixToInternal_def)

section \<open>Properties\<close>

text \<open>C7: A token carries its claims. For a JWT made by either constructor with matching keys, claims with
a subject that JSON can hold, and an expiry that is set or that the TTL provides, encoding succeeds;
whoever decodes the token is told what \<open>validate\<close> says about those claims at that moment, with the
signer's defaults filled in and the times cut to seconds, and gets exactly them if it says nothing.\<close>

theorem jwt_round_trip:
  assumes "jwt_made sys opts j" and "cfg = newSettings sys opts"
    and "Subject c \<noteq> ''''" and "plain_claims c" and "shallow_extra c" and "plain_settings cfg"
    and "set_now cfg w = (now, w1)" and "time_ok now"
    and "\<not> IsZero (ExpiresAt c) \<or> 0 < set_ttl cfg"
  shows "\<exists>token. fst (jwt_Encode j c w) = Inr token \<and>
    (\<forall>ord w'. visits ord \<longrightarrow>
       fst (jwt_Decode ord j token w') =
         (case fst (validate (jw_verify j) (settled (defaulted cfg now c)) w') of
            Some err \<Rightarrow> Inl err
          | None \<Rightarrow> Inr (settled (defaulted cfg now c))))"
proof -
  have "fst (judged (jw_verify j) d w') =
      (case fst (validate (jw_verify j) d w') of Some err \<Rightarrow> Inl err | None \<Rightarrow> Inr d)" for d w'
    by (simp add: judged_def split: prod.split option.split)
  then show ?thesis
    using encode_decode [OF assms] by fastforce
qed

lemma jwt_round_trip_witness:
  "\<exists>token. fst (jwt_Encode demo_jwt sample_claims demo_time) = Inr token \<and>
    (\<forall>ord w'. visits ord \<longrightarrow>
       fst (jwt_Decode ord demo_jwt token w') =
         (case fst (validate (jw_verify demo_jwt)
                      (settled (defaulted demo_settings demo_time sample_claims)) w') of
            Some err \<Rightarrow> Inl err
          | None \<Rightarrow> Inr (settled (defaulted demo_settings demo_time sample_claims))))"
  using jwt_round_trip [OF demo_jwt_made demo_settings_eq [symmetric] _ sample_claims_plain demo_simps(1)
      demo_simps(2) demo_simps(12)] demo_simps(3)
  by (simp add: sample_claims_def)

text \<open>C28: \<open>validate\<close> is the window it is meant to be. For times and a leeway far from the ends of the 64-bit
range, and with all sums taken in unbounded nanoseconds, it passes claims exactly when the clock is
not after \<open>exp\<close> plus the leeway, not before \<open>nbf\<close> and \<open>iat\<close> less the leeway (a missing time never
counts against them), and the pinned issuer and audience are there.\<close>

theorem validate_exact:
  assumes "set_now (vf_set v) w = (now, w')" and "time_ok now" and "sane_claims c"
    and "sane_leeway (set_leeway (vf_set v))"
  shows "fst (validate v c w) = None \<longleftrightarrow>
    not_expired (set_leeway (vf_set v)) now c \<and> started (set_leeway (vf_set v)) now c \<and>
    issued (set_leeway (vf_set v)) now c \<and> pinned (vf_set v) c"
  using validate_window [OF assms] by (auto simp: pinned_def)

lemma sane_sample: "sane_claims (settled (defaulted demo_settings demo_time sample_claims))"
  by (simp add: sane_claims_def settled_def defaulted_def sample_claims_def whole_seconds_def
      Time_Unix_def unixToInternal_def wrap64_def time_sane_def time_ok_def int64_def zero_time_def
      IsZero_def)

lemma validate_exact_witness:
  "fst (validate (jw_verify demo_jwt) (settled (defaulted demo_settings demo_time sample_claims))
      (GoTime 63835597704 999999999)) = None \<and>
   fst (validate (jw_verify demo_jwt) (settled (defaulted demo_settings demo_time sample_claims))
      (GoTime 63835597705 1)) \<noteq> None"
proof -
  have ok: "time_ok (GoTime 63835597704 999999999)" "time_ok (GoTime 63835597705 1)"
    by (simp_all add: time_ok_def int64_def)
  let ?c = "settled (defaulted demo_settings demo_time sample_claims)"
  have exact: "fst (validate (jw_verify demo_jwt) ?c w) = None \<longleftrightarrow>
      not_expired 5000000000 w ?c \<and> started 5000000000 w ?c \<and> issued 5000000000 w ?c \<and>
      pinned demo_settings ?c" if "time_ok w" for w
    using validate_exact [of "jw_verify demo_jwt" w w "Time_Add w 1000000000" ?c, OF _ that sane_sample]
    by (simp add: demo_simps sane_leeway_def)
  show ?thesis
    using exact [OF ok(1)] exact [OF ok(2)]
    by (simp add: not_expired_def started_def issued_def pinned_def nanos_def settled_def
        defaulted_def sample_claims_def whole_seconds_def Time_Unix_def unixToInternal_def
        wrap64_def IsZero_def zero_time_def demo_simps)
qed

text \<open>C9: A fresh token works for its whole lifetime, and no longer. A JWT with a positive TTL issues a token
for any subject; from the moment of issue until the TTL has passed (counted to the whole second
before, plus the leeway) decoding it gives that subject, and after that it is answered with an error
that is \<open>ErrTokenExpired\<close>.\<close>

theorem fresh_token_lives_until_expiry:
  assumes "jwt_made sys opts j" and "cfg = newSettings sys opts" and "accepts_own cfg"
    and "u \<noteq> ''''" "valid_utf8 u" and "set_now cfg w = (t0, w1)" "modern t0"
  shows "\<exists>token. fst (jwt_Encode j (zero_claims\<lparr>Subject := u\<rparr>) w) = Inr token \<and>
    (\<forall>ord w' t w''. visits ord \<longrightarrow> set_now cfg w' = (t, w'') \<longrightarrow> time_ok t \<longrightarrow>
       nanos t0 - set_leeway cfg \<le> nanos t \<longrightarrow>
       (if nanos t \<le> (nanos t0 + set_ttl cfg) div 1000000000 * 1000000000 + set_leeway cfg
        then \<exists>c. fst (jwt_Decode ord j token w') = Inr c \<and> Subject c = u
        else \<exists>err. fst (jwt_Decode ord j token w') = Inl err \<and> jwt_Is err ErrTokenExpired))"
proof -
  obtain token where enc: "jwt_Encode j (zero_claims\<lparr>Subject := u\<rparr>) w = (Inr token, w1)"
    and dec: "\<forall>ord w'. visits ord \<longrightarrow> jwt_Decode ord j token w' = judged (jw_verify j) (fresh_claims cfg t0 u) w'"
    using fresh_encode_decode [OF assms] by blast
  have "fst (jwt_Decode ord j token w') =
      (if nanos t \<le> last_nano cfg t0 + set_leeway cfg then Inr (fresh_claims cfg t0 u)
       else Inl (ExpiredOn (ExpiresAt (fresh_claims cfg t0 u))))"
    if "visits ord" "set_now cfg w' = (t, w'')" "time_ok t" "nanos t0 - set_leeway cfg \<le> nanos t"
    for ord w' t w''
    using dec that(1) fresh_validate [OF assms(1-3,7) that(2-4)] by (simp add: judged_def)
  then show ?thesis
    using enc by (auto simp: last_nano_def jwt_Is_def fresh_claims_fields [OF assms(3,7)])
qed

lemma fresh_token_lives_until_expiry_witness:
  "\<exists>token. fst (jwt_Encode demo_jwt (zero_claims\<lparr>Subject := ''bob''\<rparr>) demo_time) = Inr token \<and>
    (\<exists>c. fst (jwt_Decode rev demo_jwt token (GoTime 63835597705 0)) = Inr c \<and> Subject c = ''bob'') \<and>
    (\<exists>err. fst (jwt_Decode rev demo_jwt token (GoTime 63835597705 1)) = Inl err \<and> jwt_Is err ErrTokenExpired)"
proof -
  obtain token where token: "fst (jwt_Encode demo_jwt (zero_claims\<lparr>Subject := ''bob''\<rparr>) demo_time) = Inr token"
    and life: "\<forall>ord w' t w''. visits ord \<longrightarrow> set_now demo_settings w' = (t, w'') \<longrightarrow> time_ok t \<longrightarrow>
       nanos demo_time - set_leeway demo_settings \<le> nanos t \<longrightarrow>
       (if nanos t \<le> (nanos demo_time + set_ttl demo_settings) div 1000000000 * 1000000000 + set_leeway demo_settings
        then \<exists>c. fst (jwt_Decode ord demo_jwt token w') = Inr c \<and> Subject c = ''bob''
        else \<exists>err. fst (jwt_Decode ord demo_jwt token w') = Inl err \<and> jwt_Is err ErrTokenExpired)"
    using fresh_token_lives_until_expiry [OF demo_jwt_made demo_settings_eq [symmetric] demo_own _ _
        demo_simps(2) demo_modern, of "''bob''"] by auto
  have "visits rev"
    by (simp add: visits_def)
  then show ?thesis
    using token life [rule_format, OF _ demo_simps(2), of rev "GoTime 63835597705 0"]
      life [rule_format, OF _ demo_simps(2), of rev "GoTime 63835597705 1"]
    by (auto simp: demo_simps nanos_def demo_time_def time_ok_def int64_def)
qed

text \<open>C8: Nothing is accepted that was not signed. When a JWT made with a secret decodes a token, the token
has three parts; the third is the base64url form of the HMAC-SHA-256 of the first two under that
secret; the first names HS256, the type JWT or none, and no critical extension; and the claims are
those of the second part and passed \<open>validate\<close>.\<close>

theorem accepted_tokens_are_signed:
  assumes "jwt_New sys key opts = Inr j" and "fst (jwt_Decode ord j token w) = Inr c"
  shows "\<exists>h p s header jose payload.
    token = compact h p s \<and> b64decode s = Some (hmac_sha256 key (h @ ''.'' @ p)) \<and>
    b64decode h = Some header \<and> json_Unmarshal_jose header = Some jose \<and>
    jose_Alg jose = ''HS256'' \<and> (jose_Typ jose = '''' \<or> typIsJWT (jose_Typ jose)) \<and> jose_Crit jose = [] \<and>
    b64decode p = Some payload \<and> json_Unmarshal_claims ord payload = Inr c \<and>
    fst (validate (jw_verify j) c w) = None"
proof -
  have alg: "vf_alg (jw_verify j) = hmac_algorithm \<lparr>algName = AlgHS256, hmac_secret = key\<rparr>"
    using assms(1) by (auto simp: jwt_New_eq split: if_splits)
  obtain h p s sig payload where t: "token = compact h p s" "check_header (jw_verify j) h = None"
      "b64decode s = Some sig" "alg_verify (vf_alg (jw_verify j)) (h @ ''.'' @ p) sig = None"
      "b64decode p = Some payload" "json_Unmarshal_claims ord payload = Inr c"
      "fst (validate (jw_verify j) c w) = None"
    using Verify_accepts assms(2) unfolding jwt_Decode_def by metis
  have "sig = hmac_sha256 key (h @ ''.'' @ p)"
    using t(4) by (simp add: alg hmac_algorithm_def hmacAlg_verify_def split: if_splits)
  moreover obtain header jose where "b64decode h = Some header" "json_Unmarshal_jose header = Some jose"
      "jose_Alg jose = ''HS256''" "jose_Typ jose = '''' \<or> typIsJWT (jose_Typ jose)" "jose_Crit jose = []"
    using t(2) by (auto simp: check_header_def alg hmac_algorithm_def AlgHS256_def
        split: option.splits if_splits)
  ultimately show ?thesis
    using t by blast
qed

lemma demo_token:
  obtains token c where "fst (jwt_Decode rev demo_jwt token demo_time) = Inr c" and "Subject c = ''bob''"
    and "fst (jwt_Encode demo_jwt (zero_claims\<lparr>Subject := ''bob''\<rparr>) demo_time) = Inr token"
proof -
  let ?d = "fresh_claims demo_settings demo_time ''bob''"
  note made = demo_jwt_made demo_settings_eq [symmetric] demo_own
  obtain token where "fst (jwt_Encode demo_jwt (zero_claims\<lparr>Subject := ''bob''\<rparr>) demo_time) = Inr token"
      "jwt_Decode rev demo_jwt token demo_time = judged (jw_verify demo_jwt) ?d demo_time"
    using fresh_encode_decode [OF made _ _ demo_simps(2) demo_modern, of "''bob''"]
    by (auto simp: visits_def)
  moreover have "fst (validate (jw_verify demo_jwt) ?d demo_time) = None"
    using fresh_validate [OF made demo_modern demo_simps(2,12), of "''bob''"]
    by (simp add: demo_simps last_nano_def nanos_def demo_time_def)
  ultimately show ?thesis
    using fresh_claims_fields(5) [OF demo_own demo_modern]
    by (intro that [of token ?d]) (auto simp: judged_def split: prod.split option.split)
qed

lemma accepted_tokens_are_signed_witness:
  "\<exists>token c. fst (jwt_Decode rev demo_jwt token demo_time) = Inr c \<and> Subject c = ''bob'' \<and>
    (\<exists>h p s. token = compact h p s \<and> b64decode s = Some (hmac_sha256 demo_key (h @ ''.'' @ p)))"
proof -
  obtain token c where t: "fst (jwt_Decode rev demo_jwt token demo_time) = Inr c" "Subject c = ''bob''"
    by (rule demo_token)
  obtain h p s where "token = compact h p s" "b64decode s = Some (hmac_sha256 demo_key (h @ ''.'' @ p))"
    using accepted_tokens_are_signed [OF demo_jwt_New t(1)] by (elim exE conjE)
  with t show ?thesis
    by (intro exI [of _ token] exI [of _ c] conjI exI [of _ h] exI [of _ p] exI [of _ s])
qed

lemma check_header_none:
  assumes "alg_name (vf_alg v) \<noteq> ''none''"
  shows "check_header v (b64encode ''{\"alg\":\"none\"}'') = Some (AlgMismatch ''none'' (alg_name (vf_alg v)))"
proof -
  define header where "header = ''{\"alg\":\"none\"}''"
  have "json_Unmarshal_jose header = Some \<lparr>jose_Alg = ''none'', jose_Typ = '''', jose_Crit = []\<rparr>"
    unfolding header_def by code_simp
  then have "check_header v (b64encode header) = Some (AlgMismatch ''none'' (alg_name (vf_alg v)))"
    using assms by (simp add: check_header_def)
  then show ?thesis
    by (simp only: header_def)
qed

lemma none_header_part: "token_part (b64encode ''{\"alg\":\"none\"}'')"
  by (rule token_part_encode) simp

text \<open>Algorithms do not mix. A token that a JWT made with a secret issues is turned away by every EdDSA
verifier, whatever key it holds, and a token signed with a private key by every HS256 verifier, in
both cases as \<open>ErrAlgMismatch\<close>; a token whose header says \<open>none\<close> is turned away by both.\<close>

theorem algorithms_do_not_mix:
  assumes "jwt_New sys key opts = Inr j" and "NewVerifierEdDSA ed sys' pub opts' = Inr ve"
    and "ed25519_ok ed" and "length seed = 32"
    and "NewSignerEdDSA ed sys'' (seed @ ed_Public ed seed) opts'' = Inr se"
  shows "(\<forall>token c w ord w'. fst (jwt_Encode j c w) = Inr token \<longrightarrow>
        fst (Verify ord ve token w') = Inl (AlgMismatch ''HS256'' ''EdDSA'')) \<and>
    (\<forall>token c w ord w'. fst (Sign se c w) = Inr token \<longrightarrow>
        fst (jwt_Decode ord j token w') = Inl (AlgMismatch ''EdDSA'' ''HS256'')) \<and>
    (\<forall>p s ord w'. token_part p \<longrightarrow> token_part s \<longrightarrow>
        fst (jwt_Decode ord j (compact (b64encode ''{\"alg\":\"none\"}'') p s) w') =
          Inl (AlgMismatch ''none'' ''HS256'') \<and>
        fst (Verify ord ve (compact (b64encode ''{\"alg\":\"none\"}'') p s) w') =
          Inl (AlgMismatch ''none'' ''EdDSA''))"
proof -
  have j: "sg_alg (jw_sign j) = hmac_algorithm \<lparr>algName = AlgHS256, hmac_secret = key\<rparr>"
      "vf_alg (jw_verify j) = hmac_algorithm \<lparr>algName = AlgHS256, hmac_secret = key\<rparr>"
    using assms(1) by (auto simp: jwt_New_eq split: if_splits)
  have ve: "alg_name (vf_alg ve) = ''EdDSA''"
    using assms(2) by (auto simp: NewVerifierEdDSA_def eddsa_algorithm_def AlgEdDSA_def split: sum.splits)
  have se: "sg_alg se = eddsa_algorithm ed \<lparr>ed_priv = seed @ ed_Public ed seed, ed_pub = ed_Public ed seed\<rparr>"
    using assms(3-5) by (auto simp: NewSignerEdDSA_def newEdDSASignAlg_def split: if_splits)
  have names: "alg_name (hmac_algorithm \<lparr>algName = AlgHS256, hmac_secret = key\<rparr>) = ''HS256''"
      "alg_name (sg_alg se) = ''EdDSA''"
    by (simp_all add: hmac_algorithm_def AlgHS256_def se eddsa_algorithm_def AlgEdDSA_def)
  have hs: "fst (Verify ord ve token w') = Inl (AlgMismatch ''HS256'' ''EdDSA'')"
    if "fst (jwt_Encode j c w) = Inr token" for token c w ord w'
    using hs256.other_algorithm [OF j(1), of ve c w token] that ve names by (simp add: jwt_Encode_def)
  have ed: "fst (jwt_Decode ord j token w') = Inl (AlgMismatch ''EdDSA'' ''HS256'')"
    if "fst (Sign se c w) = Inr token" for token c w ord w'
    using signature_scheme.other_algorithm [OF eddsa_scheme [OF assms(3,4)] se, of "jw_verify j" c w token]
      that names j(2) se by (simp add: jwt_Decode_def)
  have none: "fst (Verify ord v (compact (b64encode ''{\"alg\":\"none\"}'') p s) w') =
      Inl (AlgMismatch ''none'' (alg_name (vf_alg v)))"
    if "alg_name (vf_alg v) \<noteq> ''none''" "token_part p" "token_part s"
    for v :: "'z verifier" and p s ord w'
    using check_header_none [OF that(1)] that(2,3) none_header_part by (simp only: Verify_compact) simp
  show ?thesis
    using hs ed none [of "jw_verify j"] none [of ve] names(1) ve j(2) by (simp add: jwt_Decode_def del: b64encode.simps)
qed

text \<open>An Ed25519 in name only, for the witnesses: it has the laws and protects nothing.\<close>

definition toy_ed25519 :: ed25519 where
  "toy_ed25519 =
     \<lparr>ed_Public = (\<lambda>seed. seed), ed_Sign = (\<lambda>priv m. priv), ed_Verify = (\<lambda>pub m sig. sig = pub @ pub)\<rparr>"

definition toy_verifier :: "go_time verifier" where
  "toy_verifier = \<lparr>vf_alg = eddsa_algorithm toy_ed25519 \<lparr>ed_priv = [], ed_pub = demo_key\<rparr>,
     vf_set = newSettings tick []\<rparr>"

definition toy_signer :: "go_time signer" where
  "toy_signer = \<lparr>sg_alg = eddsa_algorithm toy_ed25519 \<lparr>ed_priv = demo_key @ demo_key, ed_pub = demo_key\<rparr>,
     sg_set = newSettings tick []\<rparr>"

lemma toy_ed25519_ok: "ed25519_ok toy_ed25519"
  by (simp add: ed25519_ok_def toy_ed25519_def)

lemma algorithms_do_not_mix_witness:
  "\<exists>token. fst (jwt_Encode demo_jwt (zero_claims\<lparr>Subject := ''bob''\<rparr>) demo_time) = Inr token \<and>
     fst (Verify rev toy_verifier token demo_time) = Inl (AlgMismatch ''HS256'' ''EdDSA'')"
proof -
  obtain token where t: "fst (jwt_Encode demo_jwt (zero_claims\<lparr>Subject := ''bob''\<rparr>) demo_time) = Inr token"
    by (rule demo_token)
  have v: "NewVerifierEdDSA toy_ed25519 tick demo_key [] = Inr toy_verifier"
    by (simp add: NewVerifierEdDSA_def newEdDSAVerifyAlg_def PublicKeySize_def demo_key_def toy_verifier_def)
  have s: "length demo_key = 32"
      "NewSignerEdDSA toy_ed25519 tick (demo_key @ ed_Public toy_ed25519 demo_key) [] = Inr toy_signer"
    by (simp_all add: NewSignerEdDSA_def newEdDSASignAlg_def PrivateKeySize_def demo_key_def
        toy_signer_def toy_ed25519_def)
  show ?thesis
    using algorithms_do_not_mix [OF demo_jwt_New v toy_ed25519_ok s] t by blast
qed

text \<open>C29: When \<open>Encode\<close> issues a token and when not. It fails exactly if the subject is missing, if there is
neither an expiry nor a positive TTL, or if the claims cannot be encoded, each with its own error;
without a subject the clock is not even read, and a registered claim among the extra ones is reported
as \<open>ErrReservedClaim\<close>.\<close>

theorem encode_outcome:
  assumes "jwt_made sys opts j" and "cfg = newSettings sys opts"
  shows "case fst (jwt_Encode j c w) of
      Inl err \<Rightarrow>
        (Subject c = '''' \<and> err = ErrMissingSubject \<and> snd (jwt_Encode j c w) = w) \<or>
        (Subject c \<noteq> '''' \<and> IsZero (ExpiresAt c) \<and> set_ttl cfg \<le> 0 \<and> err = ErrMissingExpiration) \<or>
        (Subject c \<noteq> '''' \<and> (\<exists>e. json_Marshal_claims (defaulted cfg (fst (set_now cfg w)) c) = Inl e \<and>
           err = EncodeClaims e \<and>
           (jwt_Is err ErrReservedClaim \<longleftrightarrow> (\<exists>k \<in> reservedClaims. k \<in> fst ` set (Extra c)))))
    | Inr token \<Rightarrow>
        Subject c \<noteq> '''' \<and> (IsZero (ExpiresAt c) \<longrightarrow> 0 < set_ttl cfg) \<and>
        (\<exists>payload. json_Marshal_claims (defaulted cfg (fst (set_now cfg w)) c) = Inr payload)"
proof -
  note made = jwt_made_scheme [OF assms(1), folded assms(2)]
  obtain now w1 where now: "set_now cfg w = (now, w1)"
    by (cases "set_now cfg w")
  have sig: "\<exists>s. alg_sign (sg_alg (jw_sign j)) m = Inr s" for m
    using signature_scheme.signs [OF made(1), of m] by blast
  have merge: "merge_extra xs m \<noteq> Inl ReservedClaim" for xs m
    by (induction xs m rule: merge_extra.induct) (auto split: option.split)
  have reserved: "e = ReservedClaim \<longleftrightarrow> (\<exists>k \<in> reservedClaims. k \<in> fst ` set (Extra d))"
    if "json_Marshal_claims d = Inl e" for d e
    using that merge by (fastforce simp: json_Marshal_claims_def MarshalJSON_def Let_def list_ex_iff
        split: sum.splits if_splits)
  have extra: "Extra (defaulted cfg now c) = Extra c"
    by (simp add: defaulted_def Let_def)
  have is_reserved: "jwt_Is (EncodeClaims e) ErrReservedClaim \<longleftrightarrow> e = ReservedClaim" for e
    by (cases e) (auto simp: jwt_Is_def)
  consider "Subject c = ''''" | "Subject c \<noteq> ''''" "IsZero (ExpiresAt c)" "set_ttl cfg \<le> 0"
    | "Subject c \<noteq> ''''" "IsZero (ExpiresAt c) \<longrightarrow> 0 < set_ttl cfg"
    by linarith
  then show ?thesis
  proof cases
    case 3
    then have fill: "fill_defaults cfg now c = Inr (defaulted cfg now c)"
      by (auto simp: fill_defaults_eq)
    show ?thesis
    proof (cases "json_Marshal_claims (defaulted cfg now c)")
      case (Inl e)
      then show ?thesis
        using 3 fill now reserved [OF Inl] extra is_reserved
        by (simp add: jwt_Encode_def Sign_def made)
    next
      case (Inr payload)
      then obtain s where "alg_sign (sg_alg (jw_sign j))
          (b64encode (alg_header (sg_alg (jw_sign j))) @ ''.'' @ b64encode payload) = Inr s"
        using sig by blast
      with Inr show ?thesis
        using 3 fill now by (simp add: jwt_Encode_def Sign_def made Let_def)
    qed
  qed (simp_all add: jwt_Encode_def Sign_def made now fill_defaults_eq)
qed

lemma encode_outcome_witness:
  "fst (jwt_Encode demo_jwt zero_claims demo_time) = Inl ErrMissingSubject"
  using encode_outcome [OF demo_jwt_made demo_settings_eq [symmetric], of zero_claims demo_time]
  by (simp add: zero_claims_def split: sum.splits)

end
