(* ===== verification/Jwt_Edges.thy ===== *)
theory Jwt_Edges
  imports Jwt_Properties
begin

text \<open>
  Tokens at the edges: an expiry at the epoch, an expiry beyond the range of a time, line
  breaks after a token, and subjects that are not UTF-8.
\<close>

section \<open>Expiry at the epoch\<close>

lemma whole_seconds_epoch:
  assumes "wall_sec t = unixToInternal"
  shows "whole_seconds t = zero_time"
  using assms by (simp add: whole_seconds_def Time_Unix_def wrap64_def)

text \<open>C36: An expiry in the first second of 1970 makes a token that never expires. It is an expiry to
\<open>Sign\<close>, which asks for no TTL then, but its number is zero and left out of the payload; so the token
has no \<open>exp\<close>, and from the moment of issue on decoding accepts it however late it is.\<close>

theorem epoch_expiry_never_expires:
  assumes made: "jwt_made sys opts j" and cfg: "cfg = newSettings sys opts"
    and user: "u \<noteq> ''''" "valid_utf8 u" and plain: "plain_settings cfg"
    and leeway: "sane_leeway (set_leeway cfg)"
    and own: "set_expectIssuer cfg \<in> {'''', set_issuer cfg}"
      "set_expectAudience cfg \<in> insert '''' (set (set_audience cfg))"
    and now: "set_now cfg w = (t0, w1)" "time_sane t0" "0 < wall_sec t0"
    and epoch: "time_ok t" "wall_sec t = unixToInternal"
  shows "\<exists>token. fst (jwt_Encode j (zero_claims\<lparr>Subject := u, ExpiresAt := t\<rparr>) w) = Inr token \<and>
    (\<forall>ord w' t' w''. visits ord \<longrightarrow> set_now cfg w' = (t', w'') \<longrightarrow> time_ok t' \<longrightarrow>
       nanos t0 - set_leeway cfg \<le> nanos t' \<longrightarrow>
       (\<exists>c. fst (jwt_Decode ord j token w') = Inr c \<and> Subject c = u \<and> IsZero (ExpiresAt c)))"
proof -
  let ?c = "zero_claims\<lparr>Subject := u, ExpiresAt := t\<rparr>"
  define d where "d = settled (defaulted cfg t0 ?c)"
  have t: "\<not> IsZero t" "Subject ?c \<noteq> ''''"
    using epoch user by (simp_all add: IsZero_def unixToInternal_def zero_claims_def)
  have "plain_claims ?c" "shallow_extra ?c"
    using user epoch by (simp_all add: plain_claims_def zero_claims_def plain_extra_def zero_time_def
        time_ok_def int64_def shallow_extra_def)
  then obtain token where enc: "jwt_Encode j ?c w = (Inr token, w1)"
    and dec: "\<And>ord w'. visits ord \<Longrightarrow> jwt_Decode ord j token w' = judged (jw_verify j) d w'"
    using encode_decode [OF made cfg t(2) _ _ plain now(1) time_sane_ok [OF now(2)]] t(1)
    by (auto simp: d_def zero_claims_def)
  have fields: "ExpiresAt d = zero_time" "NotBefore d = zero_time" "Subject d = u" "pinned cfg d"
      "IssuedAt d = whole_seconds t0"
    using t epoch own
    by (auto simp: d_def settled_def defaulted_def zero_claims_def Let_def whole_seconds_epoch
        pinned_def IsZero_def zero_time_def whole_seconds_def Time_Unix_def wrap64_def)
  have iat: "IsZero (IssuedAt d) \<or> nanos (IssuedAt d) \<le> nanos t0"
    using now(2) by (auto simp: fields whole_seconds_def IsZero_def zero_time_def nanos_def
        time_sane_def time_ok_def)
  have sane: "sane_claims d"
    using now(2) by (auto simp: sane_claims_def fields whole_seconds_def zero_time_def time_sane_def
        time_ok_def int64_def)
  have "validate (jw_verify j) d w' = (None, w'')"
    if clock: "set_now cfg w' = (t', w'')" "time_ok t'" "nanos t0 - set_leeway cfg \<le> nanos t'"
    for w' t' w''
  proof -
    have "not_expired (set_leeway cfg) t' d" "started (set_leeway cfg) t' d" "issued (set_leeway cfg) t' d"
      using clock(3) iat
      by (auto simp: not_expired_def started_def issued_def fields(1,2) IsZero_def zero_time_def)
    then show ?thesis
      using validate_window [of "jw_verify j" w' t' w'' d] clock sane leeway fields(4)
      by (auto simp: jwt_made_scheme(3) [OF made] pinned_def simp flip: cfg)
  qed
  then have "fst (jwt_Decode ord j token w') = Inr d"
    if "visits ord" "set_now cfg w' = (t', w'')" "time_ok t'" "nanos t0 - set_leeway cfg \<le> nanos t'"
    for ord w' t' w''
    using dec [OF that(1), of w'] that by (simp add: judged_def)
  then show ?thesis
    using enc fields(1,3) by (intro exI [of _ token]) (auto simp: IsZero_def zero_time_def)
qed

lemma epoch_expiry_never_expires_witness:
  "\<exists>token. fst (jwt_Encode demo_jwt (zero_claims\<lparr>Subject := ''bob'', ExpiresAt := from_Unix 0\<rparr>) demo_time) = Inr token \<and>
     (\<exists>c. fst (jwt_Decode rev demo_jwt token (GoTime (2 ^ 60) 0)) = Inr c \<and> Subject c = ''bob'')"
proof -
  have t: "time_ok (from_Unix 0)" "wall_sec (from_Unix 0) = unixToInternal"
    by (simp_all add: from_Unix_def wrap64_def unixToInternal_def time_ok_def int64_def)
  obtain token where "fst (jwt_Encode demo_jwt (zero_claims\<lparr>Subject := ''bob'', ExpiresAt := from_Unix 0\<rparr>) demo_time) = Inr token"
    and life: "\<forall>ord w' t' w''. visits ord \<longrightarrow> set_now demo_settings w' = (t', w'') \<longrightarrow> time_ok t' \<longrightarrow>
       nanos demo_time - set_leeway demo_settings \<le> nanos t' \<longrightarrow>
       (\<exists>c. fst (jwt_Decode ord demo_jwt token w') = Inr c \<and> Subject c = ''bob'' \<and> IsZero (ExpiresAt c))"
    using epoch_expiry_never_expires [OF demo_jwt_made demo_settings_eq [symmetric] _ _ demo_simps(1,6) _ _
        demo_simps(2) _ _ t, of "''bob''" demo_time]
    by (auto simp: demo_simps demo_time_def time_sane_def time_ok_def int64_def)
  moreover have "visits rev"
    by (simp add: visits_def)
  moreover have "\<exists>c. fst (jwt_Decode rev demo_jwt token (GoTime (2 ^ 60) 0)) = Inr c \<and> Subject c = ''bob'' \<and>
      IsZero (ExpiresAt c)"
    by (rule life [rule_format, OF \<open>visits rev\<close> demo_simps(2)])
      (simp_all add: demo_simps nanos_def demo_time_def time_ok_def int64_def)
  ultimately show ?thesis
    by blast
qed

section \<open>Expiry out of range\<close>

text \<open>C37: An expiry too far in the future is taken for one in the past. A number of seconds that a
64-bit integer can hold but whose distance from the year 1 it cannot wraps around when it becomes a
time: the token counts as expired on any date since, whatever the leeway, instead of living long.\<close>

theorem huge_expiry_wraps:
  assumes "2 ^ 63 - unixToInternal \<le> s" and "s < 2 ^ 63"
    and "set_now (vf_set v) w = (now, w')" and "time_ok now" and "0 \<le> wall_sec now"
    and "int64 (set_leeway (vf_set v))" and "0 \<le> set_leeway (vf_set v)"
  shows "jsonUnmarshalDate (JNumber (FormatInt s)) = Inr (from_Unix s) \<and>
    validate v (c\<lparr>ExpiresAt := from_Unix s\<rparr>) w = (Some (ExpiredOn (from_Unix s)), w')"
proof -
  have s: "int64 s" "wrap64 (s + unixToInternal) = s + unixToInternal - 2 ^ 64"
    using assms(1,2) mod_pos_pos_trivial [of "s + unixToInternal - 2 ^ 63" "2 ^ 64"]
      mod_add_self2 [of "s + unixToInternal - 2 ^ 63" "2 ^ 64"]
    by (auto simp: int64_def unixToInternal_def wrap64_def)
  define q r where "q = set_leeway (vf_set v) sdiv 1000000000" and "r = set_leeway (vf_set v) smod 1000000000"
  have "set_leeway (vf_set v) = q * 1000000000 + r" "r < 1000000000"
    using smod_int_range [of 1000000000 "set_leeway (vf_set v)"]
    by (auto simp: q_def r_def sdiv_mult_smod_eq)
  moreover have r: "0 \<le> r" "0 \<le> q"
    using assms(7) by (simp_all add: q_def r_def signed_modulo_int_def signed_divide_int_def sgn_if)
  ultimately have q: "q < 10000000000" "r < 1000000000"
    using assms(6) by (auto simp: int64_def)
  have "addSec (s + unixToInternal - 2 ^ 64) q = s + unixToInternal - 2 ^ 64 + q"
    using assms(1,2) q r by (intro addSec_exact) (auto simp: int64_def unixToInternal_def)
  then have "Time_Add (from_Unix s) (set_leeway (vf_set v)) = GoTime (s + unixToInternal - 2 ^ 64 + q) r"
    using q r by (simp add: Time_Add_def from_Unix_def s(2) Let_def flip: q_def r_def)
  moreover have "s + unixToInternal - 2 ^ 64 + q < 0"
    using assms(2) q by (simp add: unixToInternal_def)
  ultimately have "After now (Time_Add (from_Unix s) (set_leeway (vf_set v)))"
    using assms(5) by (simp add: After_def less_go_time_def)
  moreover have "\<not> IsZero (from_Unix s)"
    using s(2) assms(2) by (simp add: from_Unix_def IsZero_def unixToInternal_def)
  ultimately show ?thesis
    using assms(3) s(1) by (simp add: validate_def jsonUnmarshalDate_def ParseInt_FormatInt)
qed

lemma huge_expiry_wraps_witness:
  "validate (jw_verify demo_jwt) (zero_claims\<lparr>ExpiresAt := from_Unix 9223372036854775807\<rparr>) demo_time =
     (Some (ExpiredOn (from_Unix 9223372036854775807)), Time_Add demo_time 1000000000)"
  using huge_expiry_wraps [of 9223372036854775807 "jw_verify demo_jwt" demo_time demo_time
      "Time_Add demo_time 1000000000" zero_claims]
  by (simp add: demo_simps unixToInternal_def int64_def demo_time_def time_ok_def)

section \<open>Other texts of a token\<close>

text \<open>A token is not a unique text. Line breaks after an accepted token change nothing: the decoder of
the signature skips them, so every such text is accepted as well, with the same claims. Whoever keeps
a list of revoked tokens by their text does not keep these out.\<close>

theorem line_breaks_accepted:
  assumes "fst (jwt_Decode ord j token w) = Inr c" and "set nl \<subseteq> {CHR 0x0A, CHR 0x0D}"
  shows "jwt_Decode ord j (token @ nl) w = jwt_Decode ord j token w"
proof -
  obtain h p s where t: "token = compact h p s" "token_part h" "token_part p" "token_part s"
    using Verify_accepts assms(1) unfolding jwt_Decode_def by metis
  have "token_part (s @ nl)"
    using t(4) assms(2) by (auto simp: token_part_def)
  moreover have "token @ nl = compact h p (s @ nl)"
    by (simp add: t(1) compact_def)
  moreover have "b64decode (s @ nl) = b64decode s"
    using b64decode_newline [OF assms(2), of s "[]"] by simp
  ultimately show ?thesis
    unfolding jwt_Decode_def using t(2-4) by (simp only: Verify_compact t(1))
qed

lemma line_breaks_accepted_witness:
  "\<exists>token c. fst (jwt_Decode rev demo_jwt (token @ [CHR 0x0D, CHR 0x0A]) demo_time) = Inr c \<and>
     Subject c = ''bob'' \<and> jwt_Decode rev demo_jwt (token @ [CHR 0x0D, CHR 0x0A]) demo_time =
       jwt_Decode rev demo_jwt token demo_time"
proof -
  obtain token c where t: "fst (jwt_Decode rev demo_jwt token demo_time) = Inr c" "Subject c = ''bob''"
    by (rule demo_token)
  show ?thesis
    using line_breaks_accepted [OF t(1), of "[CHR 0x0D, CHR 0x0A]"] t
    by (intro exI [of _ token] exI [of _ c]) simp
qed

section \<open>Subjects that are not UTF-8\<close>

text \<open>Signing depends on the claims only through their defaulted text.\<close>

lemma Sign_def_marshalled:
  "Subject c \<noteq> '''' \<Longrightarrow> Sign s c w =
     (case set_now (sg_set s) w of (now, w) \<Rightarrow>
       (case (case fill_defaults (sg_set s) now c of Inl e \<Rightarrow> Inl e
                | Inr d \<Rightarrow> Inr (json_Marshal_claims d)) of
          Inl e \<Rightarrow> (Inl e, w)
        | Inr (Inl e) \<Rightarrow> (Inl (EncodeClaims e), w)
        | Inr (Inr payload) \<Rightarrow>
            (case alg_sign (sg_alg s) (b64encode (alg_header (sg_alg s)) @ ''.'' @ b64encode payload) of
               Inl err \<Rightarrow> (Inl err, w)
             | Inr sig \<Rightarrow>
                 (Inr (compact (b64encode (alg_header (sg_alg s))) (b64encode payload) (b64encode sig)), w))))"
  by (simp add: Sign_def compact_def Let_def split: prod.split sum.split)

lemma fill_defaults_subject:
  "fill_defaults cfg now (c\<lparr>Subject := s\<rparr>) =
     (case fill_defaults cfg now c of Inl e \<Rightarrow> Inl e | Inr d \<Rightarrow> Inr (d\<lparr>Subject := s\<rparr>))"
  by (simp add: fill_defaults_def Let_def)

lemma fill_defaults_extra: "fill_defaults cfg now c = Inr d \<Longrightarrow> Extra d = Extra c"
  by (auto simp: fill_defaults_eq defaulted_def Let_def split: if_splits)

text \<open>Two users can share a token. Bytes that are not UTF-8 are replaced when claims are encoded, and
nothing says so: subjects that differ in such bytes only, as the names \<open>0xFE\<close> and \<open>0xFF\<close> do, are
issued the very same token at the same moment, and it decodes to neither of them.\<close>

theorem invalid_utf8_subjects_collide:
  assumes "escape_body u = escape_body u'" and "u \<noteq> ''''" and "u' \<noteq> ''''" and "Extra c = []"
  shows "jwt_Encode j (c\<lparr>Subject := u\<rparr>) w = jwt_Encode j (c\<lparr>Subject := u'\<rparr>) w"
proof -
  have "json_Marshal_claims (d\<lparr>Subject := u\<rparr>) = json_Marshal_claims (d\<lparr>Subject := u'\<rparr>)"
    if "Extra d = []" for d
  proof -
    have "json_depth (JObject (registered (d\<lparr>Subject := u\<rparr>))) = json_depth (JObject (registered (d\<lparr>Subject := u'\<rparr>)))"
      using assms(2,3) by (simp add: registered_def string_member_def)
    moreover have "map print_member (registered (d\<lparr>Subject := u\<rparr>)) = map print_member (registered (d\<lparr>Subject := u'\<rparr>))"
      using assms(1-3) by (simp add: registered_def string_member_def print_member_def quote_string_def)
    ultimately show ?thesis
      using that by (simp add: json_Marshal_claims_def MarshalJSON_def)
  qed
  then have "(case fill_defaults cfg now (c\<lparr>Subject := u\<rparr>) of Inl e \<Rightarrow> Inl e
        | Inr d \<Rightarrow> Inr (json_Marshal_claims d)) =
      (case fill_defaults cfg now (c\<lparr>Subject := u'\<rparr>) of Inl e \<Rightarrow> Inl e
        | Inr d \<Rightarrow> Inr (json_Marshal_claims d))"
    for cfg :: "'a settings" and now
    using assms(4) fill_defaults_extra [of cfg now c]
    by (cases "fill_defaults cfg now c") (simp_all add: fill_defaults_subject)
  then show ?thesis
    using assms(2,3) by (simp add: jwt_Encode_def Sign_def_marshalled split: prod.split)
qed

lemma invalid_utf8_subjects_collide_witness:
  "jwt_Encode demo_jwt (zero_claims\<lparr>Subject := [CHR 0xFE]\<rparr>) demo_time =
     jwt_Encode demo_jwt (zero_claims\<lparr>Subject := [CHR 0xFF]\<rparr>) demo_time"
proof (rule invalid_utf8_subjects_collide)
  show "escape_body [CHR 0xFE] = escape_body [CHR 0xFF]"
    by code_simp
qed (simp_all add: zero_claims_def)


section \<open>The package example\<close>

text \<open>
  \<open>ExampleJWT\<close> of \<open>jwt/symmetric.go\<close>: what it prints, or \<open>None\<close> if it panics on a nil
  pointer because a call it does not check has failed.
\<close>

definition ExampleJWT :: "'w jwt_clock \<Rightarrow> member_order \<Rightarrow> 'w \<Rightarrow> string option \<times> 'w" where
  "ExampleJWT sys ord w =
     (case jwt_New sys ''0123456789abcdef0123456789abcdef''
             [Some (WithTTL (15 * 60 * 1000000000)), Some (WithIssuer ''login''),
              Some (WithExpectedIssuer ''login'')] of
        Inl _ \<Rightarrow> (None, w)
      | Inr auth \<Rightarrow>
     (case jwt_Encode auth (zero_claims\<lparr>Subject := ''bob''\<rparr>) w of
        (encoded, w) \<Rightarrow>
          let tok = (case encoded of Inl _ \<Rightarrow> '''' | Inr tok \<Rightarrow> tok) in
     (case jwt_Decode ord auth tok w of
        (Inl _, w) \<Rightarrow> (None, w)
      | (Inr out, w) \<Rightarrow> (Some (Subject out @ '' '' @ Issuer out @ [CHR 0x0A]), w))))"

lemma ExampleJWT_prints:
  assumes "visits ord" and "sys w = (t0, w1)" and "sys w1 = (t1, w2)"
    and "modern t0" and "time_ok t1"
    and "nanos t0 \<le> nanos t1" and "nanos t1 < nanos t0 + 899 * 1000000000"
  shows "ExampleJWT sys ord w = (Some (''bob login'' @ [CHR 0x0A]), w2)"
proof -
  let ?opts = "[Some (WithTTL (15 * 60 * 1000000000)), Some (WithIssuer ''login''),
      Some (WithExpectedIssuer ''login'')] :: 'a jwt_option option list"
  define cfg where "cfg = newSettings sys ?opts"
  have cfg: "set_now cfg = sys" "set_ttl cfg = 900000000000" "set_issuer cfg = ''login''" "set_leeway cfg = 0"
      "set_audience cfg = []" "set_expectIssuer cfg = ''login''" "set_expectAudience cfg = ''''"
    by (simp_all add: cfg_def newSettings_def WithTTL_def WithIssuer_def WithExpectedIssuer_def)
  then have own: "accepts_own cfg"
    by (simp add: accepts_own_def plain_settings_def sane_leeway_def int64_def)
  obtain j where j: "jwt_New sys ''0123456789abcdef0123456789abcdef'' ?opts = Inr j"
    by (simp add: jwt_New_eq)
  then have made: "jwt_made sys ?opts j"
    by (auto simp: jwt_made_def)
  let ?d = "fresh_claims cfg t0 ''bob''"
  have now: "set_now cfg w = (t0, w1)" "set_now cfg w1 = (t1, w2)"
    using assms(2,3) cfg(1) by simp_all
  obtain token where enc: "jwt_Encode j (zero_claims\<lparr>Subject := ''bob''\<rparr>) w = (Inr token, w1)"
    and dec: "jwt_Decode ord j token w1 = judged (jw_verify j) ?d w1"
    using fresh_encode_decode [OF made cfg_def own _ _ now(1) assms(4), of "''bob''"] assms(1) by auto
  have "nanos t1 \<le> last_nano cfg t0"
    using assms(7) by (simp add: last_nano_def cfg)
  then have "validate (jw_verify j) ?d w1 = (None, w2)"
    using fresh_validate [OF made cfg_def own assms(4) now(2) assms(5), of "''bob''"] assms(6)
    by (simp add: cfg)
  moreover have "Issuer ?d = ''login''"
    by (simp add: fresh_claims_def settled_def defaulted_def zero_claims_def cfg Let_def)
  ultimately show ?thesis
    using j enc dec fresh_claims_fields(5) [OF own assms(4)] by (simp add: ExampleJWT_def judged_def)
qed

end
