(* ===== verification/Libauth_Api.thy ===== *)
theory Libauth_Api
  imports Http_Middleware
begin

text \<open>
  The root package \<open>libauth\<close> (\<open>libauth.go\<close>, \<open>middleware.go\<close>): every function forwards to one of a
  subpackage, and the example programs call them here. The error values it re-exports are the
  constructors of \<open>lib_error\<close> and \<open>jwt_error\<close> themselves.
\<close>

definition libauth_ParsePermission :: "string \<Rightarrow> parse_error + permission" where
  [simp]: "libauth_ParsePermission s = ParsePermission s"

definition libauth_NewMemoryStore :: memory_store where
  [simp]: "libauth_NewMemoryStore = NewMemoryStore"

definition libauth_DefaultMaxDepth :: int where
  [simp]: "libauth_DefaultMaxDepth = DefaultMaxDepth"

definition libauth_New :: "memory_store option_fn list \<Rightarrow> memory_store enforcer" where
  [simp]: "libauth_New opts = New NewMemoryStore opts"

definition libauth_WithStore :: "'s \<Rightarrow> 's option_fn" where
  [simp]: "libauth_WithStore s = WithStore s"

definition libauth_WithMaxDepth :: "int \<Rightarrow> 's option_fn" where
  [simp]: "libauth_WithMaxDepth n = WithMaxDepth n"

definition libauth_HeaderIdentity :: "string \<Rightarrow> identity_func" where
  [simp]: "libauth_HeaderIdentity header = HeaderIdentity header"

definition libauth_WithUser :: "go_context \<Rightarrow> user option \<Rightarrow> go_context" where
  [simp]: "libauth_WithUser ctx u = WithUser ctx u"

definition libauth_UserFromContext :: "go_context \<Rightarrow> user option" where
  [simp]: "libauth_UserFromContext ctx = UserFromContext ctx"

end
