(* ===== verification/Go_Format.thy ===== *)
theory Go_Format
  imports Go_Time Json_Valid
begin

text \<open>
  What the program uses of Go's \<open>fmt\<close>: padding, slices in brackets, and \<open>%q\<close>, which quotes a
  string as \<open>strconv.Quote\<close> does. A quoted string can be read back, and can be told from
  whatever follows it.
\<close>

section \<open>Padding and slices\<close>

definition newline :: string where "newline = [CHR 0x0A]"

text \<open>\<open>%-6s\<close>: the width counts runes.\<close>

definition pad_right :: "nat \<Rightarrow> string \<Rightarrow> string" where
  "pad_right n s = s @ replicate (n - length (utf8_pieces s)) (CHR '' '')"

text \<open>\<open>%v\<close> of a slice whose elements print as the given texts.\<close>

fun spaced :: "string list \<Rightarrow> string" where
  "spaced [] = ''''"
| "spaced [s] = s"
| "spaced (s # ss) = s @ '' '' @ spaced ss"

definition print_slice :: "string list \<Rightarrow> string" where
  "print_slice ss = ''['' @ spaced ss @ '']''"

section \<open>Quoting\<close>

text \<open>The code point of one UTF-8 sequence.\<close>

fun rune_value :: "string \<Rightarrow> int" where
  "rune_value [a] = of_char a"
| "rune_value [a, b] = (of_char a - 0xC0) * 64 + (of_char b - 0x80)"
| "rune_value [a, b, c] = (of_char a - 0xE0) * 4096 + (of_char b - 0x80) * 64 + (of_char c - 0x80)"
| "rune_value [a, b, c, d] =
     (of_char a - 0xF0) * 262144 + (of_char b - 0x80) * 4096 + (of_char c - 0x80) * 64 + (of_char d - 0x80)"
| "rune_value _ = 0"

text \<open>
  \<open>strconv.IsPrint\<close>: for Latin 1 a rule, above it a table of Unicode, which is the parameter
  \<open>isprint\<close> of everything that quotes.
\<close>

definition IsPrint :: "(int \<Rightarrow> bool) \<Rightarrow> int \<Rightarrow> bool" where
  "IsPrint isprint r =
     (if r \<le> 0xFF then
        (if 0x20 \<le> r \<and> r < 0x7F then True
         else if 0xA1 \<le> r then r \<noteq> 0xAD
         else False)
      else isprint r)"

text \<open>The lower \<open>n\<close> hexadecimal digits.\<close>

fun hex_text :: "nat \<Rightarrow> int \<Rightarrow> string" where
  "hex_text 0 r = []"
| "hex_text (Suc n) r = hex_text n (r div 16) @ [hex_digits ! nat (r mod 16)]"

definition backslash :: char where "backslash = CHR 0x5C"

text \<open>\<open>appendEscapedRune\<close>, with the double quote as the quote.\<close>

definition escaped_rune :: "(int \<Rightarrow> bool) \<Rightarrow> string \<Rightarrow> string" where
  "escaped_rune isprint p =
     (let r = rune_value p in
      if r = 0x22 \<or> r = 0x5C then backslash # p
      else if IsPrint isprint r then p
      else if r = 0x07 then [backslash, CHR ''a'']
      else if r = 0x08 then [backslash, CHR ''b'']
      else if r = 0x0C then [backslash, CHR ''f'']
      else if r = 0x0A then [backslash, CHR ''n'']
      else if r = 0x0D then [backslash, CHR ''r'']
      else if r = 0x09 then [backslash, CHR ''t'']
      else if r = 0x0B then [backslash, CHR ''v'']
      else if r < 0x20 \<or> r = 0x7F then backslash # CHR ''x'' # hex_text 2 r
      else if r < 0x10000 then backslash # CHR ''u'' # hex_text 4 r
      else backslash # CHR ''U'' # hex_text 8 r)"

text \<open>The loop over the string; a stray byte is printed in hexadecimal.\<close>

function quote_body :: "(int \<Rightarrow> bool) \<Rightarrow> string \<Rightarrow> string" where
  "quote_body isprint s =
     (if s = [] then []
      else if rune_width s = 0 then backslash # CHR ''x'' # hex_text 2 (of_char (hd s)) @ quote_body isprint (tl s)
      else escaped_rune isprint (take (rune_width s) s) @ quote_body isprint (drop (rune_width s) s))"
  by pat_completeness auto
termination
proof (relation "measure (length \<circ> snd)")
  fix s :: string and isprint :: "int \<Rightarrow> bool"
  assume "s \<noteq> []" and "rune_width s \<noteq> 0"
  then show "((isprint, drop (rune_width s) s), isprint, s) \<in> measure (length \<circ> snd)"
    by (simp add: diff_less)
qed auto

declare quote_body.simps [simp del]

definition Quote :: "(int \<Rightarrow> bool) \<Rightarrow> string \<Rightarrow> string" where
  "Quote isprint s = CHR 0x22 # quote_body isprint s @ [CHR 0x22]"

section \<open>Reading back\<close>

text \<open>The value of hexadecimal digits.\<close>

fun hex_number :: "string \<Rightarrow> int \<Rightarrow> int option" where
  "hex_number [] v = Some v"
| "hex_number (c # cs) v = (case hex_value c of None \<Rightarrow> None | Some d \<Rightarrow> hex_number cs (v * 16 + d))"

definition read_hex :: "nat \<Rightarrow> (int \<Rightarrow> string) \<Rightarrow> string \<Rightarrow> (string \<times> string) option" where
  "read_hex n enc s =
     (if length s < n then None else map_option (\<lambda>v. (enc v, drop n s)) (hex_number (take n s) 0))"

text \<open>One piece of a quoted string.\<close>

definition read_piece :: "string \<Rightarrow> (string \<times> string) option" where
  "read_piece s =
     (case s of
        [] \<Rightarrow> None
      | c # t \<Rightarrow>
          if c \<noteq> backslash then Some (take (max 1 (rune_width s)) s, drop (max 1 (rune_width s)) s)
          else (case t of
              [] \<Rightarrow> None
            | e # u \<Rightarrow>
                if e = CHR ''x'' then read_hex 2 (\<lambda>v. [char_of v]) u
                else if e = CHR ''u'' then read_hex 4 EncodeRune u
                else if e = CHR ''U'' then read_hex 8 EncodeRune u
                else if e = CHR ''a'' then Some ([CHR 0x07], u)
                else if e = CHR ''b'' then Some ([CHR 0x08], u)
                else if e = CHR ''f'' then Some ([CHR 0x0C], u)
                else if e = CHR ''n'' then Some ([CHR 0x0A], u)
                else if e = CHR ''r'' then Some ([CHR 0x0D], u)
                else if e = CHR ''t'' then Some ([CHR 0x09], u)
                else if e = CHR ''v'' then Some ([CHR 0x0B], u)
                else Some ([e], u)))"

lemma hex_number_append: "hex_number (s @ t) v = Option.bind (hex_number s v) (hex_number t)"
  by (induction s arbitrary: v) (auto split: option.split)

lemma length_hex_text [simp]: "length (hex_text n r) = n"
  by (induction n arbitrary: r) auto

lemma hex_number_text:
  assumes "0 \<le> r" and "r < 16 ^ n"
  shows "hex_number (hex_text n r) 0 = Some r"
  using assms
proof (induction n arbitrary: r)
  case (Suc n)
  have "r div 16 * 16 \<le> r"
    by simp
  with Suc.prems(2) have "r div 16 < 16 ^ n"
    by simp
  then have "hex_number (hex_text n (r div 16)) 0 = Some (r div 16)"
    using Suc by simp
  moreover have "hex_value (hex_digits ! nat (r mod 16)) = Some (r mod 16)"
    using hex_value_digit [of "nat (r mod 16)"] by simp
  ultimately show ?case
    by (simp add: hex_number_append)
qed simp

lemma read_hex_text:
  assumes "0 \<le> r" and "r < 16 ^ n"
  shows "read_hex n enc (hex_text n r @ t) = Some (enc r, t)"
  using hex_number_text [OF assms] by (simp add: read_hex_def)


text \<open>The bytes of a sequence as integers, by its length.\<close>

lemma of_char_bounds [simp]: "0 \<le> (of_char c :: int)" "(of_char c :: int) < 256"
  using of_char_mod_256 [of c, where 'a = int] pos_mod_bound [of 256 "of_char c :: int"]
    pos_mod_sign [of 256 "of_char c :: int"]
  by simp_all

lemma char_int: "\<exists>k. 0 \<le> k \<and> k < 256 \<and> c = char_of (k :: int) \<and> of_char c = k"
  by (rule exI [of _ "of_char c"]) simp

lemma is_rune_cases:
  assumes "is_rune p"
  obtains (one) c where "p = [c]" "c < CHR 0x80"
  | (two) a b :: int where "p = [char_of (0xC0 + a), char_of (0x80 + b)]" "2 \<le> a" "a < 32" "0 \<le> b" "b < 64"
  | (three) a b c :: int where "p = [char_of (0xE0 + a), char_of (0x80 + b), char_of (0x80 + c)]"
      "0 \<le> a" "a < 16" "0 \<le> b" "b < 64" "0 \<le> c" "c < 64" "a = 0 \<longrightarrow> 32 \<le> b"
  | (four) a b c d :: int where "p = [char_of (0xF0 + a), char_of (0x80 + b), char_of (0x80 + c), char_of (0x80 + d)]"
      "0 \<le> a" "a < 5" "0 \<le> b" "b < 64" "0 \<le> c" "c < 64" "0 \<le> d" "d < 64"
      "a = 0 \<longrightarrow> 16 \<le> b" "a = 4 \<longrightarrow> b < 16"
proof -
  obtain x t where p: "p = x # t"
    using assms by (cases p) (auto simp: is_rune_def)
  obtain k where k: "0 \<le> k" "k < 256" "x = char_of (k :: int)"
    using char_int by blast
  obtain n lo hi where lead: "rune_lead x = (n, lo, hi)"
    by (cases "rune_lead x")
  have width: "n = length p" "n \<ge> 2 \<Longrightarrow> lo \<le> t ! 0 \<and> t ! 0 \<le> hi \<and> list_all continuation (take (n - 2) (tl t))"
    using assms p lead by (auto simp: is_rune_def rune_width_def split: if_splits)
  have tail: "\<exists>b. 0 \<le> b \<and> b < 64 \<and> y = char_of (0x80 + b :: int)" if "CHR 0x80 \<le> y" "y \<le> CHR 0xBF" for y
  proof -
    obtain j where j: "0 \<le> j" "j < 256" "y = char_of (j :: int)" "of_char y = j"
      using char_int by blast
    then have "0x80 \<le> j" "j \<le> 0xBF"
      using that by (simp_all add: char_le_int)
    then show ?thesis
      using j by (intro exI [of _ "j - 0x80"]) simp
  qed
  consider "k < 0x80" | "0x80 \<le> k" "k < 0xC2" | "0xC2 \<le> k" "k < 0xE0" | "0xE0 \<le> k" "k < 0xF0"
    | "0xF0 \<le> k" "k < 0xF5" | "0xF5 \<le> k"
    by linarith
  then show ?thesis
  proof cases
    case 1
    then have "n = 1"
      using lead k by (simp add: rune_lead_int)
    then show ?thesis
      using one [of x] p width(1) k 1 by (simp add: char_less_int)
  next
    case 2
    then show ?thesis
      using lead k p width(1) by (simp add: rune_lead_int)
  next
    case 6
    then show ?thesis
      using lead k p width(1) by (simp add: rune_lead_int)
  next
    case 3
    then have l: "n = 2" "lo = CHR 0x80" "hi = CHR 0xBF"
      using lead k by (auto simp: rune_lead_int)
    then obtain y where y: "t = [y]"
      using p width(1) by (cases t) auto
    then obtain b where "0 \<le> b" "b < 64" "y = char_of (0x80 + b :: int)"
      using tail [of y] width(2) l by auto
    then show ?thesis
      using two [of "k - 0xC0" b] p y k 3 by simp
  next
    case 4
    then have l: "n = 3" "CHR 0x80 \<le> lo" "hi \<le> CHR 0xBF" "k = 0xE0 \<Longrightarrow> lo = CHR 0xA0"
      using lead k by (auto simp: rune_lead_int split: if_splits)
    then obtain y z where yz: "t = [y, z]"
      using p width(1) by (cases t; cases "tl t") auto
    have y: "lo \<le> y" "y \<le> hi" "continuation z"
      using width(2) l(1) yz by (auto simp: numeral_eq_Suc)
    then obtain b where b: "0 \<le> b" "b < 64" "y = char_of (0x80 + b :: int)"
      using tail [of y] l(2,3) by (meson order_trans)
    obtain c where c: "0 \<le> c" "c < 64" "z = char_of (0x80 + c :: int)"
      using tail [of z] y(3) by (auto simp: continuation_def)
    have "k = 0xE0 \<longrightarrow> 32 \<le> b"
      using y(1) l(4) b by (auto simp: char_le_int)
    then show ?thesis
      using three [of "k - 0xE0" b c] p yz k 4 b c by simp
  next
    case 5
    then have l: "n = 4" "CHR 0x80 \<le> lo" "hi \<le> CHR 0xBF" "k = 0xF0 \<Longrightarrow> lo = CHR 0x90" "k = 0xF4 \<Longrightarrow> hi = CHR 0x8F"
      using lead k by (auto simp: rune_lead_int split: if_splits)
    then obtain y z w where yz: "t = [y, z, w]"
      using p width(1) by (cases t; cases "tl t"; cases "tl (tl t)") auto
    have y: "lo \<le> y" "y \<le> hi" "continuation z" "continuation w"
      using width(2) l(1) yz by (auto simp: numeral_eq_Suc)
    then obtain b where b: "0 \<le> b" "b < 64" "y = char_of (0x80 + b :: int)"
      using tail [of y] l(2,3) by (meson order_trans)
    obtain c where c: "0 \<le> c" "c < 64" "z = char_of (0x80 + c :: int)"
      using tail [of z] y(3) by (auto simp: continuation_def)
    obtain d where d: "0 \<le> d" "d < 64" "w = char_of (0x80 + d :: int)"
      using tail [of w] y(4) by (auto simp: continuation_def)
    have "k = 0xF0 \<longrightarrow> 16 \<le> b" "k = 0xF4 \<longrightarrow> b < 16"
      using y(1,2) l(4,5) b by (auto simp: char_le_int)
    then show ?thesis
      using four [of "k - 0xF0" b c d] p yz k 5 b c d by simp
  qed
qed

text \<open>The code point determines the sequence.\<close>

lemma sextets:
  assumes "0 \<le> c" and "c < (64 :: int)"
  shows "(x * 64 + c) div 64 = x" and "(x * 64 + c) mod 64 = c"
  using assms by simp_all

lemma of_char_small: "0 \<le> k \<Longrightarrow> k < 256 \<Longrightarrow> of_char (char_of (k :: int)) = k"
  by simp

lemma div_sextets: "(v :: int) div 4096 = v div 64 div 64" "v div 262144 = v div 64 div 64 div 64"
  using zdiv_zmult2_eq [of 64 v 64] zdiv_zmult2_eq [of 64 v 4096] zdiv_zmult2_eq [of 64 "v div 64" 64] by simp_all

lemma rune_value_Encode:
  assumes "is_rune p"
  shows "EncodeRune (rune_value p) = p \<and> 0 \<le> rune_value p \<and> rune_value p < 0x110000 \<and>
    (length p \<noteq> 1 \<longrightarrow> 0x80 \<le> rune_value p)"
  using assms
proof (cases p rule: is_rune_cases)
  case (one c)
  then have "(of_char c :: int) < 0x80"
    by (simp add: char_less_int)
  then show ?thesis
    using one by (simp add: EncodeRune_def)
next
  case (two a b)
  then show ?thesis
    by (simp add: EncodeRune_def)
next
  case (three a b c)
  define v where "v = (a * 64 + b) * 64 + c"
  have "v div 4096 = a" "v div 64 mod 64 = b" "v mod 64 = c"
    using three(4-7) by (simp_all only: v_def div_sextets sextets)
  moreover have "0x800 \<le> v" "v < 0x10000"
    using three(2-8) by (cases "a = 0"; simp add: v_def)+
  moreover have "rune_value p = v"
    using three by (simp add: v_def)
  ultimately show ?thesis
    using three(1) by (simp add: EncodeRune_def)
next
  case (four a b c d)
  define v where "v = ((a * 64 + b) * 64 + c) * 64 + d"
  have parts: "v div 262144 = a" "v div 4096 mod 64 = b" "v div 64 mod 64 = c" "v mod 64 = d"
    using four(4-9) by (simp_all only: v_def div_sextets sextets)
  have low: "0x10000 \<le> v"
    using four(2-10) by (cases "a = 0") (simp_all add: v_def)
  have high: "v < 0x110000"
    using four(2-9,11) by (cases "a = 4") (simp_all add: v_def)
  have bytes: "(of_char (char_of (0xF0 + a)) :: int) = 0xF0 + a" "(of_char (char_of (0x80 + b)) :: int) = 0x80 + b"
      "(of_char (char_of (0x80 + c)) :: int) = 0x80 + c" "(of_char (char_of (0x80 + d)) :: int) = 0x80 + d"
    using four(2-9) by (intro of_char_small; linarith)+
  have val: "rune_value p = v"
    unfolding four(1) rune_value.simps bytes by (simp add: v_def)
  have "EncodeRune v = p"
    using low by (simp only: EncodeRune_def four(1) parts) simp
  then show ?thesis
    using low high val by simp
qed

text \<open>What one sequence, or one stray byte, is printed as can be read back whatever follows.\<close>

lemma is_rune_width: "is_rune p \<Longrightarrow> rune_width (p @ t) = length p"
  using rune_width_prefix [of p "length p" t] by (simp add: is_rune_def)

lemma read_escaped_rune:
  assumes p: "is_rune p"
  shows "read_piece (escaped_rune isprint p @ t) = Some (p, t)"
proof -
  let ?r = "rune_value p"
  note r = rune_value_Encode [OF p]
  have one: "p = [char_of ?r]" if "?r < 0x80"
  proof -
    have "length p = 1"
      using r that by linarith
    then obtain c where "p = [c]"
      by (auto simp: length_Suc_conv)
    then show ?thesis
      by simp
  qed
  consider "?r = 0x22 \<or> ?r = 0x5C" | "?r \<noteq> 0x22" "?r \<noteq> 0x5C" "IsPrint isprint ?r"
    | "?r \<noteq> 0x22" "?r \<noteq> 0x5C" "\<not> IsPrint isprint ?r"
    by blast
  then show ?thesis
  proof cases
    case 1
    then have "p = [CHR 0x22] \<or> p = [backslash]"
      using one by (auto simp: backslash_def char_of_def)
    then show ?thesis
      using 1 by (auto simp: escaped_rune_def read_piece_def backslash_def)
  next
    case 2
    then have "escaped_rune isprint p = p"
      by (simp add: escaped_rune_def Let_def)
    moreover obtain c q where c: "p = c # q"
      using p by (cases p) (auto simp: is_rune_def)
    moreover have "c \<noteq> backslash"
    proof
      assume "c = backslash"
      then have "p = [backslash]"
        using p c is_rune_width [OF p, of "[]"] by (auto simp: backslash_def is_rune_def)
      then show False
        using 2(2) by (simp add: backslash_def)
    qed
    ultimately show ?thesis
      using is_rune_width [OF p, of t] by (simp add: read_piece_def)
  next
    case 3
    show ?thesis
      using 3 one r by (auto simp: escaped_rune_def Let_def read_piece_def read_hex_text IsPrint_def backslash_def
          char_of_def)
  qed
qed

lemma read_stray_byte: "read_piece (backslash # CHR ''x'' # hex_text 2 (of_char c) @ t) = Some ([c], t)"
  by (simp add: read_piece_def read_hex_text)

lemma quote_body_Nil [simp]: "quote_body isprint [] = []"
  by (simp add: quote_body.simps)

text \<open>No piece begins with the closing quote.\<close>

lemma escaped_rune_hd:
  assumes "is_rune p"
  shows "hd (escaped_rune isprint p @ t) \<noteq> CHR 0x22"
proof
  assume hd: "hd (escaped_rune isprint p @ t) = CHR 0x22"
  obtain c q where p: "p = c # q"
    using assms by (cases p) (auto simp: is_rune_def)
  then have "c = CHR 0x22"
    using hd by (auto simp: escaped_rune_def Let_def backslash_def split: if_splits)
  moreover from this have "q = []"
    using assms p by (auto simp: is_rune_def)
  ultimately show False
    using hd p by (simp add: escaped_rune_def backslash_def)
qed

text \<open>The text of a string is its first piece, read back as such, and the text of the rest.\<close>

lemma quote_body_Cons:
  assumes "s \<noteq> []"
  obtains p r where "s = p @ r" "p \<noteq> []" "read_piece (quote_body isprint s @ t) = Some (p, quote_body isprint r @ t)"
    "hd (quote_body isprint s @ t) \<noteq> CHR 0x22"
proof (cases "rune_width s = 0")
  case True
  then have "quote_body isprint s = backslash # CHR ''x'' # hex_text 2 (of_char (hd s)) @ quote_body isprint (tl s)"
    using assms by (simp add: quote_body.simps [of isprint s])
  then show ?thesis
    using that [of "[hd s]" "tl s"] assms read_stray_byte [of "hd s" "quote_body isprint (tl s) @ t"]
    by (simp add: backslash_def)
next
  case False
  let ?p = "take (rune_width s) s"
  have "is_rune ?p"
    using False is_rune_take by simp
  moreover have "quote_body isprint s = escaped_rune isprint ?p @ quote_body isprint (drop (rune_width s) s)"
    using assms False by (simp add: quote_body.simps [of isprint s])
  ultimately show ?thesis
    using that [of ?p "drop (rune_width s) s"] False assms
      read_escaped_rune [of ?p isprint "quote_body isprint (drop (rune_width s) s) @ t"]
      escaped_rune_hd [of ?p isprint "quote_body isprint (drop (rune_width s) s) @ t"]
    by simp
qed

lemma quote_body_inject:
  "quote_body isprint s @ CHR 0x22 # t = quote_body isprint s' @ CHR 0x22 # t' \<longleftrightarrow> s = s' \<and> t = t'"
proof (induction "length s" arbitrary: s s' rule: less_induct)
  case less
  show ?case
  proof (cases "s = [] \<or> s' = []")
    case True
    have "quote_body isprint x @ CHR 0x22 # y \<noteq> CHR 0x22 # z" if "x \<noteq> []" for x y z
      by (rule quote_body_Cons [OF that, of isprint "CHR 0x22 # y"]) auto
    note this this [THEN not_sym]
    then show ?thesis
      using True by (cases "s = []"; cases "s' = []") simp_all
  next
    case False
    then obtain p r where p: "s = p @ r" "p \<noteq> []"
        "read_piece (quote_body isprint s @ CHR 0x22 # t) = Some (p, quote_body isprint r @ CHR 0x22 # t)"
      by (auto elim: quote_body_Cons [of s isprint "CHR 0x22 # t"])
    obtain p' r' where p': "s' = p' @ r'" "p' \<noteq> []"
        "read_piece (quote_body isprint s' @ CHR 0x22 # t') = Some (p', quote_body isprint r' @ CHR 0x22 # t')"
      using False by (auto elim: quote_body_Cons [of s' isprint "CHR 0x22 # t'"])
    have "length r < length s"
      using p(1,2) by simp
    note rest = less [OF this, of r']
    show ?thesis
    proof
      assume "quote_body isprint s @ CHR 0x22 # t = quote_body isprint s' @ CHR 0x22 # t'"
      then have "p = p'" and "quote_body isprint r @ CHR 0x22 # t = quote_body isprint r' @ CHR 0x22 # t'"
        using p(3) p'(3) by (metis option.inject prod.inject)+
      then show "s = s' \<and> t = t'"
        using rest p(1) p'(1) by simp
    qed simp
  qed
qed

lemma Quote_inject: "Quote isprint s @ t = Quote isprint s' @ t' \<longleftrightarrow> s = s' \<and> t = t'"
  using quote_body_inject [of isprint s t s' t'] by (simp add: Quote_def)

section \<open>Quoted strings as UTF-8\<close>

text \<open>Texts that a repair of stray bytes leaves as they are, whatever follows.\<close>

definition kept_utf8 :: "string \<Rightarrow> bool" where
  "kept_utf8 a \<longleftrightarrow> (\<forall>s. to_valid_utf8 (a @ s) = a @ to_valid_utf8 s)"

lemma kept_utf8_Nil [simp]: "kept_utf8 []"
  by (simp add: kept_utf8_def)

lemma kept_utf8_append: "kept_utf8 a \<Longrightarrow> kept_utf8 b \<Longrightarrow> kept_utf8 (a @ b)"
  by (simp add: kept_utf8_def)

lemma kept_utf8_rune: "is_rune p \<Longrightarrow> kept_utf8 p"
  by (simp add: kept_utf8_def to_valid_utf8_def utf8_pieces_rune is_rune_width is_rune_def)

lemma kept_utf8_ascii: "c < CHR 0x80 \<Longrightarrow> kept_utf8 a \<Longrightarrow> kept_utf8 (c # a)"
  using kept_utf8_append [OF kept_utf8_rune [OF is_rune_ascii]] by fastforce

lemma kept_utf8_hex: "kept_utf8 (hex_text n r)"
proof (induction n arbitrary: r)
  case (Suc n)
  have "hex_digits ! i < CHR 0x80" if "i < 16" for i
  proof -
    have "list_all (\<lambda>c. c < CHR 0x80) hex_digits" and "length hex_digits = 16"
      by (simp_all add: hex_digits_def)
    then show ?thesis
      using that by (simp add: list_all_length)
  qed
  then show ?case
    using Suc by (auto intro!: kept_utf8_append kept_utf8_ascii simp: nat_less_iff)
qed simp

lemma kept_utf8_escaped:
  assumes "is_rune p"
  shows "kept_utf8 (escaped_rune isprint p)"
  using kept_utf8_rune [OF assms]
  by (auto simp: escaped_rune_def Let_def backslash_def intro!: kept_utf8_ascii kept_utf8_hex)

lemma kept_utf8_quote_body: "kept_utf8 (quote_body isprint s)"
proof (induction isprint s rule: quote_body.induct)
  case (1 isprint s)
  show ?case
    using 1 unfolding quote_body.simps [of isprint s]
    by (auto simp: backslash_def intro!: kept_utf8_ascii kept_utf8_append kept_utf8_hex kept_utf8_escaped is_rune_take)
qed

lemma kept_utf8_Quote: "kept_utf8 (Quote isprint s)"
  by (auto simp: Quote_def intro!: kept_utf8_ascii kept_utf8_append kept_utf8_quote_body)

end
