(* ===== verification/Error_Text.thy ===== *)
theory Error_Text
  imports Go_Format Http_Properties
begin

text \<open>
  The texts of the errors of \<open>model\<close>, \<open>store\<close>, \<open>authz\<close> and \<open>middleware\<close>, and the JSON text of the
  body that the guards answer with by default. A client that parses the body of a denial gets
  the text of the denial back, and can tell from it who lacked which permission.
\<close>

section \<open>Texts of errors\<close>

text \<open>\<open>PermissionDeniedError.Error\<close>. The user and the permission are quoted, the roles are not.\<close>

definition denied_text :: "(int \<Rightarrow> bool) \<Rightarrow> user_id \<Rightarrow> permission \<Rightarrow> role_id list \<Rightarrow> string" where
  "denied_text isprint uid required roles =
     ''libauth: user '' @ Quote isprint uid @ '' lacks permission '' @
     Quote isprint (Permission_String required) @ '' (roles: '' @ print_slice roles @ '')''"

text \<open>An error made by other code, and one that wraps another, carry their text.\<close>

fun Error_text :: "(int \<Rightarrow> bool) \<Rightarrow> lib_error \<Rightarrow> string" where
  "Error_text isprint ErrUserNotFound = ''libauth: user not found''"
| "Error_text isprint ErrRoleNotFound = ''libauth: role not found''"
| "Error_text isprint ErrUserExists = ''libauth: user already exists''"
| "Error_text isprint ErrRoleExists = ''libauth: role already exists''"
| "Error_text isprint ErrEmptyName = ''libauth: empty name''"
| "Error_text isprint ErrPermissionDenied = ''libauth: permission denied''"
| "Error_text isprint ErrInvalidPermission = ''libauth: invalid permission''"
| "Error_text isprint ErrCyclicInheritance = ''libauth: cyclic role inheritance''"
| "Error_text isprint ErrInheritanceDepth = ''libauth: role inheritance too deep''"
| "Error_text isprint ErrInvalidIdentityFunc = ''libauth: identity func is required''"
| "Error_text isprint (PermissionDeniedError uid u required roles) = denied_text isprint uid required roles"
| "Error_text isprint (ErrForeign msg) = msg"
| "Error_text isprint (ErrWrap msg err) = msg"

text \<open>The errors of \<open>ParsePermission\<close>.\<close>

fun parse_error_text :: "(int \<Rightarrow> bool) \<Rightarrow> parse_error \<Rightarrow> string" where
  "parse_error_text isprint EmptyPermission = ''empty permission''"
| "parse_error_text isprint (MissingAction s) = ''permission '' @ Quote isprint s @ '': missing action''"
| "parse_error_text isprint (EmptyResource s) = ''permission '' @ Quote isprint s @ '': empty resource''"
| "parse_error_text isprint (EmptyAction s) = ''permission '' @ Quote isprint s @ '': empty action''"

section \<open>Texts of bodies\<close>

text \<open>What \<open>fail\<close> encodes: a map, whose keys are printed in order.\<close>

definition failure_json :: "(int \<Rightarrow> bool) \<Rightarrow> lib_error \<Rightarrow> int \<Rightarrow> json" where
  "failure_json isprint err status =
     JObject [(''error'', JString (Error_text isprint err)), (''status'', JNumber (FormatInt status))]"

text \<open>\<open>json.Encoder.Encode\<close> ends the value with a line break.\<close>

fun body_text :: "(int \<Rightarrow> bool) \<Rightarrow> body_part \<Rightarrow> string" where
  "body_text isprint (FailureBody err status) = print_json (failure_json isprint err status) @ newline"
| "body_text isprint (JsonBody v) = print_json v @ newline"

lemma stops_newline: "stops newline"
  by (simp add: newline_def stops_Cons is_digit_def)

lemma json_body_parses:
  "numbers_valid v \<Longrightarrow> json_depth v \<le> max_nesting \<Longrightarrow>
     parse_value (body_text isprint (JsonBody v)) = Some (tidy v, newline)"
  using parse_value_print stops_newline by simp

lemma failure_body_parses:
  "parse_value (body_text isprint (FailureBody err status)) =
     Some (JObject [(''error'', JString (to_valid_utf8 (Error_text isprint err))),
                    (''status'', JNumber (FormatInt status))], newline)"
proof -
  show ?thesis
    using stops_newline parse_value_print [of "failure_json isprint err status" newline]
    by (simp add: failure_json_def FormatInt_number max_nesting_def tidy_member_def to_valid_utf8_same)
qed

section \<open>What a denial says\<close>

lemma kept_utf8_literal: "list_all (\<lambda>c. c < CHR 0x80) a \<Longrightarrow> kept_utf8 a"
  by (induction a) (auto intro: kept_utf8_ascii)

lemma denied_text_utf8:
  "to_valid_utf8 (denied_text isprint uid p rs) =
     ''libauth: user '' @ Quote isprint uid @ '' lacks permission '' @
     Quote isprint (Permission_String p) @ '' (roles: '' @ to_valid_utf8 (print_slice rs @ '')'')"
proof -
  have "kept_utf8 (''libauth: user '' @ Quote isprint uid @ '' lacks permission '' @
     Quote isprint (Permission_String p) @ '' (roles: '')"
    by (intro kept_utf8_append kept_utf8_Quote kept_utf8_literal) simp_all
  then show ?thesis
    unfolding denied_text_def kept_utf8_def by (metis append.assoc)
qed

text \<open>Whatever the roles are, the text of a denial names the user and the permission.\<close>

lemma denied_text_inject:
  "to_valid_utf8 (denied_text isprint uid p rs) = to_valid_utf8 (denied_text isprint uid' p' rs') \<longleftrightarrow>
     uid = uid' \<and> Permission_String p = Permission_String p' \<and>
     to_valid_utf8 (print_slice rs @ '')'') = to_valid_utf8 (print_slice rs' @ '')'')"
  unfolding denied_text_utf8 same_append_eq Quote_inject by simp

text \<open>The roles it does not name: two lists can be printed alike.\<close>

lemma denied_roles_ambiguous:
  "denied_text isprint uid p [''a'', ''b''] = denied_text isprint uid p [''a b'']"
  by (simp add: denied_text_def print_slice_def)

text \<open>C24: The answer to a denied request says who lacks what. After safe operations, a guard with the
default error handler answers a stored user who is not allowed the first missing permission with status
403 and a body whose JSON text parses as an object of a message and the status. The message is the text
of the denial, and it determines the user and the printed permission: no denial of another user or
of a permission that prints otherwise has it, whatever bytes their names contain.\<close>

theorem denial_names_user_and_permission:
  assumes e: "safe_reachable ms_users ms_roles memory_ops (fresh_enforcer depths) e"
    and mw: "mw_manager mw = mem_authorizer" "mw_OnError mw = None"
    and r: "\<not> alreadyResolved (req_ctx r)" "mw_identity mw r = Inr uid" and w: "rs_sent w = None"
    and u: "fmlookup (ms_users (e_store e)) uid = Some u"
    and q: "find (\<lambda>p. \<not> allowed (ms_roles (e_store e)) u p) ps = Some q"
  shows "\<exists>w' e' body msg. RequireAll mw ps next_h w r e = Some (w', e') \<and>
    map_option fst (rs_sent w') = Some 403 \<and> rs_body w' = rs_body w @ [body] \<and>
    parse_value (body_text isprint body) =
      Some (JObject [(''error'', JString msg), (''status'', JNumber ''403'')], newline) \<and>
    msg = to_valid_utf8 (denied_text isprint uid q
      (sorted_list_of_set (effective_roles (ms_roles (e_store e)) (Roles u)))) \<and>
    (\<forall>uid' q' roles'. to_valid_utf8 (denied_text isprint uid' q' roles') = msg \<longrightarrow>
       uid' = uid \<and> Permission_String q' = Permission_String q)"
proof -
  have id: "ID u = uid"
    using fresh_safe_coherent [OF e] mem.user_key_same u by blast
  have verdict: "identified (ms_users (e_store e)) (mw_identity mw) r
      (judge_all (ms_users (e_store e)) (allowed (ms_roles (e_store e))) (stored_denial e) ps) =
    Deny 403 (stored_denial e u q)"
    using r u q id by (simp add: identified_def judge_all_def)
  obtain e' where "RequireAll mw ps next_h w r e = fail mw 403 (stored_denial e u q) w r e'"
    using mem.guards.RequireAll_correct [OF fresh_guards_good [OF e] mw(1), of ps next_h w r] verdict by auto
  moreover have "FormatInt 403 = ''403''"
    by code_simp
  ultimately show ?thesis
    using mw(2) w id failure_body_parses [of isprint "stored_denial e u q" 403]
    by (simp add: fail_def WriteHeader_def Let_def denied_text_inject)
qed

lemma denial_names_user_and_permission_witness:
  "\<exists>w' e' body msg.
     RequireAll demo_mw [perm ''article'' ''edit'', perm ''article'' ''delete''] teapot blank
       (request_of ''bob'') (after staff) = Some (w', e') \<and>
     rs_body w' = [body] \<and>
     parse_value (body_text (\<lambda>r. True) body) =
       Some (JObject [(''error'', JString msg), (''status'', JNumber ''403'')], newline) \<and>
     (\<forall>uid' q' roles'. to_valid_utf8 (denied_text (\<lambda>r. True) uid' q' roles') = msg \<longrightarrow>
        uid' = ''bob'' \<and> Permission_String q' = ''article:delete'')"
proof -
  let ?u = "\<lparr>ID = ''bob'', Roles = [''editor''], Direct = []\<rparr>"
  let ?edit = "perm ''article'' ''edit''" and ?delete = "perm ''article'' ''delete''"
  have bob: "fmlookup (ms_users (e_store (after staff))) ''bob'' = Some ?u"
    by code_simp
  have answers: "map_option fst (HasPermission memory_ops ''bob'' ?edit (after staff)) = Some (Inr True)"
      "map_option fst (HasPermission memory_ops ''bob'' ?delete (after staff)) = Some (Inr False)"
    by code_simp+
  have "map_option fst (HasPermission memory_ops ''bob'' q (after staff)) =
      Some (Inr (allowed (ms_roles (e_store (after staff))) ?u q))" for q
    using mem.HasPermission_correct [of "after staff" "''bob''" q] bob
      fresh_safe_coherent [OF safely_reachable [OF safely_staff]] by (auto simp: cache_coherent_def)
  note this [THEN sym, THEN trans, OF answers(1)] this [THEN sym, THEN trans, OF answers(2)]
  then have "find (\<lambda>p. \<not> allowed (ms_roles (e_store (after staff))) ?u p) [?edit, ?delete] = Some ?delete"
    by simp
  moreover have "\<not> alreadyResolved (req_ctx (request_of ''bob''))" "mw_identity demo_mw (request_of ''bob'') = Inr ''bob''"
      "mw_OnError demo_mw = None" "rs_sent blank = None" "rs_body blank = []" "Permission_String ?delete = ''article:delete''"
    by code_simp+
  ultimately show ?thesis
    using denial_names_user_and_permission [OF safely_reachable [OF safely_staff] demo_manager _ _ _ _ bob,
        of "request_of ''bob''" blank "[?edit, ?delete]" ?delete teapot "\<lambda>r. True"]
    by auto
qed

end
