(* ===== verification/App_Server.thy ===== *)
theory App_Server
  imports Http_Properties Jwt_Token Libauth_Api
begin

text \<open>
  What the example servers \<open>_examples/example01\<close> and \<open>_examples/jwtauth\<close> share: the enforcer
  behind their guards together with a table of articles, JSON responses and request bodies,
  and the handlers on articles. A handler holds the mutex of the table while it runs, so it
  is one step. The body of a request is read without an error.
\<close>

section \<open>State\<close>

record article =
  article_ID :: int
  article_Title :: string

record server =
  sv_enforcer :: "memory_store enforcer"
  sv_nextID :: int
  sv_articles :: "(int, article) gomap"

definition new_server :: "memory_store enforcer \<Rightarrow> server" where
  "new_server m = \<lparr>sv_enforcer = m, sv_nextID = 1, sv_articles = fmempty\<rparr>"

text \<open>The enforcer as the authorizer of guards that run on the state of the server.\<close>

definition server_authorizer :: "server authorizer_ops" where
  "server_authorizer =
     \<lparr>au_Check = (\<lambda>uid p s. map_option (\<lambda>(err, e). (err, s\<lparr>sv_enforcer := e\<rparr>))
        (Check memory_ops uid p (sv_enforcer s))),
      au_HasPermission = (\<lambda>uid p s. map_option (\<lambda>(res, e). (res, s\<lparr>sv_enforcer := e\<rparr>))
        (HasPermission memory_ops uid p (sv_enforcer s))),
      au_HasRole = (\<lambda>uid role s. (case HasRole memory_ops uid role (sv_enforcer s) of
        (res, e) \<Rightarrow> (res, s\<lparr>sv_enforcer := e\<rparr>))),
      au_GetUser = (\<lambda>uid s. GetUser memory_ops uid (sv_enforcer s))\<rparr>"

abbreviation sv_users :: "server \<Rightarrow> (user_id, user) gomap" where
  "sv_users s \<equiv> ms_users (e_store (sv_enforcer s))"

abbreviation sv_roles :: "server \<Rightarrow> (role_id, role) gomap" where
  "sv_roles s \<equiv> ms_roles (e_store (sv_enforcer s))"

text \<open>The servers' guards are guards of a lawful authorizer: they change caches only.\<close>

definition sv_fills :: "server \<Rightarrow> server \<Rightarrow> bool" where
  "sv_fills s s' \<longleftrightarrow>
     fills (sv_users s) (sv_roles s) (sv_enforcer s) (sv_enforcer s') \<and>
     sv_nextID s' = sv_nextID s \<and> sv_articles s' = sv_articles s"

definition sv_good :: "server \<Rightarrow> bool" where
  "sv_good s \<longleftrightarrow>
     memory_ok (e_store (sv_enforcer s)) \<and>
     enforcer_inv (sv_users s) (sv_roles s) (sv_enforcer s) \<and>
     cache_coherent (sv_users s) (sv_roles s) (sv_enforcer s)"

interpretation sv: authorizer server_authorizer sv_users
  "\<lambda>s u q. allowed (sv_roles s) u q" "\<lambda>s. stored_denial (sv_enforcer s)" sv_fills sv_good
proof (unfold_locales, goal_cases)
  case (1 s s')
  then show ?case
    using mem.guards.same_good [of "sv_enforcer s" "sv_enforcer s'"]
    by (simp add: sv_fills_def sv_good_def)
next
  case (3 s s' s'')
  then show ?case
    using mem.guards.same_trans [of "sv_enforcer s" "sv_enforcer s'" "sv_enforcer s''"]
    by (simp add: sv_fills_def)
next
  case (9 s uid p)
  then obtain m where "fills (sv_users s) (sv_roles s) (sv_enforcer s) m"
      and "Check memory_ops uid p (sv_enforcer s) = Some (case fmlookup (sv_users s) uid of None \<Rightarrow> Some ErrUserNotFound
       | Some u \<Rightarrow> if allowed (sv_roles s) u p then None else Some (stored_denial (sv_enforcer s) u p), m)"
    using mem.guards.au_check [of "sv_enforcer s" uid p]
    by (auto simp: sv_good_def enforcer_authorizer_def)
  then show ?case
    by (intro exI [of _ "s\<lparr>sv_enforcer := m\<rparr>"]) (simp add: sv_fills_def server_authorizer_def)
next
  case (10 s uid p)
  then obtain m where "fills (sv_users s) (sv_roles s) (sv_enforcer s) m"
      and "HasPermission memory_ops uid p (sv_enforcer s) = Some (case fmlookup (sv_users s) uid of None \<Rightarrow> Inl ErrUserNotFound
       | Some u \<Rightarrow> Inr (allowed (sv_roles s) u p), m)"
    using mem.guards.au_has [of "sv_enforcer s" uid p]
    by (auto simp: sv_good_def enforcer_authorizer_def)
  then show ?case
    by (intro exI [of _ "s\<lparr>sv_enforcer := m\<rparr>"]) (simp add: sv_fills_def server_authorizer_def)
next
  case (11 s uid role)
  then obtain m where "fills (sv_users s) (sv_roles s) (sv_enforcer s) m"
      and "HasRole memory_ops uid role (sv_enforcer s) = (case fmlookup (sv_users s) uid of None \<Rightarrow> Inl ErrUserNotFound
       | Some u \<Rightarrow> Inr (role \<in> set (Roles u)), m)"
    using mem.guards.au_role [of "sv_enforcer s" uid role]
    by (auto simp: sv_good_def enforcer_authorizer_def)
  then show ?case
    by (intro exI [of _ "s\<lparr>sv_enforcer := m\<rparr>"]) (simp add: sv_fills_def server_authorizer_def)
qed (use mem.guards.same_refl mem.guards.same_users mem.guards.same_permits mem.guards.same_denial
    mem.guards.au_get in \<open>auto simp: sv_fills_def sv_good_def server_authorizer_def enforcer_authorizer_def\<close>)


section \<open>Responses\<close>

definition writeJSON :: "int \<Rightarrow> json \<Rightarrow> response \<Rightarrow> response" where
  "writeJSON status v w =
     (let w = w\<lparr>rs_header := Header_Set ''Content-Type'' ''application/json; charset=utf-8'' (rs_header w)\<rparr>;
          w = WriteHeader status w
      in w\<lparr>rs_body := rs_body w @ [JsonBody v]\<rparr>)"

definition error_json :: "string \<Rightarrow> json" where
  "error_json msg = JObject [(''error'', JString msg)]"

definition article_json :: "article \<Rightarrow> json" where
  "article_json a = JObject [(''id'', JNumber (FormatInt (article_ID a))), (''title'', JString (article_Title a))]"

text \<open>A slice of a user read from the memory store is \<open>nil\<close> when it is empty, so its roles are
\<open>null\<close> then; permissions are encoded by \<open>MarshalText\<close>.\<close>

definition user_json :: "user \<Rightarrow> json" where
  "user_json u = JObject
     ([(''id'', JString (ID u)),
       (''roles'', if Roles u = [] then JNull else JArray (map JString (Roles u)))] @
      (if Direct u = [] then []
       else [(''direct'', JArray (map (\<lambda>p. JString (Permission_String p)) (Direct u)))]))"

section \<open>Request bodies\<close>

text \<open>
  \<open>json.NewDecoder(r.Body).Decode(&in)\<close> for a struct \<open>in\<close> with one string field: the first
  JSON value of the body is decoded and the rest is not looked at. Names of members match
  without regard to case, where the long s and the Kelvin sign count as letters.
\<close>

definition fold_rune :: "string option \<Rightarrow> string" where
  "fold_rune p =
     (case p of
        None \<Rightarrow> rune_error
      | Some r \<Rightarrow>
          if r = [CHR 0xC5, CHR 0xBF] then ''s''
          else if r = [CHR 0xE2, CHR 0x84, CHR 0xAA] then ''k''
          else map lower_char r)"

definition foldName :: "string \<Rightarrow> string" where
  "foldName k = concat (map fold_rune (utf8_pieces k))"

fun decode_members :: "string \<Rightarrow> (string \<times> json) list \<Rightarrow> string \<Rightarrow> string option" where
  "decode_members field [] out = Some out"
| "decode_members field ((k, v) # ms) out =
     (if foldName k = field then Option.bind (into_string v out) (decode_members field ms)
      else decode_members field ms out)"

definition decode_field :: "string \<Rightarrow> string \<Rightarrow> string option" where
  "decode_field field body =
     (case parse_value body of
        Some (JObject ms, _) \<Rightarrow> decode_members field ms ''''
      | Some (JNull, _) \<Rightarrow> Some ''''
      | _ \<Rightarrow> None)"

lemma decode_members_valid:
  "decode_members field ms out = Some s \<Longrightarrow> valid_utf8 out \<Longrightarrow> list_all (\<lambda>m. sound_json (snd m)) ms \<Longrightarrow> valid_utf8 s"
  by (induction field ms out rule: decode_members.induct)
    (auto simp: into_string_def bind_eq_Some_conv split: if_splits json.splits)

text \<open>Whatever the body, a field that is read from it is UTF-8.\<close>

lemma decode_field_valid:
  assumes "decode_field field body = Some s"
  shows "valid_utf8 s"
proof -
  have "list_all (\<lambda>m. sound_json (snd m)) ms" if "parse_value body = Some (JObject ms, rest)" for ms rest
    using parse_value_sound [OF that] by (auto simp: list_all_iff)
  then show ?thesis
    using assms by (auto simp: decode_field_def split: option.splits prod.splits json.splits
        dest: decode_members_valid)
qed

section \<open>Handlers on articles\<close>

text \<open>The listing ranges over the map; \<open>ord\<close> is the order of its keys.\<close>

definition list_articles :: "(int goset \<Rightarrow> int list) \<Rightarrow> server handler" where
  "list_articles ord w r s =
     (let out = map (\<lambda>i. the (fmlookup (sv_articles s) i)) (ord (fmdom (sv_articles s)))
      in Some (writeJSON 200 (JArray (map article_json out)) w, s))"

definition create_article :: "server handler" where
  "create_article w r s =
     (case decode_field ''title'' (req_body r) of
        None \<Rightarrow> Some (writeJSON 400 (error_json ''invalid JSON body'') w, s)
      | Some title \<Rightarrow>
          let a = \<lparr>article_ID = sv_nextID s, article_Title = title\<rparr>;
              s = s\<lparr>sv_nextID := wrap64 (sv_nextID s + 1)\<rparr>;
              s = s\<lparr>sv_articles := fmupd (article_ID a) a (sv_articles s)\<rparr>
          in Some (writeJSON 201 (article_json a) w, s))"

text \<open>An \<open>int\<close> has 64 bits, so \<open>strconv.Atoi\<close> reads what \<open>ParseInt\<close> reads.\<close>

definition remove_article :: "server handler" where
  "remove_article w r s =
     (case ParseInt (PathValue r ''id'') of
        None \<Rightarrow> Some (writeJSON 400 (error_json ''invalid article id'') w, s)
      | Some i \<Rightarrow>
     (case fmlookup (sv_articles s) i of
        None \<Rightarrow> Some (writeJSON 404 (error_json ''article not found'') w, s)
      | Some _ \<Rightarrow> Some (WriteHeader 204 w, s\<lparr>sv_articles := fmdrop i (sv_articles s)\<rparr>)))"

section \<open>Seeding\<close>

text \<open>
  The loops of \<open>seed\<close>; they stop the program at the first error (\<open>log.Fatal\<close>). The users are
  the keys of a map literal, so their order is unspecified.
\<close>

fun seed_roles ::
  "(role_id \<times> permission list \<times> role_id) list \<Rightarrow> memory_store enforcer \<Rightarrow> memory_store enforcer option" where
  "seed_roles [] m = Some m"
| "seed_roles ((name, permissions, parent) # rs) m =
     (case CreateRole memory_ops name permissions parent m of
        (Some err, m) \<Rightarrow> None
      | (None, m) \<Rightarrow> seed_roles rs m)"

fun seed_users ::
  "(user_id \<times> role_id list) list \<Rightarrow> memory_store enforcer \<Rightarrow> memory_store enforcer option" where
  "seed_users [] m = Some m"
| "seed_users ((uid, roles) # us) m =
     (case CreateUser memory_ops uid roles m of
        (Some err, m) \<Rightarrow> None
      | (None, m) \<Rightarrow> seed_users us m)"


abbreviation safe_from_start :: "memory_store enforcer \<Rightarrow> bool" where
  "safe_from_start \<equiv> safe_reachable ms_users ms_roles memory_ops start"

lemma safe_exec:
  assumes "safe_from_start e" and "cache_safe (ms_users (e_store e)) (ms_roles (e_store e)) c"
    and "exec sorted_list_of_fset memory_ops c e = Some e'"
  shows "safe_from_start e'"
  by (rule safe_step [OF assms(1,2)]) (rule enf_step [OF go_range_sorted assms(3)])

lemma CreateRole_users: "ms_users (e_store (snd (CreateRole memory_ops name ps parent e))) = ms_users (e_store e)"
  by (simp add: CreateRole_def memory_ops_def CreateRole_mem_def Let_def split: option.split)

lemma CreateUser_new:
  assumes "memory_ok (e_store e)" and "uid \<noteq> ''''" and "fmlookup (ms_users (e_store e)) uid = None"
  shows "fst (CreateUser memory_ops uid roles e) = None"
    and "ms_roles (e_store (snd (CreateUser memory_ops uid roles e))) = ms_roles (e_store e)"
    and "ms_users (e_store (snd (CreateUser memory_ops uid roles e))) =
      fmupd uid \<lparr>ID = uid, Roles = roles, Direct = []\<rparr> (ms_users (e_store e))"
proof -
  have frame: "e_store (setDirectRoles uid roles x) = e_store x"
      "e_store (foldl (\<lambda>e role. grantHolder uid role e) x roles) = e_store x" for x :: "memory_store enforcer"
    by (simp_all add: frame_simps)
  show "fst (CreateUser memory_ops uid roles e) = None"
    "ms_roles (e_store (snd (CreateUser memory_ops uid roles e))) = ms_roles (e_store e)"
    "ms_users (e_store (snd (CreateUser memory_ops uid roles e))) =
      fmupd uid \<lparr>ID = uid, Roles = roles, Direct = []\<rparr> (ms_users (e_store e))"
    using assms by (simp_all add: CreateUser_def memory_ops_def CreateUser_mem_def frame cloneUser_def Let_def)
qed

text \<open>Roles come first, while there are no users, so no cached set can go out of date.\<close>

lemma seed_roles_safe:
  assumes "seed_roles rs e = Some e'" and "safe_from_start e" and "ms_users (e_store e) = fmempty"
  shows "safe_from_start e' \<and> ms_users (e_store e') = fmempty"
  using assms
proof (induction rs e rule: seed_roles.induct)
  case (2 name ps parent rs m)
  let ?m = "snd (CreateRole memory_ops name ps parent m)"
  have "safe_from_start ?m"
    by (rule safe_exec [OF "2.prems"(2), of "CmdCreateRole name ps parent"])
      (simp_all add: "2.prems"(3) unheld_def)
  then show ?case
    using 2 CreateRole_users [of name ps parent m]
    by (auto split: prod.splits option.splits)
qed simp

text \<open>The stored users are those of the list, whatever its order.\<close>

lemma seed_users_stored:
  assumes "distinct (map fst us)" and "'''' \<notin> fst ` set us" and "safe_from_start e"
    and "\<And>uid. uid \<in> fst ` set us \<Longrightarrow> fmlookup (ms_users (e_store e)) uid = None"
  shows "\<exists>e'. seed_users us e = Some e' \<and> safe_from_start e' \<and>
    ms_roles (e_store e') = ms_roles (e_store e) \<and>
    (\<forall>uid. fmlookup (ms_users (e_store e')) uid =
       (case map_of us uid of Some roles \<Rightarrow> Some \<lparr>ID = uid, Roles = roles, Direct = []\<rparr>
        | None \<Rightarrow> fmlookup (ms_users (e_store e)) uid))"
  using assms
proof (induction us arbitrary: e)
  case (Cons x us)
  obtain uid roles where x: "x = (uid, roles)"
    by (cases x)
  let ?e = "snd (CreateUser memory_ops uid roles e)"
  have "memory_ok (e_store e)"
    using fresh_safe_coherent [OF Cons.prems(3)] by blast
  moreover have "uid \<noteq> ''''" "fmlookup (ms_users (e_store e)) uid = None"
    using Cons.prems(2) Cons.prems(4) [of uid] x by auto
  ultimately have new: "fst (CreateUser memory_ops uid roles e) = None"
      "ms_roles (e_store ?e) = ms_roles (e_store e)"
      "ms_users (e_store ?e) = fmupd uid \<lparr>ID = uid, Roles = roles, Direct = []\<rparr> (ms_users (e_store e))"
    using CreateUser_new by blast+
  have safe: "safe_from_start ?e"
    by (rule safe_exec [OF Cons.prems(3), of "CmdCreateUser uid roles"]) simp_all
  have "\<exists>e'. seed_users us ?e = Some e' \<and> safe_from_start e' \<and>
      ms_roles (e_store e') = ms_roles (e_store ?e) \<and>
      (\<forall>uid. fmlookup (ms_users (e_store e')) uid =
         (case map_of us uid of Some roles \<Rightarrow> Some \<lparr>ID = uid, Roles = roles, Direct = []\<rparr>
          | None \<Rightarrow> fmlookup (ms_users (e_store ?e)) uid))"
  proof (rule Cons.IH [OF _ _ safe])
    fix v
    assume "v \<in> fst ` set us"
    moreover from this have "v \<noteq> uid"
      using Cons.prems(1) x by auto
    ultimately show "fmlookup (ms_users (e_store ?e)) v = None"
      using Cons.prems(4) [of v] x new by simp
  qed (use Cons.prems x in simp_all)
  then obtain e' where e': "seed_users us ?e = Some e'" "safe_from_start e'"
      "ms_roles (e_store e') = ms_roles (e_store ?e)"
      and users: "\<And>v. fmlookup (ms_users (e_store e')) v =
        (case map_of us v of Some roles \<Rightarrow> Some \<lparr>ID = v, Roles = roles, Direct = []\<rparr>
         | None \<Rightarrow> fmlookup (ms_users (e_store ?e)) v)"
    by blast
  have "map_of us uid = None"
    using Cons.prems(1) x by (auto simp: map_of_eq_None_iff)
  then have "fmlookup (ms_users (e_store e')) v =
      (case map_of (x # us) v of Some roles \<Rightarrow> Some \<lparr>ID = v, Roles = roles, Direct = []\<rparr>
       | None \<Rightarrow> fmlookup (ms_users (e_store e)) v)" for v
    using users [of v] by (simp add: x new split: option.split)
  moreover have "seed_users (x # us) e = Some e'"
    using e'(1) new(1) by (cases "CreateUser memory_ops uid roles e") (simp add: x)
  ultimately show ?case
    using e'(2,3) new(2) by auto
qed simp


section \<open>A guarded request\<close>

text \<open>The default answer to a request that is turned away.\<close>

definition failed :: "int \<Rightarrow> lib_error \<Rightarrow> response \<Rightarrow> response" where
  "failed status err w =
     (let w = w\<lparr>rs_header := Header_Set ''Content-Type'' ''application/json; charset=utf-8'' (rs_header w)\<rparr>;
          w = WriteHeader status w
      in w\<lparr>rs_body := rs_body w @ [FailureBody err status]\<rparr>)"

definition server_mw :: "identity_func \<Rightarrow> server middleware" where
  "server_mw ident = \<lparr>mw_manager = server_authorizer, mw_identity = ident, mw_OnError = None\<rparr>"

lemma server_mw_New:
  "libauth_NewMiddleware (Some server_authorizer) (Some ident) = Inr (server_mw ident)"
  by (simp add: libauth_NewMiddleware_def NewMiddleware_def server_mw_def)

lemma sv_user_key: "sv_good s \<Longrightarrow> fmlookup (sv_users s) uid = Some u \<Longrightarrow> ID u = uid"
  using mem.user_key by (auto simp: sv_good_def)

text \<open>
  What a guard of the servers makes of a request as it comes in, with nothing in its context:
  it turns the request away, or runs the handler as the stored user who is asking.
\<close>

lemma sv_require:
  assumes good: "sv_good s" and ctx: "req_ctx r = []"
  shows "\<exists>s1. sv_fills s s1 \<and> Require (server_mw ident) p h w r s =
    (case ident r of
       Inl err \<Rightarrow> Some (failed 401 err w, s1)
     | Inr uid \<Rightarrow>
    (case fmlookup (sv_users s) uid of
       None \<Rightarrow> Some (failed 401 ErrUserNotFound w, s1)
     | Some u \<Rightarrow>
         if allowed (sv_roles s) u p then h w (r\<lparr>req_ctx := WithUser [] (Some u)\<rparr>) s1
         else Some (failed 403 (stored_denial (sv_enforcer s) u p) w, s1)))"
proof -
  have fail: "fail (server_mw ident) status err w r s1 = Some (failed status err w, s1)" for status err s1
    by (simp add: fail_def server_mw_def failed_def Let_def)
  have next_h: "serve_next h u w r s1 = h w (r\<lparr>req_ctx := WithUser [] (Some u)\<rparr>) s1" for u s1
    by (simp add: serve_next_def ctx)
  obtain s1 where "sv_fills s s1" and req: "Require (server_mw ident) p h w r s =
      answer (server_mw ident) h (identified (sv_users s) ident r
        (judge_all (sv_users s) (allowed (sv_roles s)) (stored_denial (sv_enforcer s)) [p])) w r s1"
    using sv.Require_correct [OF good, of "server_mw ident" p h w r] by (auto simp: server_mw_def)
  moreover have "fmlookup (sv_users s) uid = Some u \<Longrightarrow> ID u = uid" for uid u
    by (rule sv_user_key [OF good])
  ultimately show ?thesis
    by (intro exI [of _ s1])
      (auto simp: identified_def alreadyResolved_def ctx judge_all_def fail next_h
        split: sum.split option.split)
qed

lemma sv_fills_frame:
  assumes "sv_fills s s'"
  shows "sv_users s' = sv_users s" "sv_roles s' = sv_roles s" "sv_nextID s' = sv_nextID s"
    "sv_articles s' = sv_articles s" "sv_good s \<Longrightarrow> sv_good s'"
proof -
  have "e_store (sv_enforcer s') = e_store (sv_enforcer s)"
    using assms fills_frame(1) unfolding sv_fills_def by blast
  then show "sv_users s' = sv_users s" "sv_roles s' = sv_roles s"
    by simp_all
  show "sv_nextID s' = sv_nextID s" "sv_articles s' = sv_articles s"
    using assms by (simp_all add: sv_fills_def)
  show "sv_good s'" if "sv_good s"
    using sv.same_good [OF assms that] .
qed

lemma sv_good_upd [simp]:
  "sv_good (s\<lparr>sv_nextID := n\<rparr>) = sv_good s" "sv_good (s\<lparr>sv_articles := a\<rparr>) = sv_good s"
  by (simp_all add: sv_good_def)

lemma sv_good_start: "safe_from_start e \<Longrightarrow> sv_good (new_server e)"
  using fresh_guards_good by (simp add: sv_good_def new_server_def)

text \<open>Goodness is a matter of the enforcer; taking a role from a user keeps it and changes nothing else.\<close>

lemma sv_good_enforcer: "sv_enforcer s' = sv_enforcer s \<Longrightarrow> sv_good s' = sv_good s"
  by (simp add: sv_good_def)

lemma sv_revoke:
  assumes good: "sv_good s" and u: "fmlookup (sv_users s) uid = Some u" and role: "role |\<in>| fmdom (sv_roles s)"
    and s': "sv_enforcer s' = snd (RevokeRole memory_ops uid role (sv_enforcer s))"
  shows "fst (RevokeRole memory_ops uid role (sv_enforcer s)) = None" and "sv_good s'"
    and "sv_roles s' = sv_roles s"
    and "fmlookup (sv_users s') uid = Some (u\<lparr>Roles := filter (\<lambda>r. r \<noteq> role) (Roles u)\<rparr>)"
proof -
  have ok: "memory_ok (e_store (sv_enforcer s))"
      "memory_ok (e_store (sv_enforcer s)) \<and> enforcer_inv (sv_users s) (sv_roles s) (sv_enforcer s)"
    and coherent: "cache_coherent (sv_users s) (sv_roles s) (sv_enforcer s)"
    using good by (simp_all add: sv_good_def)
  have id: "ID u = uid"
    by (rule sv_user_key [OF good u])
  note views = mem.put_user_views [OF ok(1), of "u\<lparr>Roles := filter (\<lambda>r. r \<noteq> role) (Roles u)\<rparr>" u]
  show "fst (RevokeRole memory_ops uid role (sv_enforcer s)) = None" "sv_roles s' = sv_roles s"
    "fmlookup (sv_users s') uid = Some (u\<lparr>Roles := filter (\<lambda>r. r \<noteq> role) (Roles u)\<rparr>)"
    using u role id views by (simp_all add: s' mem.RevokeRole_effect [OF ok(1)] Let_def)
  show "sv_good s'"
    using mem.RevokeRole_inv [OF ok(2)] mem.RevokeRole_coherent [OF ok(2) coherent]
    by (simp add: sv_good_def s')
qed

section \<open>The table of articles\<close>

text \<open>Every article is filed under its own number, and numbers from the counter on are free.\<close>

definition articles_ok :: "server \<Rightarrow> bool" where
  "articles_ok s \<longleftrightarrow>
     (\<forall>i a. fmlookup (sv_articles s) i = Some a \<longrightarrow>
        article_ID a = i \<and> 1 \<le> i \<and> i < sv_nextID s \<and> valid_utf8 (article_Title a))"

lemma articles_ok_fills: "sv_fills s s' \<Longrightarrow> articles_ok s' = articles_ok s"
  by (simp add: articles_ok_def sv_fills_frame)

lemma create_article_ok:
  assumes "create_article w r s = Some (w', s')" and "articles_ok s" and "1 \<le> sv_nextID s"
    and "sv_nextID s < 2 ^ 63 - 1"
  shows "articles_ok s'" and "sv_nextID s' \<in> {sv_nextID s, sv_nextID s + 1}"
    and "sv_enforcer s' = sv_enforcer s"
proof -
  have "wrap64 (sv_nextID s + 1) = sv_nextID s + 1"
    using assms(3,4) by (intro wrap64_id) (simp add: int64_def)
  then show "articles_ok s'" "sv_nextID s' \<in> {sv_nextID s, sv_nextID s + 1}"
    "sv_enforcer s' = sv_enforcer s"
    using assms decode_field_valid
    by (fastforce simp: create_article_def articles_ok_def Let_def split: option.splits if_splits)+
qed

lemma remove_article_ok:
  assumes "remove_article w r s = Some (w', s')" and "articles_ok s"
  shows "articles_ok s'" and "sv_nextID s' = sv_nextID s" and "sv_enforcer s' = sv_enforcer s"
  using assms by (auto simp: remove_article_def articles_ok_def split: option.splits if_splits)


section \<open>Seeded accounts\<close>

lemma start_simps: "New NewMemoryStore [] = start" "ms_users (e_store start) = fmempty"
  by (simp_all add: fresh_enforcer_def New_def NewMemoryStore_def)

text \<open>The table of roles that a list of rows describes.\<close>

definition role_table :: "(role_id \<times> permission list \<times> role_id) list \<Rightarrow> (role_id, role) gomap" where
  "role_table rs =
     fmap_of_list (map (\<lambda>(name, ps, parent). (name, \<lparr>Name = name, Permissions = ps, Parent = parent\<rparr>)) rs)"

text \<open>The enforcer after both loops: the roles of the first, and the users of the second.\<close>

lemma seeded_enforcer:
  assumes "seed_roles rs start = Some m" and "mset users = mset us"
    and "distinct (map fst us)" and "'''' \<notin> fst ` set us"
  obtains e where "seed_users users m = Some e" and "safe_from_start e"
    and "ms_roles (e_store e) = ms_roles (e_store m)"
    and "\<And>uid. fmlookup (ms_users (e_store e)) uid =
      map_option (\<lambda>roles. \<lparr>ID = uid, Roles = roles, Direct = []\<rparr>) (map_of us uid)"
proof -
  have set: "set users = set us" and "mset (map fst users) = mset (map fst us)"
    using assms(2) by (auto dest: mset_eq_setD)
  then have d: "distinct (map fst users)"
    using assms(3) by (metis mset_eq_imp_distinct_iff)
  have same: "map_of users = map_of us"
    using set d assms(3) by (intro map_of_inject_set [THEN iffD2])
  have m: "safe_from_start m" "ms_users (e_store m) = fmempty"
    using seed_roles_safe [OF assms(1) safe_start start_simps(2)] by simp_all
  have named: "'''' \<notin> fst ` set users"
    using assms(4) set by simp
  obtain e where e: "seed_users users m = Some e" "safe_from_start e"
      "ms_roles (e_store e) = ms_roles (e_store m)"
      and users: "\<forall>uid. fmlookup (ms_users (e_store e)) uid =
       (case map_of users uid of Some roles \<Rightarrow> Some \<lparr>ID = uid, Roles = roles, Direct = []\<rparr>
        | None \<Rightarrow> fmlookup (ms_users (e_store m)) uid)"
    using seed_users_stored [OF d named m(1)] m(2) by auto
  show ?thesis
    by (rule that [OF e]) (simp add: users same m(2) split: option.split)
qed

text \<open>The roles a user of a small table reaches, one link at a time.\<close>

lemma effective_closed:
  assumes "\<And>r x. r \<in> set names \<Longrightarrow> fmlookup rs r = Some x \<Longrightarrow> Parent x = '''' \<or> Parent x \<in> set names"
  shows "effective_roles rs names = set names"
proof
  show "effective_roles rs names \<subseteq> set names"
    unfolding effective_roles_def
    by (rule up_closure_least) (use assms in \<open>auto simp: parent_of_Some\<close>)
qed (auto simp: effective_roles_def intro: up_closure_base)

lemma effective_link:
  assumes "r \<in> set names" and "fmlookup rs r = Some x" and "Parent x \<noteq> ''''"
  shows "effective_roles rs names = effective_roles rs (Parent x # names)"
proof
  show "effective_roles rs names \<subseteq> effective_roles rs (Parent x # names)"
    unfolding effective_roles_def by (rule up_closure_mono) auto
  show "effective_roles rs (Parent x # names) \<subseteq> effective_roles rs names"
    unfolding effective_roles_def
    by (rule up_closure_least)
      (use assms in \<open>auto intro: up_closure_base up_closure_step [of r] up_closure_step simp: parent_of_Some\<close>)
qed

text \<open>What the enforcer answers about a safe state.\<close>

lemma HasPermission_answer:
  assumes "safe_from_start e"
  shows "map_option fst (HasPermission memory_ops uid q e) = Some
    (case fmlookup (ms_users (e_store e)) uid of
       None \<Rightarrow> Inl ErrUserNotFound | Some u \<Rightarrow> Inr (allowed (ms_roles (e_store e)) u q))"
  using mem.guards.au_has [OF fresh_guards_good [OF assms], of uid q]
  by (auto simp: enforcer_authorizer_def)

end
