(* ===== verification/App_Console.thy ===== *)
theory App_Console
  imports App_Server File_Store Go_Format "HOL-Library.Monad_Syntax"
begin

text \<open>
  The two programs that print and stop, \<open>_examples/basic/main.go\<close> and the demonstration of
  \<open>_examples/customstore/main.go\<close>. Their result is what they print, \<open>None\<close> where they panic
  or a call does not return. \<open>err_text\<close> is the text of an error.
\<close>

section \<open>Printing\<close>

text \<open>The result of a call whose error is dropped.\<close>

definition or_nil :: "lib_error + 'a list \<Rightarrow> 'a list" where
  "or_nil res = (case res of Inl _ \<Rightarrow> [] | Inr xs \<Rightarrow> xs)"

definition must :: "lib_error option \<times> 'm \<Rightarrow> 'm option" where
  "must res = (case res of (Some err, m) \<Rightarrow> None | (None, m) \<Rightarrow> Some m)"

section \<open>basic\<close>

definition verdict ::
  "(lib_error \<Rightarrow> string) \<Rightarrow> memory_store enforcer \<Rightarrow> user_id \<Rightarrow> permission
     \<Rightarrow> (string \<times> memory_store enforcer) option" where
  "verdict err_text m uid p =
     (let line = pad_right 6 uid @ '' '' @ pad_right 17 (Permission_String p) @ '' '' in
      case Check memory_ops uid p m of
        None \<Rightarrow> None
      | Some (None, m) \<Rightarrow> Some (line @ ''allowed'' @ newline, m)
      | Some (Some err, m) \<Rightarrow>
          if errors_Is err ErrPermissionDenied then Some (line @ ''denied'' @ newline, m)
          else Some (line @ ''error: '' @ err_text err @ newline, m))"

fun verdicts ::
  "(lib_error \<Rightarrow> string) \<Rightarrow> (user_id \<times> permission) list \<Rightarrow> memory_store enforcer
     \<Rightarrow> (string \<times> memory_store enforcer) option" where
  "verdicts err_text [] m = Some ('''', m)"
| "verdicts err_text ((uid, p) # cs) m =
     do { (line, m) \<leftarrow> verdict err_text m uid p;
          (lines, m) \<leftarrow> verdicts err_text cs m;
          Some (line @ lines, m) }"

fun role_lines :: "user_id list \<Rightarrow> memory_store enforcer \<Rightarrow> string option" where
  "role_lines [] m = Some ''''"
| "role_lines (u # us) m =
     do { roles \<leftarrow> RolesFor memory_ops u m;
          lines \<leftarrow> role_lines us m;
          Some (pad_right 6 u @ '' effective roles: '' @ print_slice (or_nil roles) @ newline @ lines) }"

definition basic_checks :: "(user_id \<times> permission) list" where
  "basic_checks =
     [(''carol'', perm ''article'' ''read''), (''carol'', perm ''article'' ''create''),
      (''bob'', perm ''article'' ''create''), (''bob'', perm ''article'' ''delete''),
      (''dave'', perm ''article'' ''publish''), (''dave'', perm ''article'' ''edit''),
      (''alice'', perm ''user'' ''delete'')]"

definition basic_setup :: "memory_store enforcer option" where
  "basic_setup =
     do { let m = libauth_New [];
          m \<leftarrow> must (CreateRole memory_ops ''viewer''
            [perm ''article'' ''read'', perm ''whoami'' ''read''] '''' m);
          m \<leftarrow> must (CreateRole memory_ops ''editor''
            [perm ''article'' ''create'', perm ''article'' ''edit'', perm ''article'' ''read'',
             perm ''whoami'' ''read''] '''' m);
          m \<leftarrow> must (CreateRole memory_ops ''publisher'' [perm ''article'' ''publish''] ''editor'' m);
          m \<leftarrow> must (CreateRole memory_ops ''admin'' [perm ''*'' ''''] '''' m);
          m \<leftarrow> must (CreateUser memory_ops ''carol'' [''viewer''] m);
          m \<leftarrow> must (CreateUser memory_ops ''bob'' [''editor'', ''viewer''] m);
          m \<leftarrow> must (CreateUser memory_ops ''dave'' [''publisher''] m);
          must (CreateUser memory_ops ''alice'' [''admin''] m) }"

definition basic_changes ::
  "(lib_error \<Rightarrow> string) \<Rightarrow> memory_store enforcer \<Rightarrow> (string \<times> memory_store enforcer) option" where
  "basic_changes err_text m =
     do { m \<leftarrow> must (AssignRole memory_ops ''carol'' ''editor'' m);
          (l1, m) \<leftarrow> verdict err_text m ''carol'' (perm ''article'' ''create'');
          m \<leftarrow> must (GrantPermission memory_ops ''viewer'' (perm ''article'' ''comment'') m);
          (l2, m) \<leftarrow> verdict err_text m ''carol'' (perm ''article'' ''comment'');
          m \<leftarrow> must (GrantDirectPermission memory_ops ''carol'' (perm ''article'' ''archive'') m);
          (l3, m) \<leftarrow> verdict err_text m ''carol'' (perm ''article'' ''archive'');
          m \<leftarrow> must (RevokeRole memory_ops ''carol'' ''editor'' m);
          (l4, m) \<leftarrow> verdict err_text m ''carol'' (perm ''article'' ''create'');
          Some (l1 @ l2 @ l3 @ l4, m) }"

definition basic_main :: "(string goset \<Rightarrow> string list) \<Rightarrow> (lib_error \<Rightarrow> string) \<Rightarrow> string option" where
  "basic_main ord err_text =
     do { m \<leftarrow> basic_setup;
          roles \<leftarrow> role_lines [''carol'', ''bob'', ''dave'', ''alice''] m;
          (checks, m) \<leftarrow> verdicts err_text basic_checks m;
          (changes, m) \<leftarrow> basic_changes err_text m;
          (perms, m) \<leftarrow> PermissionsFor ord memory_ops ''carol'' m;
          Some (''== roles =='' @ newline @ roles @
            newline @ ''== checks =='' @ newline @ checks @
            newline @ ''== runtime changes =='' @ newline @ changes @
            newline @ ''== carol's effective permissions =='' @ newline @
            print_slice (map Permission_String (or_nil perms)) @ newline) }"

section \<open>customstore\<close>

text \<open>
  \<open>path\<close> is what \<open>MkdirTemp\<close> and \<open>Join\<close> make, if the directory could be made, and \<open>d\<close> the disk as
  seen at that path. The default store that \<open>WithStore\<close> replaces is not looked at.
\<close>

definition or_panic :: "lib_error + 'a \<Rightarrow> 'a option" where
  "or_panic res = (case res of Inl _ \<Rightarrow> None | Inr x \<Rightarrow> Some x)"

definition customstore_fill :: "file_store \<Rightarrow> file_store option" where
  "customstore_fill store =
     do { let m = New store [WithStore store];
          m \<leftarrow> must (CreateRole file_ops ''editor'' [perm ''article'' ''create'', perm ''article'' ''read''] '''' m);
          m \<leftarrow> must (CreateRole file_ops ''viewer'' [perm ''article'' ''read'', perm ''whoami'' ''read''] '''' m);
          m \<leftarrow> must (CreateUser file_ops ''bob'' [''editor'', ''viewer''] m);
          Some (e_store m) }"

definition role_line :: "role \<Rightarrow> string" where
  "role_line r = ''  role '' @ pad_right 8 (Name r) @ '' perms='' @
     print_slice (map Permission_String (Permissions r)) @ newline"

definition user_line :: "user \<Rightarrow> string" where
  "user_line u = ''  user '' @ pad_right 8 (ID u) @ '' roles='' @ print_slice (Roles u) @ newline"

definition print_bool :: "bool \<Rightarrow> string" where
  "print_bool b = (if b then ''true'' else ''false'')"

definition print_error :: "(lib_error \<Rightarrow> string) \<Rightarrow> lib_error option \<Rightarrow> string" where
  "print_error err_text err = (case err of None \<Rightarrow> ''<nil>'' | Some err \<Rightarrow> err_text err)"

definition customstore_main :: "(lib_error \<Rightarrow> string) \<Rightarrow> string option \<Rightarrow> disk \<Rightarrow> string option" where
  "customstore_main err_text path d =
     do { path \<leftarrow> path;
          store \<leftarrow> or_panic (newFileStore d);
          store \<leftarrow> customstore_fill store;
          reloaded \<leftarrow> or_panic (newFileStore (fs_disk store));
          let m2 = New reloaded [WithStore reloaded];
          let roles = or_nil (ListRoles file_ops m2);
          let users = or_nil (ListUsers file_ops m2);
          (bobOK, m2) \<leftarrow> Check file_ops ''bob'' (perm ''article'' ''create'') m2;
          (daveOK, m2) \<leftarrow> Check file_ops ''dave'' (perm ''article'' ''read'') m2;
          Some (''data file: '' @ path @ newline @
            newline @ ''after reload from disk:'' @ newline @
            concat (map role_line roles) @ concat (map user_line users) @
            newline @ ''bob may still create articles: '' @ print_bool (bobOK = None) @ newline @
            ''dave is unknown after reload: '' @ print_error err_text daveOK @ newline) }"

section \<open>What the programs print\<close>

definition unlines :: "string list \<Rightarrow> string" where
  "unlines ls = concat (map (\<lambda>l. l @ newline) ls)"

text \<open>The order of a listing is settled by the texts when they differ.\<close>

lemma sort_key_unique:
  fixes f :: "'a \<Rightarrow> 'b::linorder"
  assumes "set xs = set ys" and "distinct xs" and "distinct ys" and "inj_on f (set ys)"
  shows "sort_key f xs = sort_key f ys"
proof -
  have "map f (sort_key f xs) = map f (sort_key f ys)"
    by (rule sorted_distinct_set_unique) (use assms in \<open>simp_all add: distinct_map\<close>)
  then show ?thesis
    using assms by (simp add: map_inj_on)
qed

lemma PermissionsFor_any_order:
  assumes "go_range ord" and "getGrantedSet ops uid e = Some (Inr S, e')"
    and "distinct (map Permission_String (gs_flatten sorted_list_of_fset S))"
  shows "PermissionsFor ord ops uid e = PermissionsFor sorted_list_of_fset ops uid e"
proof -
  have "sort_key Permission_String (gs_flatten ord S) = sort_key Permission_String (gs_flatten sorted_list_of_fset S)"
    by (rule sort_key_unique) (use assms in \<open>simp_all add: gs_flatten_set gs_flatten_distinct distinct_map\<close>)
  then show ?thesis
    using assms(2) by (simp add: PermissionsFor_def with_granted_def)
qed

text \<open>The program up to its last listing.\<close>

definition basic_before ::
  "(lib_error \<Rightarrow> string) \<Rightarrow> ((string \<times> string \<times> string) \<times> memory_store enforcer) option" where
  "basic_before err_text =
     do { m \<leftarrow> basic_setup;
          roles \<leftarrow> role_lines [''carol'', ''bob'', ''dave'', ''alice''] m;
          (checks, m) \<leftarrow> verdicts err_text basic_checks m;
          (changes, m) \<leftarrow> basic_changes err_text m;
          Some ((roles, checks, changes), m) }"

lemma basic_before_carol:
  "\<exists>t m S m'. basic_before err_text = Some (t, m) \<and> getGrantedSet memory_ops ''carol'' m = Some (Inr S, m') \<and>
     distinct (map Permission_String (gs_flatten sorted_list_of_fset S))"
proof -
  have "case basic_before err_text of
      None \<Rightarrow> False
    | Some (t, m) \<Rightarrow>
        (case getGrantedSet memory_ops ''carol'' m of
           Some (Inr S, m') \<Rightarrow> distinct (map Permission_String (gs_flatten sorted_list_of_fset S))
         | _ \<Rightarrow> False)"
    by code_simp
  then show ?thesis
    by (auto split: option.split_asm prod.split_asm sum.split_asm) (metis sum.exhaust)
qed

lemma basic_main_eq: "basic_main ord err_text =
  do { ((roles, checks, changes), m) \<leftarrow> basic_before err_text;
       (perms, m) \<leftarrow> PermissionsFor ord memory_ops ''carol'' m;
       Some (''== roles =='' @ newline @ roles @
         newline @ ''== checks =='' @ newline @ checks @
         newline @ ''== runtime changes =='' @ newline @ changes @
         newline @ ''== carol's effective permissions =='' @ newline @
         print_slice (map Permission_String (or_nil perms)) @ newline) }"
  by (simp only: basic_main_def basic_before_def case_prod_unfold Option.bind_assoc Option.bind.bind_lunit
      fst_conv snd_conv)

lemma basic_main_any_order:
  assumes "go_range ord"
  shows "basic_main ord err_text = basic_main sorted_list_of_fset err_text"
proof -
  obtain t m S m' where before: "basic_before err_text = Some (t, m)"
    and "getGrantedSet memory_ops ''carol'' m = Some (Inr S, m')"
      "distinct (map Permission_String (gs_flatten sorted_list_of_fset S))"
    using basic_before_carol by blast
  then have "PermissionsFor ord memory_ops ''carol'' m = PermissionsFor sorted_list_of_fset memory_ops ''carol'' m"
    by (intro PermissionsFor_any_order [OF assms])
  with before show ?thesis
    by (simp add: basic_main_eq split: prod.split)
qed

text \<open>The program \<open>basic\<close> prints what its comments say, in whatever order Go visits maps: dave has the
editor role of its parent and may edit, the wildcard of alice reaches any resource, and each change
at run time shows in the next check: a role assigned, a permission granted to a role, one granted
directly, and a role taken away; it does not panic.\<close>

theorem basic_transcript:
  assumes "go_range ord"
  shows "basic_main ord err_text = Some (unlines
    [''== roles =='',
     ''carol  effective roles: [viewer]'',
     ''bob    effective roles: [editor viewer]'',
     ''dave   effective roles: [editor publisher]'',
     ''alice  effective roles: [admin]'',
     '''',
     ''== checks =='',
     ''carol  article:read      allowed'',
     ''carol  article:create    denied'',
     ''bob    article:create    allowed'',
     ''bob    article:delete    denied'',
     ''dave   article:publish   allowed'',
     ''dave   article:edit      allowed'',
     ''alice  user:delete       allowed'',
     '''',
     ''== runtime changes =='',
     ''carol  article:create    allowed'',
     ''carol  article:comment   allowed'',
     ''carol  article:archive   allowed'',
     ''carol  article:create    denied'',
     '''',
     ''== carol's effective permissions =='',
     ''[article:archive article:comment article:read whoami:read]''])"
  unfolding basic_main_any_order [OF assms] by code_simp

lemma basic_transcript_witness:
  "basic_main (\<lambda>S. rev (sorted_list_of_fset S)) (\<lambda>err. ''?'') = basic_main sorted_list_of_fset (\<lambda>err. ''?'') \<and>
   basic_main (\<lambda>S. rev (sorted_list_of_fset S)) (\<lambda>err. ''?'') \<noteq> None"
proof -
  have "go_range (\<lambda>S. rev (sorted_list_of_fset S) :: string list)"
    using go_range_sorted by (simp add: go_range_def)
  then show ?thesis
    by (simp add: basic_transcript)
qed

text \<open>Its runs, by the faults of the disk.\<close>

definition customstore_output :: "(lib_error \<Rightarrow> string) \<Rightarrow> string \<Rightarrow> string" where
  "customstore_output err_text path = unlines
     [''data file: '' @ path,
      '''',
      ''after reload from disk:'',
      ''  role editor   perms=[article:create article:read]'',
      ''  role viewer   perms=[article:read whoami:read]'',
      ''  user bob      roles=[editor viewer]'',
      '''',
      ''bob may still create articles: true'',
      ''dave is unknown after reload: '' @ err_text ErrUserNotFound]"

lemma customstore_runs:
  "customstore_main err_text (Some path) \<lparr>dk_content = NoFile, dk_faults = []\<rparr> =
     Some (customstore_output err_text path)"
  "customstore_main err_text (Some path) \<lparr>dk_content = NoFile, dk_faults = [None]\<rparr> =
     Some (customstore_output err_text path)"
  "customstore_main err_text (Some path) \<lparr>dk_content = NoFile, dk_faults = [None, None]\<rparr> =
     Some (customstore_output err_text path)"
  "customstore_main err_text (Some path) \<lparr>dk_content = NoFile, dk_faults = None # None # None # rest\<rparr> =
     Some (customstore_output err_text path)"
  "customstore_main err_text (Some path) \<lparr>dk_content = NoFile, dk_faults = Some l # rest\<rparr> = None"
  "customstore_main err_text (Some path) \<lparr>dk_content = NoFile, dk_faults = None # Some l # rest\<rparr> = None"
  "customstore_main err_text (Some path) \<lparr>dk_content = NoFile, dk_faults = None # None # Some l # rest\<rparr> = None"
  by (code_simp, simp?)+

text \<open>The program \<open>customstore\<close> survives the way to the disk and back: started without a file, it panics if
one of its three writes fails, and otherwise a second enforcer over the file knows the roles and the
user of the first, lets bob do what he could do before, and does not know dave.\<close>

theorem customstore_transcript:
  assumes "dk_content d = NoFile"
  shows "customstore_main err_text (Some path) d =
    (if \<exists>left. Some left \<in> set (take 3 (dk_faults d)) then None
     else Some (unlines
       [''data file: '' @ path,
        '''',
        ''after reload from disk:'',
        ''  role editor   perms=[article:create article:read]'',
        ''  role viewer   perms=[article:read whoami:read]'',
        ''  user bob      roles=[editor viewer]'',
        '''',
        ''bob may still create articles: true'',
        ''dave is unknown after reload: '' @ err_text ErrUserNotFound]))"
proof -
  obtain fs where d: "d = \<lparr>dk_content = NoFile, dk_faults = fs\<rparr>"
    using assms by (cases d) auto
  consider "fs = []" | "fs = [None]" | "fs = [None, None]" | rest where "fs = None # None # None # rest"
    | l rest where "fs = Some l # rest" | l rest where "fs = None # Some l # rest"
    | l rest where "fs = None # None # Some l # rest"
    by (metis list.exhaust option.exhaust)
  then show ?thesis
    by cases (auto simp: d customstore_runs customstore_output_def)
qed

lemma customstore_transcript_witness:
  "customstore_main (\<lambda>err. ''?'') (Some ''/tmp/rbac.json'')
     \<lparr>dk_content = NoFile, dk_faults = [None, Some Garbage]\<rparr> = None \<and>
   customstore_main (\<lambda>err. ''?'') (Some ''/tmp/rbac.json'')
     \<lparr>dk_content = NoFile, dk_faults = [None, None, None, Some Garbage]\<rparr> \<noteq> None"
  by (simp add: customstore_transcript)

end
