(* ===== verification/App_Example01.thy ===== *)
theory App_Example01
  imports App_Server
begin

text \<open>
  \<open>_examples/example01/main.go\<close>: an HTTP API that takes the identity of the caller from a
  header. A request comes with the route the multiplexer has matched; \<open>ord\<close> is the order in
  which the listing ranges over the table of articles.
\<close>

section \<open>The program\<close>

definition example01_roles :: "(role_id \<times> permission list \<times> role_id) list" where
  "example01_roles =
     [(''admin'', [perm ''*'' ''''], ''''),
      (''editor'', [perm ''article'' ''create'', perm ''article'' ''edit'', perm ''article'' ''read'',
         perm ''whoami'' ''read''], ''''),
      (''viewer'', [perm ''article'' ''read'', perm ''whoami'' ''read''], ''''),
      (''publisher'', [perm ''article'' ''publish''], ''editor'')]"

definition example01_users :: "(user_id \<times> role_id list) list" where
  "example01_users =
     [(''alice'', [''admin'']), (''bob'', [''editor'', ''viewer'']), (''carol'', [''viewer'']),
      (''dave'', [''publisher''])]"

text \<open>The users are given in the order in which the map literal is visited.\<close>

definition example01_seed :: "(user_id \<times> role_id list) list \<Rightarrow> memory_store enforcer option" where
  "example01_seed users =
     (let m = libauth_New [] in
      case seed_roles example01_roles m of
        None \<Rightarrow> None
      | Some m \<Rightarrow> seed_users users m)"

definition example01_whoami :: "server handler" where
  "example01_whoami w r s =
     (case libauth_UserFromContext (req_ctx r) of
        None \<Rightarrow> Some (writeJSON 500 (error_json ''no user in context'') w, s)
      | Some u \<Rightarrow> Some (writeJSON 200 (JObject [(''user'', user_json u)]) w, s))"

datatype example01_route = E_whoami | E_list | E_create | E_remove

definition example01_mux ::
  "(int goset \<Rightarrow> int list) \<Rightarrow> server middleware \<Rightarrow> example01_route \<Rightarrow> server handler" where
  "example01_mux ord mw route =
     (case route of
        E_whoami \<Rightarrow> Require mw (perm ''whoami'' ''read'') example01_whoami
      | E_list \<Rightarrow> Require mw (perm ''article'' ''read'') (list_articles ord)
      | E_create \<Rightarrow> Require mw (perm ''article'' ''create'') create_article
      | E_remove \<Rightarrow> Require mw (perm ''article'' ''delete'') remove_article)"

text \<open>\<open>main\<close>: the state the server starts with, and its handlers; \<open>None\<close> if it stops before.\<close>

definition example01_main ::
  "(user_id \<times> role_id list) list \<Rightarrow> (server \<times> ((int goset \<Rightarrow> int list) \<Rightarrow> example01_route \<Rightarrow> server handler)) option" where
  "example01_main users =
     (case example01_seed users of
        None \<Rightarrow> None
      | Some m \<Rightarrow>
     (case libauth_NewMiddleware (Some server_authorizer) (Some (libauth_HeaderIdentity '''')) of
        Inl _ \<Rightarrow> None
      | Inr mw \<Rightarrow> Some (new_server m, \<lambda>ord. example01_mux ord mw)))"

section \<open>The seeded accounts\<close>

lemma example01_roles_seeded:
  obtains m where "seed_roles example01_roles start = Some m"
    and "ms_roles (e_store m) = role_table example01_roles"
proof (rule that)
  let ?m = "the (seed_roles example01_roles start)"
  show "seed_roles example01_roles start = Some ?m"
    by code_simp
  show "ms_roles (e_store ?m) = role_table example01_roles"
    by code_simp
qed

text \<open>The permissions the package comment promises to each account.\<close>

definition example01_access :: "(user_id \<times> (permission \<Rightarrow> bool)) list" where
  "example01_access =
     [(''alice'', \<lambda>q. True),
      (''bob'', \<lambda>q. q \<in> {perm ''article'' ''create'', perm ''article'' ''edit'', perm ''article'' ''read'',
         perm ''whoami'' ''read''}),
      (''carol'', \<lambda>q. q \<in> {perm ''article'' ''read'', perm ''whoami'' ''read''}),
      (''dave'', \<lambda>q. q \<in> {perm ''article'' ''publish'', perm ''article'' ''create'', perm ''article'' ''edit'',
         perm ''article'' ''read'', perm ''whoami'' ''read''})]"

lemma role_lookup:
  "fmlookup (role_table example01_roles) ''admin'' =
     Some \<lparr>Name = ''admin'', Permissions = [perm ''*'' ''''], Parent = ''''\<rparr>"
  "fmlookup (role_table example01_roles) ''editor'' =
     Some \<lparr>Name = ''editor'', Permissions = [perm ''article'' ''create'', perm ''article'' ''edit'',
       perm ''article'' ''read'', perm ''whoami'' ''read''], Parent = ''''\<rparr>"
  "fmlookup (role_table example01_roles) ''viewer'' =
     Some \<lparr>Name = ''viewer'', Permissions = [perm ''article'' ''read'', perm ''whoami'' ''read''], Parent = ''''\<rparr>"
  "fmlookup (role_table example01_roles) ''publisher'' =
     Some \<lparr>Name = ''publisher'', Permissions = [perm ''article'' ''publish''], Parent = ''editor''\<rparr>"
  by (simp_all add: role_table_def example01_roles_def fmlookup_of_list)

lemma example01_effective:
  "effective_roles (role_table example01_roles) [''admin''] = {''admin''}"
  "effective_roles (role_table example01_roles) [''editor'', ''viewer''] = {''editor'', ''viewer''}"
  "effective_roles (role_table example01_roles) [''viewer''] = {''viewer''}"
  "effective_roles (role_table example01_roles) [''publisher''] = {''editor'', ''publisher''}"
proof -
  have "effective_roles (role_table example01_roles) [''publisher''] =
      effective_roles (role_table example01_roles) [''editor'', ''publisher'']"
    using effective_link [OF _ role_lookup(4), of "[''publisher'']"] by simp
  also have "\<dots> = set [''editor'', ''publisher'']"
    by (rule effective_closed) (auto simp: role_lookup)
  finally show "effective_roles (role_table example01_roles) [''publisher''] = {''editor'', ''publisher''}"
    by simp
qed (subst effective_closed; auto simp: role_lookup)+

lemma example01_allowed:
  "allowed (role_table example01_roles) \<lparr>ID = uid, Roles = [''admin''], Direct = []\<rparr> q"
  "allowed (role_table example01_roles) \<lparr>ID = uid, Roles = [''editor'', ''viewer''], Direct = []\<rparr> q \<longleftrightarrow>
     q \<in> {perm ''article'' ''create'', perm ''article'' ''edit'', perm ''article'' ''read'', perm ''whoami'' ''read''}"
  "allowed (role_table example01_roles) \<lparr>ID = uid, Roles = [''viewer''], Direct = []\<rparr> q \<longleftrightarrow>
     q \<in> {perm ''article'' ''read'', perm ''whoami'' ''read''}"
  "allowed (role_table example01_roles) \<lparr>ID = uid, Roles = [''publisher''], Direct = []\<rparr> q \<longleftrightarrow>
     q \<in> {perm ''article'' ''publish'', perm ''article'' ''create'', perm ''article'' ''edit'',
       perm ''article'' ''read'', perm ''whoami'' ''read''}"
  by (cases q; simp add: allowed_def granted_perms_def example01_effective role_perms_def role_lookup
      Matches_iff; argo)+

text \<open>The accounts of \<open>example01\<close> are the documented ones: in whatever order \<open>seed\<close> visits its users
it succeeds, alice may do everything, bob what editors and viewers may, carol what viewers may, and
dave what publishers and, by inheritance, editors may; nobody may do more, and nobody else is known.\<close>

theorem example01_accounts:
  assumes "mset users = mset example01_users"
  shows "\<exists>m. example01_seed users = Some m \<and> safe_from_start m \<and>
    (\<forall>uid q. map_option fst (HasPermission memory_ops uid q m) = Some
       (case map_of example01_access uid of
          None \<Rightarrow> Inl ErrUserNotFound | Some access \<Rightarrow> Inr (access q)))"
proof -
  obtain m where m: "seed_roles example01_roles start = Some m"
      and roles: "ms_roles (e_store m) = role_table example01_roles"
    by (rule example01_roles_seeded)
  obtain e where e: "seed_users users m = Some e" "safe_from_start e"
      "ms_roles (e_store e) = ms_roles (e_store m)"
      and lookup: "\<And>uid. fmlookup (ms_users (e_store e)) uid =
        map_option (\<lambda>roles. \<lparr>ID = uid, Roles = roles, Direct = []\<rparr>) (map_of example01_users uid)"
    by (rule seeded_enforcer [OF m assms]) (auto simp: example01_users_def)
  have seed: "example01_seed users = Some e"
    using m e(1) by (simp add: example01_seed_def start_simps)
  have "(case fmlookup (ms_users (e_store e)) uid of None \<Rightarrow> Inl ErrUserNotFound
        | Some u \<Rightarrow> Inr (allowed (ms_roles (e_store e)) u q)) =
      (case map_of example01_access uid of None \<Rightarrow> Inl ErrUserNotFound | Some access \<Rightarrow> Inr (access q))" for uid q
    by (simp add: lookup e(3) roles example01_users_def example01_access_def example01_allowed)
  with seed e(2) show ?thesis
    by (simp add: HasPermission_answer del: map_option_eq_Some)
qed

lemma example01_accounts_witness:
  "\<exists>m. example01_seed (rev example01_users) = Some m \<and>
     map_option fst (HasPermission memory_ops ''dave'' (perm ''article'' ''edit'') m) = Some (Inr True) \<and>
     map_option fst (HasPermission memory_ops ''dave'' (perm ''article'' ''delete'') m) = Some (Inr False)"
proof -
  obtain m where "example01_seed (rev example01_users) = Some m"
    and "\<forall>uid q. map_option fst (HasPermission memory_ops uid q m) = Some
       (case map_of example01_access uid of
          None \<Rightarrow> Inl ErrUserNotFound | Some access \<Rightarrow> Inr (access q))"
    using example01_accounts [of "rev example01_users"] by auto
  then show ?thesis
    by (intro exI [of _ m]) (simp add: example01_access_def del: map_option_eq_Some)
qed


section \<open>The server at work\<close>

text \<open>The states after so many requests. A request comes in with nothing in its context.\<close>

inductive example01_run :: "(int goset \<Rightarrow> int list) \<Rightarrow> server \<Rightarrow> nat \<Rightarrow> server \<Rightarrow> bool" for ord s0 where
  run_start: "example01_run ord s0 0 s0"
| run_request: "example01_run ord s0 n s \<Longrightarrow> req_ctx r = [] \<Longrightarrow>
    example01_mux ord (server_mw (HeaderIdentity '''')) route w r s = Some (w', s') \<Longrightarrow>
    example01_run ord s0 (Suc n) s'"

inductive_cases example01_runE: "example01_run ord s0 n s"

definition route_permission :: "example01_route \<Rightarrow> permission" where
  "route_permission route =
     (case route of
        E_whoami \<Rightarrow> perm ''whoami'' ''read''
      | E_list \<Rightarrow> perm ''article'' ''read''
      | E_create \<Rightarrow> perm ''article'' ''create''
      | E_remove \<Rightarrow> perm ''article'' ''delete'')"

definition route_handler :: "(int goset \<Rightarrow> int list) \<Rightarrow> example01_route \<Rightarrow> server handler" where
  "route_handler ord route =
     (case route of
        E_whoami \<Rightarrow> example01_whoami
      | E_list \<Rightarrow> list_articles ord
      | E_create \<Rightarrow> create_article
      | E_remove \<Rightarrow> remove_article)"

lemma example01_mux_eq: "example01_mux ord mw route = Require mw (route_permission route) (route_handler ord route)"
  by (cases route) (simp_all add: example01_mux_def route_permission_def route_handler_def)

text \<open>Every handler returns.\<close>

lemma route_handler_returns: "\<exists>w' s'. route_handler ord route w r s = Some (w', s')"
  by (cases route) (auto simp: route_handler_def example01_whoami_def list_articles_def
      create_article_def remove_article_def Let_def split: option.split)

text \<open>A request that leaves another state was let through, or only filled caches.\<close>

lemma example01_request:
  assumes "sv_good s" and "req_ctx r = []"
    and "example01_mux ord (server_mw (HeaderIdentity '''')) route w r s = Some (w', s')"
  shows "sv_fills s s' \<or>
    (\<exists>u s1. sv_fills s s1 \<and> fmlookup (sv_users s) (Header_Get (req_header r) ''X-User-ID'') = Some u \<and>
       allowed (sv_roles s) u (route_permission route) \<and>
       route_handler ord route w (r\<lparr>req_ctx := WithUser [] (Some u)\<rparr>) s1 = Some (w', s'))"
proof -
  obtain s1 where "sv_fills s s1" and "example01_mux ord (server_mw (HeaderIdentity '''')) route w r s =
    (case HeaderIdentity '''' r of
       Inl err \<Rightarrow> Some (failed 401 err w, s1)
     | Inr uid \<Rightarrow>
    (case fmlookup (sv_users s) uid of
       None \<Rightarrow> Some (failed 401 ErrUserNotFound w, s1)
     | Some u \<Rightarrow>
         if allowed (sv_roles s) u (route_permission route)
         then route_handler ord route w (r\<lparr>req_ctx := WithUser [] (Some u)\<rparr>) s1
         else Some (failed 403 (stored_denial (sv_enforcer s) u (route_permission route)) w, s1)))"
    using sv_require [OF assms(1,2)] unfolding example01_mux_eq by blast
  then show ?thesis
    using assms(3) by (auto simp: HeaderIdentity_def Let_def split: if_splits option.splits)
qed

lemma route_handler_frame:
  assumes "route_handler ord route w r s = Some (w', s')"
  shows "sv_enforcer s' = sv_enforcer s"
    and "route \<in> {E_whoami, E_list} \<Longrightarrow> s' = s"
  using assms by (auto simp: route_handler_def example01_whoami_def list_articles_def create_article_def
      remove_article_def Let_def split: option.splits example01_route.splits)

lemma route_handler_articles:
  assumes "route_handler ord route w r s = Some (w', s')" and "articles_ok s"
    and "1 \<le> sv_nextID s" and "sv_nextID s < 2 ^ 63 - 1"
  shows "articles_ok s'" and "sv_nextID s' \<in> {sv_nextID s, sv_nextID s + 1}"
  using assms create_article_ok [of w r s w' s'] remove_article_ok [of w r s w' s']
    route_handler_frame [OF assms(1)]
  by (auto simp: route_handler_def split: example01_route.splits)


lemma example01_run_invariant:
  assumes "example01_run ord s0 n s" and "sv_good s0" and "articles_ok s0" and "sv_nextID s0 = 1"
    and "n < 2 ^ 63 - 1"
  shows "sv_good s \<and> articles_ok s \<and> 1 \<le> sv_nextID s \<and> sv_nextID s \<le> int n + 1 \<and>
    sv_users s = sv_users s0 \<and> sv_roles s = sv_roles s0"
  using assms
proof (induction rule: example01_run.induct)
  case (run_request n s r route w w' s')
  then have s: "sv_good s" "articles_ok s" "1 \<le> sv_nextID s" "sv_nextID s \<le> int n + 1"
      "sv_users s = sv_users s0" "sv_roles s = sv_roles s0"
    by auto
  from example01_request [OF s(1) run_request.hyps(2,3)] show ?case
  proof (elim disjE exE conjE)
    assume fills: "sv_fills s s'"
    then show ?thesis
      using s sv_fills_frame [OF fills] by (simp add: articles_ok_fills)
  next
    fix u s1
    assume fills: "sv_fills s s1"
      and h: "route_handler ord route w (r\<lparr>req_ctx := WithUser [] (Some u)\<rparr>) s1 = Some (w', s')"
    note f = sv_fills_frame [OF fills]
    have "sv_nextID s1 < 2 ^ 63 - 1"
      using s(4) run_request.prems(4) by (simp add: f)
    moreover have "articles_ok s1" "1 \<le> sv_nextID s1"
      using s by (simp_all add: articles_ok_fills [OF fills] f)
    ultimately show ?thesis
      using route_handler_articles [OF h] route_handler_frame(1) [OF h] sv_good_enforcer [of s' s1] s f
      by auto
  qed
qed simp

text \<open>The server as \<open>main\<close> starts it.\<close>

lemma example01_main_started:
  assumes "example01_main users = Some (s0, serve)" and "mset users = mset example01_users"
  shows "sv_good s0" "articles_ok s0" "sv_nextID s0 = 1"
    and "serve = (\<lambda>ord. example01_mux ord (server_mw (HeaderIdentity '''')))"
    and "\<And>uid. fmlookup (sv_users s0) uid =
      map_option (\<lambda>roles. \<lparr>ID = uid, Roles = roles, Direct = []\<rparr>) (map_of example01_users uid)"
    and "sv_roles s0 = role_table example01_roles"
proof -
  obtain m where m: "seed_roles example01_roles start = Some m"
      and roles: "ms_roles (e_store m) = role_table example01_roles"
    by (rule example01_roles_seeded)
  obtain e where e: "seed_users users m = Some e" "safe_from_start e"
      "ms_roles (e_store e) = ms_roles (e_store m)"
      and lookup: "\<And>uid. fmlookup (ms_users (e_store e)) uid =
        map_option (\<lambda>roles. \<lparr>ID = uid, Roles = roles, Direct = []\<rparr>) (map_of example01_users uid)"
    by (rule seeded_enforcer [OF m assms(2)]) (auto simp: example01_users_def)
  have s0: "s0 = new_server e" "serve = (\<lambda>ord. example01_mux ord (server_mw (HeaderIdentity '''')))"
    using assms(1) m e(1) by (simp_all add: example01_main_def example01_seed_def start_simps server_mw_New)
  then show "sv_good s0" "articles_ok s0" "sv_nextID s0 = 1"
    "serve = (\<lambda>ord. example01_mux ord (server_mw (HeaderIdentity '''')))"
    "sv_roles s0 = role_table example01_roles"
    using sv_good_start [OF e(2)] e(3) roles by (simp_all add: new_server_def articles_ok_def)
  show "fmlookup (sv_users s0) uid =
      map_option (\<lambda>roles. \<lparr>ID = uid, Roles = roles, Direct = []\<rparr>) (map_of example01_users uid)" for uid
    using lookup by (simp add: s0(1) new_server_def)
qed

lemma example01_starts: "\<exists>s0. example01_main example01_users =
    Some (s0, \<lambda>ord. example01_mux ord (server_mw (HeaderIdentity '''')))"
proof -
  obtain m where m: "seed_roles example01_roles start = Some m"
    by (rule example01_roles_seeded)
  obtain e where "seed_users example01_users m = Some e"
    by (rule seeded_enforcer [OF m, of example01_users example01_users]) (auto simp: example01_users_def)
  with m show ?thesis
    by (simp add: example01_main_def example01_seed_def start_simps server_mw_New)
qed

text \<open>Who may do what on the seeded server.\<close>

lemma example01_may:
  assumes "fmlookup us uid = map_option (\<lambda>roles. \<lparr>ID = uid, Roles = roles, Direct = []\<rparr>) (map_of example01_users uid)"
    and "fmlookup us uid = Some u" and "allowed (role_table example01_roles) u q"
  obtains access where "map_of example01_access uid = Some access" and "access q"
  using assms example01_allowed
  by (auto simp: example01_users_def example01_access_def split: if_splits)

text \<open>C31: The table of articles in \<open>example01\<close> is kept well: after any requests, fewer than the counter can
count, every article is filed under its own positive number below the counter, so a new article never
replaces another, its title is UTF-8, the caches of the enforcer agree with its store, and the accounts
are those that were seeded.\<close>

theorem example01_table_invariant:
  assumes "example01_main users = Some (s0, serve)" and "mset users = mset example01_users"
    and "example01_run ord s0 n s" and "n < 2 ^ 63 - 1"
  shows "(\<forall>i a. fmlookup (sv_articles s) i = Some a \<longrightarrow>
      article_ID a = i \<and> 1 \<le> i \<and> i < sv_nextID s \<and> valid_utf8 (article_Title a)) \<and>
    fmlookup (sv_articles s) (sv_nextID s) = None \<and> sv_nextID s \<le> int n + 1 \<and>
    cache_coherent (sv_users s) (sv_roles s) (sv_enforcer s) \<and>
    sv_users s = sv_users s0 \<and> sv_roles s = sv_roles s0"
proof -
  note s0 = example01_main_started [OF assms(1,2)]
  have "articles_ok s \<and> sv_nextID s \<le> int n + 1 \<and> sv_good s \<and> sv_users s = sv_users s0 \<and> sv_roles s = sv_roles s0"
    using example01_run_invariant [OF assms(3) s0(1-3) assms(4)] by simp
  then show ?thesis
    by (auto simp: articles_ok_def sv_good_def) (metis less_irrefl not_None_eq)
qed

text \<open>C32: Only those may write who are meant to. In \<open>example01\<close> every request is answered, and one that
changes the articles is either a creation by alice, bob or dave, which files the posted title under
the counter, or a removal by alice of the article whose number is in the path, where the caller is
who the header names.\<close>

theorem example01_writes:
  assumes "example01_main users = Some (s0, serve)" and "mset users = mset example01_users"
    and "example01_run ord s0 n s" and "n < 2 ^ 63 - 1" and "req_ctx r = []"
  shows "\<exists>w' s'. serve ord route w r s = Some (w', s') \<and>
    (sv_articles s' \<noteq> sv_articles s \<longrightarrow>
      (route = E_create \<and> Header_Get (req_header r) ''X-User-ID'' \<in> {''alice'', ''bob'', ''dave''} \<and>
        (\<exists>title. decode_field ''title'' (req_body r) = Some title \<and>
           sv_articles s' = fmupd (sv_nextID s) \<lparr>article_ID = sv_nextID s, article_Title = title\<rparr> (sv_articles s))) \<or>
      (route = E_remove \<and> Header_Get (req_header r) ''X-User-ID'' = ''alice'' \<and>
        (\<exists>i. ParseInt (PathValue r ''id'') = Some i \<and> sv_articles s' = fmdrop i (sv_articles s))))"
proof -
  note s0 = example01_main_started [OF assms(1,2)]
  have good: "sv_good s" and same: "sv_users s = sv_users s0" "sv_roles s = sv_roles s0"
    using example01_run_invariant [OF assms(3) s0(1-3) assms(4)] by simp_all
  let ?uid = "Header_Get (req_header r) ''X-User-ID''"
  obtain w' s' where res: "example01_mux ord (server_mw (HeaderIdentity '''')) route w r s = Some (w', s')"
    using sv_require [OF good assms(5), of "HeaderIdentity ''''" "route_permission route" "route_handler ord route" w]
      route_handler_returns [of ord route w] unfolding example01_mux_eq
    by (fastforce split: sum.splits option.splits if_splits)
  have "(route = E_create \<and> ?uid \<in> {''alice'', ''bob'', ''dave''} \<and>
        (\<exists>title. decode_field ''title'' (req_body r) = Some title \<and>
           sv_articles s' = fmupd (sv_nextID s) \<lparr>article_ID = sv_nextID s, article_Title = title\<rparr> (sv_articles s))) \<or>
      (route = E_remove \<and> ?uid = ''alice'' \<and>
        (\<exists>i. ParseInt (PathValue r ''id'') = Some i \<and> sv_articles s' = fmdrop i (sv_articles s)))"
    if changed: "sv_articles s' \<noteq> sv_articles s"
  proof -
    obtain u s1 where fills: "sv_fills s s1" and u: "fmlookup (sv_users s) ?uid = Some u"
        "allowed (sv_roles s) u (route_permission route)"
      and h: "route_handler ord route w (r\<lparr>req_ctx := WithUser [] (Some u)\<rparr>) s1 = Some (w', s')"
      using example01_request [OF good assms(5) res] changed sv_fills_frame by blast
    note f = sv_fills_frame [OF fills]
    obtain access where access: "map_of example01_access ?uid = Some access" "access (route_permission route)"
      using example01_may [OF s0(5)] u s0(6) same by metis
    have writing: "route \<in> {E_create, E_remove}"
      using route_handler_frame(2) [OF h] changed f by (cases route) auto
    have "route = E_create \<Longrightarrow> ?uid \<in> {''alice'', ''bob'', ''dave''}" "route = E_remove \<Longrightarrow> ?uid = ''alice''"
      using access by (auto simp: example01_access_def route_permission_def split: if_splits)
    then show ?thesis
      using writing h changed f
      by (auto simp: route_handler_def create_article_def remove_article_def PathValue_def Let_def
          split: option.splits)
  qed
  with res s0(4) show ?thesis
    by blast
qed


text \<open>The server as it starts, and a creation by bob.\<close>

definition example01_state :: server where
  "example01_state = fst (the (example01_main example01_users))"

definition example01_post :: request where
  "example01_post = \<lparr>req_header = Header_Set ''X-User-ID'' ''bob'' fmempty,
     req_body = ''{\"Title\":\"hi\"}'', req_path = [], req_ctx = []\<rparr>"

abbreviation example01_serve :: "(int goset \<Rightarrow> int list) \<Rightarrow> example01_route \<Rightarrow> server handler" where
  "example01_serve ord \<equiv> example01_mux ord (server_mw (HeaderIdentity ''''))"

lemma example01_state_main: "example01_main example01_users = Some (example01_state, \<lambda>ord. example01_serve ord)"
  using example01_starts by (auto simp: example01_state_def)

lemma example01_posted:
  "map_option (\<lambda>(w, s). fmlookup (sv_articles s) 1)
     (example01_serve sorted_list_of_fset E_create blank example01_post example01_state) =
   Some (Some \<lparr>article_ID = 1, article_Title = ''hi''\<rparr>)"
  by code_simp

lemma example01_fresh: "sv_articles example01_state = fmempty" "sv_nextID example01_state = 1"
  by code_simp+

lemma example01_table_invariant_witness:
  "\<exists>s a. example01_run sorted_list_of_fset example01_state 1 s \<and> fmlookup (sv_articles s) 1 = Some a \<and>
     article_ID a = 1 \<and> fmlookup (sv_articles s) (sv_nextID s) = None"
proof -
  obtain w s where post: "example01_serve sorted_list_of_fset E_create blank example01_post example01_state = Some (w, s)"
      and a: "fmlookup (sv_articles s) 1 = Some \<lparr>article_ID = 1, article_Title = ''hi''\<rparr>"
    using example01_posted by auto
  have run: "example01_run sorted_list_of_fset example01_state (Suc 0) s"
    by (rule run_request [OF run_start _ post]) (simp add: example01_post_def)
  show ?thesis
    using example01_table_invariant [OF example01_state_main refl run] run a by auto
qed

lemma example01_writes_witness:
  "\<exists>w s. example01_serve sorted_list_of_fset E_create blank example01_post example01_state = Some (w, s) \<and>
     Header_Get (req_header example01_post) ''X-User-ID'' \<in> {''alice'', ''bob'', ''dave''} \<and>
     fmlookup (sv_articles s) 1 = Some \<lparr>article_ID = 1, article_Title = ''hi''\<rparr>"
proof -
  obtain w s where post: "example01_serve sorted_list_of_fset E_create blank example01_post example01_state = Some (w, s)"
      and a: "fmlookup (sv_articles s) 1 = Some \<lparr>article_ID = 1, article_Title = ''hi''\<rparr>"
    using example01_posted by auto
  then have "sv_articles s \<noteq> sv_articles example01_state"
    by (auto simp: example01_fresh)
  moreover have ctx: "req_ctx example01_post = []"
    by (simp add: example01_post_def)
  ultimately show ?thesis
    using example01_writes [OF example01_state_main refl run_start _ ctx, of sorted_list_of_fset
        E_create blank] post a by auto
qed

text \<open>Two lines of the package comment are not so: the creation it shows for bob has no body and is
answered with 400, not 201, and \<open>/whoami\<close> shows the direct roles of carol, not her effective permissions.\<close>

theorem example01_comment_differs:
  "map_option (\<lambda>(w, s). (map_option fst (rs_sent w), rs_body w))
     (example01_serve sorted_list_of_fset E_create blank
        \<lparr>req_header = Header_Set ''X-User-ID'' ''bob'' fmempty, req_body = '''', req_path = [], req_ctx = []\<rparr>
        example01_state) =
   Some (Some 400, [JsonBody (error_json ''invalid JSON body'')])"
  "map_option (\<lambda>(w, s). (map_option fst (rs_sent w), rs_body w))
     (example01_serve sorted_list_of_fset E_whoami blank
        \<lparr>req_header = Header_Set ''X-User-ID'' ''carol'' fmempty, req_body = '''', req_path = [], req_ctx = []\<rparr>
        example01_state) =
   Some (Some 200, [JsonBody (JObject [(''user'', JObject
     [(''id'', JString ''carol''), (''roles'', JArray [JString ''viewer''])])])])"
  by code_simp+

end
