(* ===== verification/App_Jwtauth.thy ===== *)
theory App_Jwtauth
  imports App_Server Jwt_Edges
begin

text \<open>
  \<open>_examples/jwtauth/main.go\<close>: a server that issues bearer tokens and takes the identity of a
  caller from them. A request that reads the clock reads it once; the reading it gets is given
  by the world \<open>wd\<close> the request is served in. \<open>err_text\<close> is the text of an error of package \<open>jwt\<close>.
\<close>

section \<open>Identity\<close>

text \<open>\<open>strings.TrimSpace\<close>, which takes white space off both ends sequence by sequence.\<close>

function trim_by :: "string list \<Rightarrow> string \<Rightarrow> string" where
  "trim_by spaces s =
     (case find (\<lambda>r. r \<noteq> [] \<and> take (length r) s = r) spaces of
        None \<Rightarrow> s
      | Some r \<Rightarrow> trim_by spaces (drop (length r) s))"
  by pat_completeness auto
termination
proof (relation "measure (\<lambda>(spaces, s). length s)", goal_cases)
  case (2 spaces s r)
  then have "r \<noteq> []" "take (length r) s = r"
    by (auto simp: find_Some_iff)
  then show ?case
    by (cases s) auto
qed simp

declare trim_by.simps [simp del]

definition TrimSpace_text :: "string \<Rightarrow> string" where
  "TrimSpace_text s = rev (trim_by (map rev space_runes) (rev (trim_by space_runes s)))"

text \<open>\<open>strings.EqualFold\<close> with a text of ASCII letters other than k and s, which no other rune folds to.\<close>

definition EqualFold :: "string \<Rightarrow> string \<Rightarrow> bool" where
  "EqualFold s t \<longleftrightarrow> map lower_char s = map lower_char t"

definition jwtIdentity ::
  "member_order \<Rightarrow> (jwt_error \<Rightarrow> string) \<Rightarrow> 'w jwt \<Rightarrow> 'w \<Rightarrow> identity_func" where
  "jwtIdentity mem_ord err_text auth wd r =
     (let h = Header_Get (req_header r) ''Authorization'';
          prefix = ''Bearer '' in
      if length h \<le> length prefix \<or> \<not> EqualFold (take (length prefix) h) prefix
      then Inl (ErrForeign ''missing bearer token'')
      else
        let token = TrimSpace_text (drop (length prefix) h) in
        if token = '''' then Inl (ErrForeign ''missing bearer token'')
        else
          (case fst (jwt_Decode mem_ord auth token wd) of
             Inl err \<Rightarrow> Inl (ErrForeign (err_text err))
           | Inr claims \<Rightarrow> Inr (Subject claims)))"

section \<open>Handlers\<close>

definition jwtauth_issuer :: string where "jwtauth_issuer = ''libauth-jwtauth-demo''"

definition jwtauth_ttl :: int where "jwtauth_ttl = 15 * 60 * 1000000000"

definition jwtauth_secret :: string where
  "jwtauth_secret = ''demo-secret-0123456789abcdef-demo-secret-32''"

definition loginHandler :: "(jwt_error \<Rightarrow> string) \<Rightarrow> 'w jwt \<Rightarrow> 'w \<Rightarrow> server handler" where
  "loginHandler err_text auth wd w r s =
     (case decode_field ''username'' (req_body r) of
        None \<Rightarrow> Some (writeJSON 400 (error_json ''username required'') w, s)
      | Some username \<Rightarrow>
          if username = '''' then Some (writeJSON 400 (error_json ''username required'') w, s)
          else
            (case GetUser memory_ops username (sv_enforcer s) of
               Inl err \<Rightarrow> Some (writeJSON 401 (error_json ''unknown user'') w, s)
             | Inr _ \<Rightarrow>
            (case fst (jwt_Encode auth (zero_claims\<lparr>Subject := username\<rparr>) wd) of
               Inl err \<Rightarrow> Some (writeJSON 500 (error_json (err_text err)) w, s)
             | Inr token \<Rightarrow> Some (writeJSON 200 (JObject
                 [(''expires_in'', JNumber (FormatInt (jwtauth_ttl sdiv 1000000000))),
                  (''token'', JString token),
                  (''token_type'', JString ''Bearer'')]) w, s))))"

definition jwtauth_whoami :: "server handler" where
  "jwtauth_whoami w r s =
     Some (writeJSON 200 (JObject [(''user'',
       case libauth_UserFromContext (req_ctx r) of None \<Rightarrow> JNull | Some u \<Rightarrow> user_json u)]) w, s)"

section \<open>The program\<close>

text \<open>\<open>perm\<close> of the source; \<open>None\<close> where it panics.\<close>

definition must_perm :: "string \<Rightarrow> permission option" where
  "must_perm s = (case libauth_ParsePermission s of Inl _ \<Rightarrow> None | Inr p \<Rightarrow> Some p)"

definition jwtauth_roles :: "(role_id \<times> permission list \<times> role_id) list" where
  "jwtauth_roles =
     [(''admin'', [perm ''*'' ''''], ''''),
      (''editor'', [perm ''article'' ''create'', perm ''article'' ''edit'', perm ''article'' ''read'',
         perm ''whoami'' ''read''], ''''),
      (''viewer'', [perm ''article'' ''read'', perm ''whoami'' ''read''], '''')]"

definition jwtauth_users :: "(user_id \<times> role_id list) list" where
  "jwtauth_users =
     [(''alice'', [''admin'']), (''bob'', [''editor'', ''viewer'']), (''carol'', [''viewer''])]"

definition jwtauth_seed :: "(user_id \<times> role_id list) list \<Rightarrow> memory_store enforcer option" where
  "jwtauth_seed users =
     (let m = libauth_New [] in
      case seed_roles jwtauth_roles m of
        None \<Rightarrow> None
      | Some m \<Rightarrow> seed_users users m)"

definition jwtauth_auth :: "'w jwt_clock \<Rightarrow> jwt_error + 'w jwt" where
  "jwtauth_auth sys =
     jwt_New sys jwtauth_secret
       [Some (WithTTL jwtauth_ttl), Some (WithIssuer jwtauth_issuer),
        Some (WithExpectedIssuer jwtauth_issuer)]"

datatype jwtauth_route = J_login | J_whoami | J_list | J_create

definition jwtauth_guarded ::
  "server middleware \<Rightarrow> string \<Rightarrow> server handler \<Rightarrow> server handler option" where
  "jwtauth_guarded mw p next_h = map_option (\<lambda>p. Require mw p next_h) (must_perm p)"

definition jwtauth_mux ::
  "(int goset \<Rightarrow> int list) \<Rightarrow> (jwt_error \<Rightarrow> string) \<Rightarrow> 'w jwt \<Rightarrow> server middleware \<Rightarrow> 'w
     \<Rightarrow> jwtauth_route \<Rightarrow> server handler option" where
  "jwtauth_mux ord err_text auth mw wd route =
     (case route of
        J_login \<Rightarrow> Some (loginHandler err_text auth wd)
      | J_whoami \<Rightarrow> jwtauth_guarded mw ''whoami:read'' jwtauth_whoami
      | J_list \<Rightarrow> jwtauth_guarded mw ''article:read'' (list_articles ord)
      | J_create \<Rightarrow> jwtauth_guarded mw ''article:create'' create_article)"

text \<open>
  The handler of a route as \<open>main\<close> registers it, for a request served in the world \<open>wd\<close>;
  \<open>None\<close> if \<open>main\<close> stops before.
\<close>

definition jwtauth_main ::
  "'w jwt_clock \<Rightarrow> member_order \<Rightarrow> (int goset \<Rightarrow> int list) \<Rightarrow> (jwt_error \<Rightarrow> string) \<Rightarrow> 'w
     \<Rightarrow> jwtauth_route \<Rightarrow> server handler option" where
  "jwtauth_main sys mem_ord ord err_text wd route =
     (case jwtauth_auth sys of
        Inl _ \<Rightarrow> None
      | Inr auth \<Rightarrow>
     (case libauth_NewMiddleware (Some server_authorizer) (Some (jwtIdentity mem_ord err_text auth wd)) of
        Inl _ \<Rightarrow> None
      | Inr mw \<Rightarrow> jwtauth_mux ord err_text auth mw wd route))"

text \<open>The state the server starts with.\<close>

definition jwtauth_start :: "(user_id \<times> role_id list) list \<Rightarrow> server option" where
  "jwtauth_start users = map_option new_server (jwtauth_seed users)"


section \<open>Bearer tokens\<close>

text \<open>A text without a byte of a white-space sequence is left alone.\<close>

lemma trim_by_none:
  assumes "set s \<inter> set (concat spaces) = {}"
  shows "trim_by spaces s = s"
proof -
  have "\<not> (r \<noteq> [] \<and> take (length r) s = r)" if "r \<in> set spaces" for r
  proof
    assume r: "r \<noteq> [] \<and> take (length r) s = r"
    then have "hd r \<in> set s"
      by (metis hd_in_set in_set_takeD)
    moreover have "hd r \<in> set (concat spaces)"
      using r that hd_in_set by fastforce
    ultimately show False
      using assms by blast
  qed
  then have "find (\<lambda>r. r \<noteq> [] \<and> take (length r) s = r) spaces = None"
    by (simp add: find_None_iff)
  then show ?thesis
    by (simp add: trim_by.simps)
qed

definition token_text :: "string \<Rightarrow> bool" where
  "token_text s \<longleftrightarrow> set s \<subseteq> insert (CHR ''.'') (range b64_char)"

lemma b64encode_text: "token_text (b64encode s)"
  by (induction s rule: b64encode.induct) (auto simp: token_text_def)

lemma token_text_simps [simp]:
  "token_text (s @ t) \<longleftrightarrow> token_text s \<and> token_text t" "token_text (CHR ''.'' # s) \<longleftrightarrow> token_text s"
  by (auto simp: token_text_def)

lemma Encode_text:
  assumes "fst (jwt_Encode j c w) = Inr token"
  shows "token_text token" and "token \<noteq> ''''"
proof -
  obtain h p s where "token = b64encode h @ ''.'' @ b64encode p @ ''.'' @ b64encode s"
    using assms by (auto simp: jwt_Encode_def Sign_def Let_def split: prod.splits sum.splits if_splits)
  then show "token_text token" "token \<noteq> ''''"
    by (simp_all add: b64encode_text)
qed

lemma no_space_in_token: "token_text s \<Longrightarrow> set s \<inter> set (concat space_runes) = {}"
proof -
  have "list_all (\<lambda>c. b64_index c = None \<and> c \<noteq> CHR ''.'') (concat space_runes)"
    by code_simp
  then have spaces: "b64_index c = None \<and> c \<noteq> CHR ''.''" if "c \<in> set (concat space_runes)" for c
    using that unfolding list_all_iff by (rule bspec)
  have index: "b64_index (b64_char x) \<noteq> None" for x
    using b64_sextet_char [of x] by (auto simp: b64_sextet_def)
  have disjoint: "A \<inter> S = {}" if "A \<subseteq> insert (CHR ''.'') (range b64_char)"
    and "\<And>c. c \<in> S \<Longrightarrow> b64_index c = None \<and> c \<noteq> CHR ''.''" for A S
    using that index by blast
  show "set s \<inter> set (concat space_runes) = {}" if "token_text s"
    using disjoint [OF that [unfolded token_text_def] spaces] .
qed

lemma TrimSpace_token:
  assumes "token_text s"
  shows "TrimSpace_text s = s"
proof -
  have "set (concat (map rev space_runes)) = set (concat space_runes)"
    by auto
  then show ?thesis
    using no_space_in_token [OF assms] by (simp add: TrimSpace_text_def trim_by_none del: set_concat)
qed

lemma jwtIdentity_bearer:
  assumes "Header_Get (req_header r) ''Authorization'' = ''Bearer '' @ token"
    and "token_text token" and "token \<noteq> ''''"
  shows "jwtIdentity mem_ord err_text auth wd r =
    (case fst (jwt_Decode mem_ord auth token wd) of
       Inl err \<Rightarrow> Inl (ErrForeign (err_text err))
     | Inr claims \<Rightarrow> Inr (Subject claims))"
  using assms by (simp add: jwtIdentity_def Let_def EqualFold_def TrimSpace_token)

section \<open>The server's tokens\<close>

definition jwtauth_settings :: "'w jwt_clock \<Rightarrow> 'w settings" where
  "jwtauth_settings sys =
     newSettings sys [Some (WithTTL jwtauth_ttl), Some (WithIssuer jwtauth_issuer),
       Some (WithExpectedIssuer jwtauth_issuer)]"

lemma jwtauth_settings_simps:
  "set_now (jwtauth_settings sys) = sys" "set_ttl (jwtauth_settings sys) = 900000000000"
  "set_leeway (jwtauth_settings sys) = 0" "set_expectIssuer (jwtauth_settings sys) = jwtauth_issuer"
  "accepts_own (jwtauth_settings sys)"
  by (simp_all add: jwtauth_settings_def newSettings_def WithTTL_def WithIssuer_def
      WithExpectedIssuer_def jwtauth_ttl_def jwtauth_issuer_def accepts_own_def plain_settings_def
      sane_leeway_def int64_def)

lemma jwtauth_auth_made:
  obtains auth where "jwtauth_auth sys = Inr auth"
    and "jwt_made sys [Some (WithTTL jwtauth_ttl), Some (WithIssuer jwtauth_issuer),
        Some (WithExpectedIssuer jwtauth_issuer)] auth"
proof -
  obtain auth where "jwtauth_auth sys = Inr auth"
    by (simp add: jwtauth_auth_def jwt_New_eq jwtauth_secret_def)
  then show ?thesis
    using that by (auto simp: jwtauth_auth_def jwt_made_def)
qed

lemma must_perm_simps:
  "must_perm ''whoami:read'' = Some (perm ''whoami'' ''read'')"
  "must_perm ''article:read'' = Some (perm ''article'' ''read'')"
  "must_perm ''article:create'' = Some (perm ''article'' ''create'')"
  by code_simp+

definition jwtauth_permission :: "jwtauth_route \<Rightarrow> permission" where
  "jwtauth_permission route =
     (case route of
        J_create \<Rightarrow> perm ''article'' ''create''
      | J_list \<Rightarrow> perm ''article'' ''read''
      | _ \<Rightarrow> perm ''whoami'' ''read'')"

definition jwtauth_handler :: "(int goset \<Rightarrow> int list) \<Rightarrow> jwtauth_route \<Rightarrow> server handler" where
  "jwtauth_handler ord route =
     (case route of J_create \<Rightarrow> create_article | J_list \<Rightarrow> list_articles ord | _ \<Rightarrow> jwtauth_whoami)"

lemma jwtauth_main_eq:
  assumes "jwtauth_auth sys = Inr auth"
  shows "jwtauth_main sys mem_ord ord err_text wd route =
    Some (if route = J_login then loginHandler err_text auth wd
      else Require (server_mw (jwtIdentity mem_ord err_text auth wd)) (jwtauth_permission route)
        (jwtauth_handler ord route))"
  using assms by (cases route)
    (simp_all add: jwtauth_main_def server_mw_New jwtauth_mux_def jwtauth_guarded_def must_perm_simps
      jwtauth_permission_def jwtauth_handler_def)


section \<open>A token in use\<close>

lemma FormatInt_900: "FormatInt 900 = ''900''"
  by code_simp

definition login_response :: "string \<Rightarrow> response \<Rightarrow> response" where
  "login_response token w = writeJSON 200 (JObject
     [(''expires_in'', JNumber ''900''), (''token'', JString token), (''token_type'', JString ''Bearer'')]) w"

text \<open>The moment a token issued at \<open>t0\<close> is last accepted.\<close>

definition token_end :: "go_time \<Rightarrow> int" where
  "token_end t0 = (nanos t0 + jwtauth_ttl) div 1000000000 * 1000000000"

text \<open>What a guarded route answers a caller with the identity \<open>ident\<close>, by what is stored.\<close>

definition stored_answer ::
  "(int goset \<Rightarrow> int list) \<Rightarrow> jwtauth_route \<Rightarrow> lib_error + user_id \<Rightarrow> response \<Rightarrow> request \<Rightarrow> server \<Rightarrow> server
     \<Rightarrow> (response \<times> server) option" where
  "stored_answer ord route ident w r s s1 =
     (case ident of
        Inl err \<Rightarrow> Some (failed 401 err w, s1)
      | Inr uid \<Rightarrow>
     (case fmlookup (sv_users s) uid of
        None \<Rightarrow> Some (failed 401 ErrUserNotFound w, s1)
      | Some u \<Rightarrow>
          if allowed (sv_roles s) u (jwtauth_permission route)
          then jwtauth_handler ord route w (r\<lparr>req_ctx := WithUser [] (Some u)\<rparr>) s1
          else Some (failed 403 (stored_denial (sv_enforcer s) u (jwtauth_permission route)) w, s1)))"

lemma jwtauth_route_answer:
  assumes "jwtauth_auth sys = Inr auth" and "route \<noteq> J_login" and "sv_good s" and "req_ctx r = []"
  shows "\<exists>h s1. jwtauth_main sys mem_ord ord err_text wd route = Some h \<and> sv_fills s s1 \<and>
    h w r s = stored_answer ord route (jwtIdentity mem_ord err_text auth wd r) w r s s1"
  using sv_require [OF assms(3,4), of "jwtIdentity mem_ord err_text auth wd" "jwtauth_permission route"
      "jwtauth_handler ord route" w] jwtauth_main_eq [OF assms(1)] assms(2)
  by (simp add: stored_answer_def)

text \<open>The log-in handler on a stored user, and the token it issues at whatever time.\<close>

lemma GetUser_stored:
  assumes "sv_good s"
  shows "GetUser memory_ops u (sv_enforcer s) =
    (case fmlookup (sv_users s) u of None \<Rightarrow> Inl ErrUserNotFound | Some v \<Rightarrow> Inr v)"
  using sv.au_get [OF assms, of u] by (simp add: server_authorizer_def)

lemma loginHandler_stored:
  assumes "sv_good s" and "decode_field ''username'' (req_body r) = Some u" and "u \<noteq> ''''"
    and "fmlookup (sv_users s) u = Some v"
  shows "loginHandler err_text auth wd w r s =
    (case fst (jwt_Encode auth (zero_claims\<lparr>Subject := u\<rparr>) wd) of
       Inl err \<Rightarrow> Some (writeJSON 500 (error_json (err_text err)) w, s)
     | Inr token \<Rightarrow> Some (login_response token w, s))"
  using assms by (simp add: loginHandler_def GetUser_stored login_response_def jwtauth_ttl_def FormatInt_900
      split: sum.split)

lemma login_token_names:
  assumes auth: "jwtauth_auth sys = Inr auth" and now: "sys wd = (t0, wd1)" "time_ok t0"
    and u: "u \<noteq> ''''" "valid_utf8 u"
  obtains token where "fst (jwt_Encode auth (zero_claims\<lparr>Subject := u\<rparr>) wd) = Inr token"
    and "\<And>mem_ord wd' r' uid. visits mem_ord \<Longrightarrow>
      Header_Get (req_header r') ''Authorization'' = ''Bearer '' @ token \<Longrightarrow>
      jwtIdentity mem_ord err_text auth wd' r' = Inr uid \<Longrightarrow> uid = u"
proof -
  let ?opts = "[Some (WithTTL jwtauth_ttl), Some (WithIssuer jwtauth_issuer),
      Some (WithExpectedIssuer jwtauth_issuer)]" and ?cfg = "jwtauth_settings sys"
    and ?c = "zero_claims\<lparr>Subject := u\<rparr>"
  note cfg = jwtauth_settings_simps [of sys]
  have made: "jwt_made sys ?opts auth" "?cfg = newSettings sys ?opts"
    using auth by (auto simp: jwtauth_auth_def jwt_made_def jwtauth_settings_def)
  have "Subject ?c \<noteq> ''''" "plain_claims ?c" "shallow_extra ?c" "plain_settings ?cfg"
      "set_now ?cfg wd = (t0, wd1)" "\<not> IsZero (ExpiresAt ?c) \<or> 0 < set_ttl ?cfg"
    using u cfg(5) now(1) by (simp_all add: plain_claims_def zero_claims_def plain_extra_def zero_time_def
        time_ok_def int64_def shallow_extra_def accepts_own_def cfg(1,2))
  then obtain token where enc: "jwt_Encode auth ?c wd = (Inr token, wd1)"
    and dec: "\<forall>ord w'. visits ord \<longrightarrow>
      jwt_Decode ord auth token w' = judged (jw_verify auth) (settled (defaulted ?cfg t0 ?c)) w'"
    using encode_decode [OF made _ _ _ _ _ now(2)] by blast
  have subject: "Subject (settled (defaulted ?cfg t0 ?c)) = u"
    by (simp add: settled_def defaulted_def zero_claims_def Let_def)
  have plain: "token_text token" "token \<noteq> ''''"
    using Encode_text [of auth ?c wd token] enc by simp_all
  show ?thesis
  proof (rule that [of token])
    fix mem_ord :: member_order and wd' uid and r' :: request
    assume "visits mem_ord" and header: "Header_Get (req_header r') ''Authorization'' = ''Bearer '' @ token"
      and "jwtIdentity mem_ord err_text auth wd' r' = Inr uid"
    then show "uid = u"
      using dec subject jwtIdentity_bearer [OF header plain, of mem_ord err_text auth wd']
      by (auto simp: judged_def split: sum.splits prod.splits option.splits)
  qed (simp add: enc)
qed

text \<open>A token that the login of \<open>u\<close> at \<open>t0\<close> has issued names \<open>u\<close> until it expires.\<close>

definition names_owner ::
  "'w jwt_clock \<Rightarrow> (jwt_error \<Rightarrow> string) \<Rightarrow> 'w jwt \<Rightarrow> go_time \<Rightarrow> user_id \<Rightarrow> string \<Rightarrow> bool" where
  "names_owner sys err_text auth t0 u token \<longleftrightarrow>
     (\<forall>mem_ord wd t wd' r. visits mem_ord \<longrightarrow> sys wd = (t, wd') \<longrightarrow> time_ok t \<longrightarrow>
        nanos t0 \<le> nanos t \<longrightarrow> Header_Get (req_header r) ''Authorization'' = ''Bearer '' @ token \<longrightarrow>
        (\<exists>err. jwt_Is err ErrTokenExpired \<and> jwtIdentity mem_ord err_text auth wd r =
          (if nanos t \<le> token_end t0 then Inr u else Inl (ErrForeign (err_text err)))))"

lemmas names_ownerD = names_owner_def [THEN iffD1, rule_format]

lemma login_issues:
  assumes auth: "jwtauth_auth sys = Inr auth" and now: "sys wd = (t0, wd1)" "modern t0"
    and u: "decode_field ''username'' (req_body r) = Some u" "u \<noteq> ''''"
      "fmlookup (sv_users s) u = Some v" and good: "sv_good s"
  obtains token where "loginHandler err_text auth wd w r s = Some (login_response token w, s)"
    and "names_owner sys err_text auth t0 u token"
proof -
  let ?opts = "[Some (WithTTL jwtauth_ttl), Some (WithIssuer jwtauth_issuer),
      Some (WithExpectedIssuer jwtauth_issuer)]" and ?cfg = "jwtauth_settings sys"
  note cfg = jwtauth_settings_simps [of sys]
  have made: "jwt_made sys ?opts auth" "?cfg = newSettings sys ?opts"
    using auth by (auto simp: jwtauth_auth_def jwt_made_def jwtauth_settings_def)
  have clock: "set_now ?cfg wd = (t0, wd1)"
    using now(1) by (simp add: cfg)
  obtain token where enc: "jwt_Encode auth (zero_claims\<lparr>Subject := u\<rparr>) wd = (Inr token, wd1)"
    and dec: "\<forall>ord w'. visits ord \<longrightarrow>
      jwt_Decode ord auth token w' = judged (jw_verify auth) (fresh_claims ?cfg t0 u) w'"
    using fresh_encode_decode [OF made cfg(5) u(2) decode_field_valid [OF u(1)] clock now(2)] by blast
  have plain: "token_text token" "token \<noteq> ''''"
    using Encode_text [of auth "zero_claims\<lparr>Subject := u\<rparr>" wd token] enc by simp_all
  have "names_owner sys err_text auth t0 u token"
    unfolding names_owner_def
  proof (intro allI impI)
    fix mem_ord :: member_order and wd' t wd'' and r' :: request
    assume visits: "visits mem_ord" and t: "sys wd' = (t, wd'')" "time_ok t" "nanos t0 \<le> nanos t"
      and header: "Header_Get (req_header r') ''Authorization'' = ''Bearer '' @ token"
    have "validate (jw_verify auth) (fresh_claims ?cfg t0 u) wd' =
        (if nanos t \<le> token_end t0 then None
         else Some (ExpiredOn (ExpiresAt (fresh_claims ?cfg t0 u))), wd'')"
      using fresh_validate [OF made cfg(5) now(2), of wd' t wd'' u] t
      by (simp add: cfg last_nano_def token_end_def jwtauth_ttl_def)
    then show "\<exists>err. jwt_Is err ErrTokenExpired \<and> jwtIdentity mem_ord err_text auth wd' r' =
        (if nanos t \<le> token_end t0 then Inr u else Inl (ErrForeign (err_text err)))"
      using dec visits jwtIdentity_bearer [OF header plain, of mem_ord err_text auth wd']
        fresh_claims_fields(5) [OF cfg(5) now(2)]
      by (intro exI [of _ "ExpiredOn (ExpiresAt (fresh_claims ?cfg t0 u))"])
        (simp add: judged_def jwt_Is_def)
  qed
  then show ?thesis
    by (rule that [rotated]) (simp add: loginHandler_stored [OF good u] enc)
qed

section \<open>Properties\<close>

text \<open>The server as it starts.\<close>

lemma jwtauth_roles_seeded:
  obtains m where "seed_roles jwtauth_roles start = Some m"
    and "ms_roles (e_store m) = role_table jwtauth_roles"
proof (rule that)
  let ?m = "the (seed_roles jwtauth_roles start)"
  show "seed_roles jwtauth_roles start = Some ?m"
    by code_simp
  show "ms_roles (e_store ?m) = role_table jwtauth_roles"
    by code_simp
qed

lemma jwtauth_seeded:
  assumes "mset users = mset jwtauth_users"
  obtains e where "jwtauth_seed users = Some e" and "safe_from_start e"
    and "ms_roles (e_store e) = role_table jwtauth_roles"
    and "\<forall>uid. fmlookup (ms_users (e_store e)) uid =
      map_option (\<lambda>roles. \<lparr>ID = uid, Roles = roles, Direct = []\<rparr>) (map_of jwtauth_users uid)"
proof -
  obtain m where m: "seed_roles jwtauth_roles start = Some m"
      and roles: "ms_roles (e_store m) = role_table jwtauth_roles"
    by (rule jwtauth_roles_seeded)
  obtain e where e: "seed_users users m = Some e" "safe_from_start e"
      "ms_roles (e_store e) = ms_roles (e_store m)"
      and lookup: "\<And>uid. fmlookup (ms_users (e_store e)) uid =
        map_option (\<lambda>roles. \<lparr>ID = uid, Roles = roles, Direct = []\<rparr>) (map_of jwtauth_users uid)"
    by (rule seeded_enforcer [OF m assms]) (auto simp: jwtauth_users_def)
  show ?thesis
    by (rule that [OF _ e(2)]) (simp_all add: jwtauth_seed_def start_simps m e(1,3) roles lookup)
qed

definition jwtauth_state :: server where
  "jwtauth_state = the (jwtauth_start jwtauth_users)"

lemma jwtauth_state_facts:
  "sv_good jwtauth_state" "safe_from_start (sv_enforcer jwtauth_state)"
  "sv_roles jwtauth_state = role_table jwtauth_roles"
  "fmlookup (sv_users jwtauth_state) ''bob'' =
     Some \<lparr>ID = ''bob'', Roles = [''editor'', ''viewer''], Direct = []\<rparr>"
proof -
  obtain e where e: "jwtauth_seed jwtauth_users = Some e" "safe_from_start e"
    "ms_roles (e_store e) = role_table jwtauth_roles"
    and lookup: "\<forall>uid. fmlookup (ms_users (e_store e)) uid =
      map_option (\<lambda>roles. \<lparr>ID = uid, Roles = roles, Direct = []\<rparr>) (map_of jwtauth_users uid)"
    by (rule jwtauth_seeded [OF refl])
  have state: "jwtauth_state = new_server e"
    by (simp add: jwtauth_state_def jwtauth_start_def e(1))
  show "sv_good jwtauth_state"
    by (simp add: state sv_good_start e(2))
  show "safe_from_start (sv_enforcer jwtauth_state)" "sv_roles jwtauth_state = role_table jwtauth_roles"
    using e(2,3) by (simp_all add: state new_server_def)
  show "fmlookup (sv_users jwtauth_state) ''bob'' =
     Some \<lparr>ID = ''bob'', Roles = [''editor'', ''viewer''], Direct = []\<rparr>"
    by (simp add: state new_server_def lookup jwtauth_users_def)
qed

definition no_text :: "jwt_error \<Rightarrow> string" where
  "no_text err = ''bad token''"

definition login_request :: "string \<Rightarrow> request" where
  "login_request body = \<lparr>req_header = fmempty, req_body = body, req_path = [], req_ctx = []\<rparr>"

definition bearer_request :: "string \<Rightarrow> request" where
  "bearer_request token =
     \<lparr>req_header = Header_Set ''Authorization'' (''Bearer '' @ token) fmempty, req_body = ''{}'',
      req_path = [], req_ctx = []\<rparr>"

lemma bearer_request_header:
  "Header_Get (req_header (bearer_request token)) ''Authorization'' = ''Bearer '' @ token"
  by (simp add: bearer_request_def Header_Get_def Header_Set_def)

lemma bob_login: "decode_field ''username'' (req_body (login_request ''{\"username\":\"bob\"}'')) = Some ''bob''"
  by code_simp

text \<open>A token that the server has issued to \<open>u\<close> at \<open>t0\<close>, at the guards.\<close>

definition serves_owner ::
  "'w jwt_clock \<Rightarrow> (int goset \<Rightarrow> int list) \<Rightarrow> (jwt_error \<Rightarrow> string) \<Rightarrow> go_time \<Rightarrow> user_id \<Rightarrow> string \<Rightarrow> bool" where
  "serves_owner sys ord err_text t0 u token \<longleftrightarrow>
     (\<forall>route w r s wd t wd' mem_ord. route \<noteq> J_login \<longrightarrow> visits mem_ord \<longrightarrow> sv_good s \<longrightarrow>
       req_ctx r = [] \<longrightarrow> Header_Get (req_header r) ''Authorization'' = ''Bearer '' @ token \<longrightarrow>
       sys wd = (t, wd') \<longrightarrow> time_ok t \<longrightarrow> nanos t0 \<le> nanos t \<longrightarrow>
       (\<exists>h s1 err. jwtauth_main sys mem_ord ord err_text wd route = Some h \<and> sv_fills s s1 \<and>
          jwt_Is err ErrTokenExpired \<and>
          h w r s = stored_answer ord route
            (if nanos t \<le> token_end t0 then Inr u else Inl (ErrForeign (err_text err))) w r s s1))"

lemma bearer_served:
  assumes "sys wd = (t0, wd1)" and "modern t0" and "sv_good s"
    and "decode_field ''username'' (req_body r) = Some u" and "u \<noteq> ''''"
    and "fmlookup (sv_users s) u = Some v"
  obtains token login where "jwtauth_main sys mem_ord ord err_text wd J_login = Some login"
    and "login w r s = Some (login_response token w, s)"
    and "serves_owner sys ord err_text t0 u token"
proof -
  obtain auth where auth: "jwtauth_auth sys = Inr auth"
    by (rule jwtauth_auth_made)
  obtain token where login: "loginHandler err_text auth wd w r s = Some (login_response token w, s)"
    and ident: "names_owner sys err_text auth t0 u token"
    by (rule login_issues [OF auth assms(1,2,4-6,3)])
  have serves: "serves_owner sys ord err_text t0 u token"
    unfolding serves_owner_def
  proof (intro allI impI)
    fix route w' s' wd' t wd'' and r' :: request and mem_ord' :: member_order
    assume a: "route \<noteq> J_login" "visits mem_ord'" "sv_good s'" "req_ctx r' = []"
      "Header_Get (req_header r') ''Authorization'' = ''Bearer '' @ token"
      "sys wd' = (t, wd'')" "time_ok t" "nanos t0 \<le> nanos t"
    show "\<exists>h s1 err. jwtauth_main sys mem_ord' ord err_text wd' route = Some h \<and> sv_fills s' s1 \<and>
        jwt_Is err ErrTokenExpired \<and> h w' r' s' = stored_answer ord route
          (if nanos t \<le> token_end t0 then Inr u else Inl (ErrForeign (err_text err))) w' r' s' s1"
    proof -
      obtain err where err: "jwt_Is err ErrTokenExpired" "jwtIdentity mem_ord' err_text auth wd' r' =
          (if nanos t \<le> token_end t0 then Inr u else Inl (ErrForeign (err_text err)))"
        using names_ownerD [OF ident a(2,6-8,5)] by blast
      obtain h s1 where "jwtauth_main sys mem_ord' ord err_text wd' route = Some h" "sv_fills s' s1"
          "h w' r' s' = stored_answer ord route (jwtIdentity mem_ord' err_text auth wd' r') w' r' s' s1"
        using jwtauth_route_answer [OF auth a(1,3,4)] by blast
      then show ?thesis
        using err by (intro exI [of _ h] exI [of _ s1] exI [of _ err]) simp
    qed
  qed
  show ?thesis
    by (rule that [of "loginHandler err_text auth wd", OF _ login serves]) (simp add: jwtauth_main_eq [OF auth])
qed

text \<open>C10: A token serves the stored access of its owner. After \<open>POST /login\<close> has issued a token to a known
user, every guarded route takes a request that bears it for that user, up to the whole second in
which the TTL of 15 minutes ends, and turns it away with 401 as expired from then on; what the user
may do is decided by what is stored when the request comes in, not by the token.\<close>

theorem bearer_token_serves_stored_access:
  assumes "sys wd = (t0, wd1)" and "modern t0" and "sv_good s"
    and "decode_field ''username'' (req_body r) = Some u" and "u \<noteq> ''''"
    and "fmlookup (sv_users s) u = Some v"
  shows "\<exists>token login. jwtauth_main sys mem_ord ord err_text wd J_login = Some login \<and>
    login w r s = Some (login_response token w, s) \<and>
    (\<forall>route w' r' s' wd' t wd'' mem_ord'. route \<noteq> J_login \<longrightarrow> visits mem_ord' \<longrightarrow> sv_good s' \<longrightarrow>
       req_ctx r' = [] \<longrightarrow> Header_Get (req_header r') ''Authorization'' = ''Bearer '' @ token \<longrightarrow>
       sys wd' = (t, wd'') \<longrightarrow> time_ok t \<longrightarrow> nanos t0 \<le> nanos t \<longrightarrow>
       (\<exists>h s1 err. jwtauth_main sys mem_ord' ord err_text wd' route = Some h \<and> sv_fills s' s1 \<and>
          jwt_Is err ErrTokenExpired \<and>
          h w' r' s' = stored_answer ord route
            (if nanos t \<le> token_end t0 then Inr u else Inl (ErrForeign (err_text err))) w' r' s' s1))"
proof -
  obtain token login where "jwtauth_main sys mem_ord ord err_text wd J_login = Some login"
      "login w r s = Some (login_response token w, s)"
    and "serves_owner sys ord err_text t0 u token"
    by (rule bearer_served [of sys wd t0 wd1 s r u v mem_ord ord err_text w, OF assms])
  then show ?thesis
    unfolding serves_owner_def by - (rule exI, rule exI, intro conjI)
qed

text \<open>Bob logs in at \<open>demo_time\<close> and is who the token says a quarter of an hour later, less a second.\<close>

lemma demo_login: "tick demo_time = (demo_time, Time_Add demo_time 1000000000)"
  by (simp add: tick_def)

lemma token_end_demo: "token_end demo_time = nanos (GoTime 63835597700 0)"
  by (simp add: token_end_def jwtauth_ttl_def nanos_def demo_time_def)

lemma jwtauth_role_lookup:
  "fmlookup (role_table jwtauth_roles) ''editor'' =
     Some \<lparr>Name = ''editor'', Permissions = [perm ''article'' ''create'', perm ''article'' ''edit'',
       perm ''article'' ''read'', perm ''whoami'' ''read''], Parent = ''''\<rparr>"
  "fmlookup (role_table jwtauth_roles) ''viewer'' =
     Some \<lparr>Name = ''viewer'', Permissions = [perm ''article'' ''read'', perm ''whoami'' ''read''], Parent = ''''\<rparr>"
  by (simp_all add: role_table_def jwtauth_roles_def fmlookup_of_list)

lemma jwtauth_allowed:
  "allowed (role_table jwtauth_roles) \<lparr>ID = uid, Roles = [''editor'', ''viewer''], Direct = []\<rparr>
     (perm ''article'' ''create'')"
  "\<not> allowed (role_table jwtauth_roles) \<lparr>ID = uid, Roles = [''viewer''], Direct = []\<rparr>
     (perm ''article'' ''create'')"
proof -
  have "effective_roles (role_table jwtauth_roles) [''editor'', ''viewer''] = {''editor'', ''viewer''}"
    "effective_roles (role_table jwtauth_roles) [''viewer''] = {''viewer''}"
    by (subst effective_closed; auto simp: jwtauth_role_lookup)+
  then show "allowed (role_table jwtauth_roles) \<lparr>ID = uid, Roles = [''editor'', ''viewer''], Direct = []\<rparr>
     (perm ''article'' ''create'')"
    "\<not> allowed (role_table jwtauth_roles) \<lparr>ID = uid, Roles = [''viewer''], Direct = []\<rparr>
     (perm ''article'' ''create'')"
    by (simp_all add: allowed_def granted_perms_def role_perms_def jwtauth_role_lookup Matches_iff)
qed

lemma bearer_token_serves_stored_access_witness:
  "\<exists>token login h s1. jwtauth_main tick rev sorted_list_of_fset no_text demo_time J_login = Some login \<and>
     login blank (login_request ''{\"username\":\"bob\"}'') jwtauth_state =
       Some (login_response token blank, jwtauth_state) \<and>
     jwtauth_main tick rev sorted_list_of_fset no_text (GoTime 63835597700 0) J_create = Some h \<and>
     h blank (bearer_request token) jwtauth_state =
       create_article blank (bearer_request token\<lparr>req_ctx := WithUser [] (Some
         \<lparr>ID = ''bob'', Roles = [''editor'', ''viewer''], Direct = []\<rparr>)\<rparr>) s1"
proof -
  let ?ord = "sorted_list_of_fset" and ?s = jwtauth_state and ?r = "login_request ''{\"username\":\"bob\"}''"
  obtain token login where login: "jwtauth_main tick rev ?ord no_text demo_time J_login = Some login"
      "login blank ?r ?s = Some (login_response token blank, ?s)"
    and served: "\<forall>route w' r' s' wd' t wd'' mem_ord'. route \<noteq> J_login \<longrightarrow> visits mem_ord' \<longrightarrow> sv_good s' \<longrightarrow>
       req_ctx r' = [] \<longrightarrow> Header_Get (req_header r') ''Authorization'' = ''Bearer '' @ token \<longrightarrow>
       tick wd' = (t, wd'') \<longrightarrow> time_ok t \<longrightarrow> nanos demo_time \<le> nanos t \<longrightarrow>
       (\<exists>h s1 err. jwtauth_main tick mem_ord' ?ord no_text wd' route = Some h \<and> sv_fills s' s1 \<and>
          jwt_Is err ErrTokenExpired \<and>
          h w' r' s' = stored_answer ?ord route
            (if nanos t \<le> token_end demo_time then Inr ''bob'' else Inl (ErrForeign (no_text err))) w' r' s' s1)"
    using bearer_token_serves_stored_access [of tick demo_time demo_time "Time_Add demo_time 1000000000" ?s ?r "''bob''"
          "\<lparr>ID = ''bob'', Roles = [''editor'', ''viewer''], Direct = []\<rparr>", OF demo_login demo_modern
          jwtauth_state_facts(1) bob_login _ jwtauth_state_facts(4), of rev ?ord no_text blank] by blast
  have late: "visits rev" "req_ctx (bearer_request token) = []" "time_ok (GoTime 63835597700 0)"
      "tick (GoTime 63835597700 0) = (GoTime 63835597700 0, Time_Add (GoTime 63835597700 0) 1000000000)"
      "nanos demo_time \<le> nanos (GoTime 63835597700 0)" "J_create \<noteq> J_login"
    by (simp_all add: visits_def bearer_request_def time_ok_def int64_def nanos_def demo_time_def tick_def)
  obtain h s1 where "jwtauth_main tick rev ?ord no_text (GoTime 63835597700 0) J_create = Some h"
      "h blank (bearer_request token) ?s = stored_answer ?ord J_create (Inr ''bob'') blank (bearer_request token) ?s s1"
    using served [rule_format, OF late(6,1) jwtauth_state_facts(1) late(2) bearer_request_header late(4,3,5), of blank]
    by (auto simp: token_end_demo)
  with login show ?thesis
    by (intro exI [of _ token] exI [of _ login] exI [of _ h] exI [of _ s1])
      (simp add: stored_answer_def jwtauth_state_facts jwtauth_permission_def jwtauth_handler_def jwtauth_allowed)
qed

text \<open>C30: What \<open>POST /login\<close> answers: 400 without a user name, 401 for a name that is not stored, and
200 with a token for a stored one, at whatever time; it never fails with 500 and changes nothing; and
a token it issues is never taken for anyone but the user it was issued to.\<close>

theorem login_outcome:
  assumes "jwtauth_auth sys = Inr auth" and "sys wd = (t0, wd1)" and "time_ok t0" and "sv_good s"
  shows "\<exists>login token. jwtauth_main sys mem_ord ord err_text wd J_login = Some login \<and>
    login w r s = Some
     (case decode_field ''username'' (req_body r) of
        None \<Rightarrow> writeJSON 400 (error_json ''username required'') w
      | Some u \<Rightarrow>
          if u = '''' then writeJSON 400 (error_json ''username required'') w
          else if u |\<notin>| fmdom (sv_users s) then writeJSON 401 (error_json ''unknown user'') w
          else login_response token w, s) \<and>
    (\<forall>r' wd' uid mem_ord'. visits mem_ord' \<longrightarrow>
       Header_Get (req_header r') ''Authorization'' = ''Bearer '' @ token \<longrightarrow>
       jwtIdentity mem_ord' err_text auth wd' r' = Inr uid \<longrightarrow>
       decode_field ''username'' (req_body r) = Some uid)"
proof -
  let ?u = "decode_field ''username'' (req_body r)"
  have main: "jwtauth_main sys mem_ord ord err_text wd J_login = Some (loginHandler err_text auth wd)"
    by (simp add: jwtauth_main_eq [OF assms(1)])
  show ?thesis
  proof (cases "\<exists>u. ?u = Some u \<and> u \<noteq> '''' \<and> u |\<in>| fmdom (sv_users s)")
    case True
    then obtain u v where u: "?u = Some u" "u \<noteq> ''''" "fmlookup (sv_users s) u = Some v"
      by (auto simp: fmdom_lookup)
    obtain token where "fst (jwt_Encode auth (zero_claims\<lparr>Subject := u\<rparr>) wd) = Inr token"
      and ident: "\<And>mem_ord wd' r' uid. visits mem_ord \<Longrightarrow>
        Header_Get (req_header r') ''Authorization'' = ''Bearer '' @ token \<Longrightarrow>
        jwtIdentity mem_ord err_text auth wd' r' = Inr uid \<Longrightarrow> uid = u"
      using login_token_names [OF assms(1-3) u(2) decode_field_valid [OF u(1)]] by metis
    moreover from this(1) have "loginHandler err_text auth wd w r s = Some (login_response token w, s)"
      by (simp add: loginHandler_stored [OF assms(4) u])
    ultimately show ?thesis
      using main u by (intro exI [of _ "loginHandler err_text auth wd"] exI [of _ token])
        (auto simp: fmdom_lookup)
  next
    case False
    then show ?thesis
      using main GetUser_stored [OF assms(4)]
      by (intro exI [of _ "loginHandler err_text auth wd"] exI [of _ "''''"])
        (auto simp: loginHandler_def jwtIdentity_def fmdom_lookup fmdom_notI split: option.split)
  qed
qed

lemma login_outcome_witness:
  "\<exists>auth token login. jwtauth_auth tick = Inr auth \<and>
     jwtauth_main tick rev sorted_list_of_fset no_text demo_time J_login = Some login \<and>
     login blank (login_request ''{\"username\":\"bob\"}'') jwtauth_state =
       Some (login_response token blank, jwtauth_state) \<and>
     (\<forall>wd uid. jwtIdentity rev no_text auth wd (bearer_request token) = Inr uid \<longrightarrow> uid = ''bob'')"
proof -
  let ?ord = "sorted_list_of_fset" and ?s = jwtauth_state and ?r = "login_request ''{\"username\":\"bob\"}''"
  obtain auth where auth: "jwtauth_auth tick = Inr auth"
    by (rule jwtauth_auth_made)
  have known: "''bob'' |\<in>| fmdom (sv_users ?s)"
    using jwtauth_state_facts(4) by (rule fmdomI)
  obtain login token where login: "jwtauth_main tick rev ?ord no_text demo_time J_login = Some login"
      "login blank ?r ?s = Some (login_response token blank, ?s)"
    and named: "\<forall>r' wd' uid mem_ord'. visits mem_ord' \<longrightarrow>
       Header_Get (req_header r') ''Authorization'' = ''Bearer '' @ token \<longrightarrow>
       jwtIdentity mem_ord' no_text auth wd' r' = Inr uid \<longrightarrow> Some ''bob'' = Some uid"
    using login_outcome [OF auth demo_login demo_simps(12) jwtauth_state_facts(1), of rev ?ord no_text blank ?r]
      known unfolding bob_login by auto
  have "visits rev"
    by (simp add: visits_def)
  then show ?thesis
    using auth login named bearer_request_header [of token] by blast
qed

lemma bearer_length: "length ''Bearer '' = 7"
  by simp

lemma lower_bearer: "map lower_char ''Bearer '' = ''bearer ''"
  by code_simp

text \<open>C12: An identity is never made up. When \<open>jwtIdentity\<close> names a caller, the \<open>Authorization\<close> header has the
scheme \<open>Bearer\<close> in some case, and what follows, less the white space around it, is a token whose third
part is the HMAC-SHA-256 of the other two under the server's secret and whose claims name that caller,
name this server as the issuer, and pass \<open>validate\<close> at that moment.\<close>

theorem bearer_identity_is_signed:
  assumes "jwtauth_auth sys = Inr auth" and "jwtIdentity mem_ord err_text auth wd r = Inr uid"
  shows "\<exists>scheme rest h p s payload c.
    Header_Get (req_header r) ''Authorization'' = scheme @ rest \<and> map lower_char scheme = ''bearer '' \<and>
    TrimSpace_text rest = compact h p s \<and>
    b64decode s = Some (hmac_sha256 jwtauth_secret (h @ ''.'' @ p)) \<and>
    b64decode p = Some payload \<and> json_Unmarshal_claims mem_ord payload = Inr c \<and>
    Subject c = uid \<and> Issuer c = jwtauth_issuer \<and> fst (validate (jw_verify auth) c wd) = None"
proof -
  let ?h = "Header_Get (req_header r) ''Authorization''"
  let ?token = "TrimSpace_text (drop 7 ?h)"
  obtain c where scheme: "map lower_char (take 7 ?h) = ''bearer ''"
    and dec: "fst (jwt_Decode mem_ord auth ?token wd) = Inr c" "Subject c = uid"
    using assms(2) unfolding jwtIdentity_def Let_def EqualFold_def bearer_length lower_bearer
    by (auto split: if_splits sum.splits)
  have alg: "vf_alg (jw_verify auth) = hmac_algorithm \<lparr>algName = AlgHS256, hmac_secret = jwtauth_secret\<rparr>"
    and cfg: "vf_set (jw_verify auth) = jwtauth_settings sys"
    using assms(1) by (auto simp: jwtauth_auth_def jwt_New_eq jwtauth_settings_def split: if_splits)
  obtain h p s sig payload where t: "?token = compact h p s" "b64decode s = Some sig"
      "alg_verify (vf_alg (jw_verify auth)) (h @ ''.'' @ p) sig = None"
      "b64decode p = Some payload" "json_Unmarshal_claims mem_ord payload = Inr c"
      "fst (validate (jw_verify auth) c wd) = None"
    using Verify_accepts dec(1) unfolding jwt_Decode_def by metis
  have "sig = hmac_sha256 jwtauth_secret (h @ ''.'' @ p)"
    using t(3) by (simp add: alg hmac_algorithm_def hmacAlg_verify_def split: if_splits)
  then have sig: "b64decode s = Some (hmac_sha256 jwtauth_secret (h @ ''.'' @ p))"
    using t(2) by (simp only:)
  have issuer: "Issuer c = jwtauth_issuer"
    using t(6) by (simp add: validate_def cfg jwtauth_settings_simps Let_def jwtauth_issuer_def split: if_splits prod.splits)
  show ?thesis
    by (intro exI conjI, rule append_take_drop_id [symmetric, of _ 7]) (fact scheme t(1) sig t(4-6) dec(2) issuer)+
qed

lemma bearer_identity_is_signed_witness:
  "\<exists>auth token scheme rest h p s. jwtauth_auth tick = Inr auth \<and>
     jwtIdentity rev no_text auth demo_time (bearer_request token) = Inr ''bob'' \<and>
     ''Bearer '' @ token = scheme @ rest \<and> TrimSpace_text rest = compact h p s \<and>
     b64decode s = Some (hmac_sha256 jwtauth_secret (h @ ''.'' @ p))"
proof -
  obtain auth where auth: "jwtauth_auth tick = Inr auth"
    by (rule jwtauth_auth_made)
  obtain token where ident: "names_owner tick no_text auth demo_time ''bob'' token"
    by (rule login_issues [OF auth demo_login demo_modern bob_login _ jwtauth_state_facts(4,1)]) simp_all
  have "jwtIdentity rev no_text auth demo_time (bearer_request token) = Inr ''bob''"
    using names_ownerD [OF ident _ demo_login demo_simps(12) order.refl bearer_request_header, of rev]
    by (auto simp: visits_def token_end_demo) (simp add: nanos_def demo_time_def)
  moreover from bearer_identity_is_signed [OF auth this] obtain scheme rest h p s where
      "''Bearer '' @ token = scheme @ rest" "TrimSpace_text rest = compact h p s"
      "b64decode s = Some (hmac_sha256 jwtauth_secret (h @ ''.'' @ p))"
    unfolding bearer_request_header by (elim exE conjE)
  ultimately show ?thesis
    using auth by - (intro exI conjI)
qed

text \<open>C11: Taking a role from a user takes effect on the next request, although the token stays valid. When
the enforcer has taken the role from the owner of a token that the server issued, every guarded request
with that token, until it expires, is served exactly if the roles and direct permissions that are left
allow it, and is answered with 403 otherwise.\<close>

theorem revocation_effective_next_request:
  assumes "sys wd = (t0, wd1)" and "modern t0" and "sv_good s"
    and "decode_field ''username'' (req_body r) = Some u" and "u \<noteq> ''''"
    and "fmlookup (sv_users s) u = Some v" and "role |\<in>| fmdom (sv_roles s)"
  shows "\<exists>token login. jwtauth_main sys mem_ord ord err_text wd J_login = Some login \<and>
    login w r s = Some (login_response token w, s) \<and>
    fst (RevokeRole memory_ops u role (sv_enforcer s)) = None \<and>
    (\<forall>route w' r' s' wd' t wd'' mem_ord'. route \<noteq> J_login \<longrightarrow> visits mem_ord' \<longrightarrow>
       sv_enforcer s' = snd (RevokeRole memory_ops u role (sv_enforcer s)) \<longrightarrow>
       req_ctx r' = [] \<longrightarrow> Header_Get (req_header r') ''Authorization'' = ''Bearer '' @ token \<longrightarrow>
       sys wd' = (t, wd'') \<longrightarrow> time_ok t \<longrightarrow> nanos t0 \<le> nanos t \<longrightarrow> nanos t \<le> token_end t0 \<longrightarrow>
       (let left = v\<lparr>Roles := filter (\<lambda>r. r \<noteq> role) (Roles v)\<rparr> in
        \<exists>h s1. jwtauth_main sys mem_ord' ord err_text wd' route = Some h \<and> sv_fills s' s1 \<and>
          h w' r' s' =
            (if allowed (sv_roles s) left (jwtauth_permission route)
             then jwtauth_handler ord route w' (r'\<lparr>req_ctx := WithUser [] (Some left)\<rparr>) s1
             else Some (failed 403 (stored_denial (sv_enforcer s') left (jwtauth_permission route)) w', s1))))"
proof -
  obtain token login where login: "jwtauth_main sys mem_ord ord err_text wd J_login = Some login"
      "login w r s = Some (login_response token w, s)"
    and served: "serves_owner sys ord err_text t0 u token"
    by (rule bearer_served [of sys wd t0 wd1 s r u v mem_ord ord err_text w, OF assms(1-6)])
  note revoke = sv_revoke [OF assms(3,6,7)]
  show ?thesis
  proof (rule exI [of _ token], rule exI [of _ login], intro conjI allI impI)
    show "fst (RevokeRole memory_ops u role (sv_enforcer s)) = None"
      by (rule revoke(1) [of "s\<lparr>sv_enforcer := snd (RevokeRole memory_ops u role (sv_enforcer s))\<rparr>"]) simp
  next
    fix route w' wd' t wd'' and s' :: server and r' :: request and mem_ord' :: member_order
    assume a: "route \<noteq> J_login" "visits mem_ord'"
      "sv_enforcer s' = snd (RevokeRole memory_ops u role (sv_enforcer s))" "req_ctx r' = []"
      "Header_Get (req_header r') ''Authorization'' = ''Bearer '' @ token"
      "sys wd' = (t, wd'')" "time_ok t" "nanos t0 \<le> nanos t" "nanos t \<le> token_end t0"
    note r = revoke(2-4) [OF a(3)]
    show "let left = v\<lparr>Roles := filter (\<lambda>r. r \<noteq> role) (Roles v)\<rparr> in
        \<exists>h s1. jwtauth_main sys mem_ord' ord err_text wd' route = Some h \<and> sv_fills s' s1 \<and>
          h w' r' s' =
            (if allowed (sv_roles s) left (jwtauth_permission route)
             then jwtauth_handler ord route w' (r'\<lparr>req_ctx := WithUser [] (Some left)\<rparr>) s1
             else Some (failed 403 (stored_denial (sv_enforcer s') left (jwtauth_permission route)) w', s1))"
    proof -
      obtain h s1 where h: "jwtauth_main sys mem_ord' ord err_text wd' route = Some h" "sv_fills s' s1"
          "h w' r' s' = stored_answer ord route (Inr u) w' r' s' s1"
        using served [unfolded serves_owner_def, rule_format, OF a(1,2) r(1) a(4-8), of w'] a(9) by auto
      then show ?thesis
        unfolding Let_def by (intro exI [of _ h] exI [of _ s1]) (simp add: stored_answer_def r)
    qed
  qed (fact login)+
qed

lemma revocation_effective_next_request_witness:
  "\<exists>token login. jwtauth_main tick rev sorted_list_of_fset no_text demo_time J_login = Some login \<and>
     login blank (login_request ''{\"username\":\"bob\"}'') jwtauth_state =
       Some (login_response token blank, jwtauth_state) \<and>
     (\<exists>h err s1. jwtauth_main tick rev sorted_list_of_fset no_text demo_time J_create = Some h \<and>
        h blank (bearer_request token) (jwtauth_state\<lparr>sv_enforcer :=
          snd (RevokeRole memory_ops ''bob'' ''editor'' (sv_enforcer jwtauth_state))\<rparr>) =
        Some (failed 403 err blank, s1))"
proof -
  let ?ord = "sorted_list_of_fset" and ?s = jwtauth_state and ?r = "login_request ''{\"username\":\"bob\"}''"
  let ?s' = "?s\<lparr>sv_enforcer := snd (RevokeRole memory_ops ''bob'' ''editor'' (sv_enforcer ?s))\<rparr>"
  have editor: "''editor'' |\<in>| fmdom (sv_roles ?s)"
    using jwtauth_role_lookup(1) by (auto simp: jwtauth_state_facts(3) intro: fmdomI)
  note revoked = revocation_effective_next_request [of tick demo_time demo_time
      "Time_Add demo_time 1000000000" ?s ?r "''bob''"
      "\<lparr>ID = ''bob'', Roles = [''editor'', ''viewer''], Direct = []\<rparr>" "''editor''" rev ?ord no_text blank,
      OF demo_login demo_modern jwtauth_state_facts(1) bob_login _ jwtauth_state_facts(4) editor]
  obtain token login where login: "jwtauth_main tick rev ?ord no_text demo_time J_login = Some login"
      "login blank ?r ?s = Some (login_response token blank, ?s)"
    and served: "\<forall>route w' r' s' wd' t wd'' mem_ord'. route \<noteq> J_login \<longrightarrow> visits mem_ord' \<longrightarrow>
       sv_enforcer s' = snd (RevokeRole memory_ops ''bob'' ''editor'' (sv_enforcer ?s)) \<longrightarrow>
       req_ctx r' = [] \<longrightarrow> Header_Get (req_header r') ''Authorization'' = ''Bearer '' @ token \<longrightarrow>
       tick wd' = (t, wd'') \<longrightarrow> time_ok t \<longrightarrow> nanos demo_time \<le> nanos t \<longrightarrow> nanos t \<le> token_end demo_time \<longrightarrow>
       (let left = \<lparr>ID = ''bob'', Roles = [''editor'', ''viewer''], Direct = []\<rparr>
          \<lparr>Roles := filter (\<lambda>r. r \<noteq> ''editor'') (Roles \<lparr>ID = ''bob'', Roles = [''editor'', ''viewer''], Direct = []\<rparr>)\<rparr> in
        \<exists>h s1. jwtauth_main tick mem_ord' ?ord no_text wd' route = Some h \<and> sv_fills s' s1 \<and>
          h w' r' s' =
            (if allowed (sv_roles ?s) left (jwtauth_permission route)
             then jwtauth_handler ?ord route w' (r'\<lparr>req_ctx := WithUser [] (Some left)\<rparr>) s1
             else Some (failed 403 (stored_denial (sv_enforcer s') left (jwtauth_permission route)) w', s1)))"
    using revoked by blast
  have now: "visits rev" "sv_enforcer ?s' = snd (RevokeRole memory_ops ''bob'' ''editor'' (sv_enforcer ?s))"
      "req_ctx (bearer_request token) = []" "nanos demo_time \<le> token_end demo_time" "J_create \<noteq> J_login"
    by (simp_all add: visits_def bearer_request_def token_end_demo) (simp add: nanos_def demo_time_def)
  have "\<exists>h s1. jwtauth_main tick rev ?ord no_text demo_time J_create = Some h \<and>
      h blank (bearer_request token) ?s' = Some (failed 403 (stored_denial (sv_enforcer ?s')
        \<lparr>ID = ''bob'', Roles = [''viewer''], Direct = []\<rparr> (jwtauth_permission J_create)) blank, s1)"
    using served [rule_format, OF now(5,1-3) bearer_request_header demo_login demo_simps(12) order.refl now(4),
        of blank]
    by (auto simp: Let_def jwtauth_state_facts(3) jwtauth_permission_def jwtauth_allowed)
  with login show ?thesis
    by blast
qed

end
