(* ===== verification/Spec2Isabelle.thy ===== *)
theory Spec2Isabelle
  imports Authz_Races Http_Properties Store_Morphism Branca_Token Jwt_Edges Libauth_Api Error_Text App_Console App_Example01 App_Jwtauth
begin

text \<open>
  A model of libauth, a Go library for role-based access control with HTTP guards and
  stateless tokens, and the theorems that say what its parts promise and where they do not
  keep the promise.

  The program. Package \<open>model\<close> holds permissions, roles, users and errors; \<open>store\<close> the
  persistence interface and an in-memory store; \<open>authz\<close> the \<open>Enforcer\<close>, which resolves role
  inheritance, answers access queries from per-user caches and invalidates those caches when
  users and roles are administered; \<open>middleware\<close> the \<open>net/http\<close> guards that identify a caller
  and ask an \<open>Authorizer\<close>; \<open>branca\<close> encrypted tokens in base62; \<open>jwt\<close> signed tokens. A request
  passes through a guard, the guard asks the enforcer, the enforcer asks its caches and its
  store. The programs under \<open>_examples\<close> put the parts together: two servers, one of which
  takes the identity of a caller from a signed token, a persistent store and a console program.

  The theories, in the order they build on one another.

  \<^item> \<open>Go_Prelude\<close>: Go's maps and sets as finite maps and sets, the unspecified order of
    \<open>range\<close> as a parameter \<open>ord\<close> with \<open>go_range ord\<close>, parent links and what is reachable along
    them, the collections \<open>store_simps\<close>, \<open>frame_simps\<close>, \<open>enf_defs\<close>.
  \<^item> \<open>Model_Types\<close>: \<open>model/*.go\<close> and all error files of the core. Errors are values of
    \<open>lib_error\<close>; \<open>err == sentinel\<close> is equality, \<open>errors.Is\<close> is \<open>errors_Is\<close>.
  \<^item> \<open>Store_Memory\<close>: the \<open>Store\<close> interface as the record \<open>store_ops\<close>, its contract as the
    locale \<open>store_contract\<close>, \<open>MemoryStore\<close> and the interpretation \<open>mem\<close>.
  \<^item> \<open>Authz_State\<close>: \<open>grantedSet\<close> (locale \<open>permission_index\<close>, interpretation \<open>gs\<close>), the
    \<open>Enforcer\<close> record, \<open>New\<close> with its options, and each critical section on the caches as one
    function.
  \<^item> \<open>Authz_Resolve\<close>: \<open>resolveRoles\<close> (a partial function, as the worklist could grow for ever
    over an arbitrary store; it returns over any store that keeps the contract),
    \<open>RolesFor\<close>, \<open>validateInheritance\<close> (bounded by the depth limit, so total).
  \<^item> \<open>Authz_Check\<close>: \<open>computeAndCache\<close> cut into its reading part \<open>computeSet\<close> and its critical
    section \<open>publishGranted\<close>, \<open>getGrantedSetFull\<close>, all queries, and the specification of access
    (\<open>effective_roles\<close>, \<open>granted_perms\<close>, \<open>allowed\<close>), which reads the stored data only.
  \<^item> \<open>Authz_Admin\<close>: every mutating operation of \<open>users.go\<close> and \<open>roles.go\<close>.
    \<open>Authz_Effects\<close> says what each leaves, \<open>Authz_Invariants\<close> that each keeps the enforcer's
    invariant and under which condition it keeps the cache coherent.
  \<^item> \<open>Authz_System\<close>: the operations as commands, the step relation, reachable states, runs
    of commands that satisfy \<open>cache_safe\<close>. \<open>Authz_Lemmas\<close> and \<open>Authz_Properties\<close>: the
    properties of the core. \<open>Authz_Concurrent\<close>: the calls of \<open>users.go\<close> that change one user
    cut at their store accesses and critical sections, two of them under any schedule; the
    locale \<open>commuting_threads\<close> turns steps that commute into serial order. \<open>SetParent\<close> of
    \<open>roles.go\<close> is cut into its check, its write and its eviction.
  \<^item> \<open>Authz_Reference\<close>: the abstract specification of the enforcer, a reference monitor of two
    tables without cache or index; \<open>serve\<close> gives every command's reply, and the enforcer over
    any lawful store refines the monitor. \<open>Authz_Races\<close>: the queries of \<open>check.go\<close> and
    \<open>DeleteUser\<close> cut at their accesses, any number of threads under any schedule; the locale
    \<open>stable_threads\<close> (what a thread guarantees and relies on) gives their joint end.
  \<^item> \<open>Http_Middleware\<close>: contexts, headers, identity functions and the four guards; the
    \<open>Authorizer\<close> interface as the locale \<open>authorizer\<close>, and a sublocale that makes every
    enforcer over a lawful store an authorizer. \<open>Http_Properties\<close>: the properties of guards.
    \<open>Go_Format\<close>: \<open>%q\<close> and \<open>%v\<close> of \<open>fmt\<close>, and that a quoted string can be read back.
    \<open>Error_Text\<close>: the texts of errors and of response bodies.
  \<^item> \<open>File_Store\<close>: the JSON-file store of \<open>_examples/customstore\<close> over a disk whose writes may
    fail, the second interpretation of \<open>store_contract\<close> (with a disk that works), and its
    reloading. \<open>Store_Morphism\<close>: the locale of a map between stores that keeps every operation,
    under which an enforcer cannot tell them apart; a working file store maps to its memory.
  \<^item> \<open>Radix_Digits\<close> (locale \<open>radix\<close>), \<open>Branca_Base62\<close>, \<open>Branca_Token\<close>: package \<open>branca\<close>. Both
    text codecs, base62 here and base64url below, are instances of the locale
    \<open>partial_codec\<close> of \<open>Go_Prelude\<close>.
  \<^item> \<open>Base64_Url\<close>, \<open>Crypto_Hmac\<close> (SHA-256 and HMAC, computed), \<open>Jwt_Algorithm\<close>: \<open>jwt/alg.go\<close>
    and \<open>jwt/errors.go\<close>. HS256 and EdDSA are interpretations of the locale
    \<open>signature_scheme\<close>; Ed25519 itself is a parameter.
  \<^item> \<open>Json_Lexer\<close>, \<open>Json_Text\<close>, \<open>Json_Valid\<close>: what \<open>encoding/json\<close> prints and parses, from
    UTF-8 upwards; \<open>Go_Time\<close>: 64-bit times and durations; \<open>Go_Members\<close>: maps with string keys.
  \<^item> \<open>Jwt_Claims\<close> and \<open>Jwt_Claims_Roundtrip\<close>: \<open>jwt/claims.go\<close>, both directions. \<open>Jwt_Token\<close>:
    \<open>jwt/jwt.go\<close> and \<open>jwt/symmetric.go\<close>. \<open>Jwt_Lemmas\<close>, \<open>Jwt_Properties\<close>, \<open>Jwt_Edges\<close>: what
    issuing and decoding come to.
  \<^item> \<open>Libauth_Api\<close>: the functions of the root package, which forward. \<open>App_Server\<close>: what the two
    example servers share; the enforcer inside a server interprets \<open>authorizer\<close> once more.
    \<open>App_Example01\<close>: the server of \<open>_examples/example01\<close> and its runs. \<open>App_Jwtauth\<close>: the log-in,
    the bearer identity and the routes of \<open>_examples/jwtauth\<close>. \<open>App_Console\<close>: what
    \<open>_examples/basic\<close> and the demonstration of \<open>_examples/customstore\<close> print.

  What the lemma groups show. The contract locales carry the client proofs once, and their
  interpretations discharge the laws for the code's own store, index, authorizer and codecs.
  The invariant (\<open>enforcer_inv\<close>) holds in every reachable state: the holder index and the
  memoised direct roles are exact, parents exist, inheritance has no cycle. The cache
  of granted sets (\<open>cache_coherent\<close>) is right as long as roles are administered only when nobody
  inherits the change; queries are then exactly the specification of access. Outside that
  condition it is not, and the stale answers are theorems as well: a permission that is revoked
  from a parent role survives in the caches of those who inherit it, a role that is created
  or deleted is missed in the same way, and a check overtaken by a change publishes old
  grants. The depth limit can be passed by \<open>SetParent\<close>, and two base62 decoders that run at the
  same time corrupt each other through a package variable. The
  enforcer refines its reference monitor reply by reply: the whole of it under the same
  condition, administration and role queries always. Queries can run at the same time as one
  another under any schedule, but one in the middle of \<open>DeleteUser\<close> brings a deleted user's
  access back for whoever is created under the name. Goroutines that administer
  different users can be interleaved at will and still refine the reference monitor, two on the same user can undo each other, and two
  that set parents can build the cycle both check for. A signed token carries its claims
  from \<open>Encode\<close> to \<open>Decode\<close>, lives exactly as long as its times say, and nothing is accepted
  that was not signed; the edges (an expiry at the epoch or out of range, subjects that are
  not UTF-8, line breaks) are theorems too. For the servers the layers meet: who may log in,
  whom a token is taken for, what a guarded route then does by what is stored at that moment,
  and what the table of articles can look like after any run.
  What a denied caller is sent names the user and the permission beyond doubt.

  Conventions. A Go string is a list of bytes, a slice a list (\<open>nil\<close> and the empty slice are
  both \<open>[]\<close>), a pointer an option where it may be \<open>nil\<close>, an \<open>error\<close> an option or the left of a
  sum, a call that may not return an option. Depths are \<open>int\<close>; bytes, and the token timestamp of
  32 bits, are words; the times and durations of \<open>jwt\<close> wrap at 64 bits (\<open>wrap64\<close>), those of
  \<open>branca\<close> are \<open>int\<close> nanoseconds. A clock is a function of a world that each call advances. An
  operation of the enforcer is modelled as one step; where two critical sections and a store
  access between them can be interleaved with other calls (\<open>directRolesOf\<close>, \<open>computeAndCache\<close>,
  the queries, the changes of a user, \<open>DeleteUser\<close>, \<open>SetParent\<close>, the base62 decoder) the pieces are functions of their own and
  the interleavings are stated over them.

  Bounds. \<open>resolveRoles\<close> needs one round per reachable role, the base62 decoder three steps per
  character and one more; the JSON parser reads one token per step and, as the library does,
  accepts at most 10000 open arrays and objects. The counter of the example servers has 64
  bits, so its properties hold for fewer than \<open>2^63 - 1\<close> requests.

  Not modelled. The texts of the errors of \<open>branca\<close> and \<open>jwt\<close>, which quote those of other
  libraries, and the text of the JSON file of the file store (its content is the dump that was
  encoded, permissions as the texts they are marshalled to, stray bytes replaced). A response holds what was encoded,
  an error value with a status or a JSON value; \<open>body_text\<close> is its text. Which code points above
  Latin 1 are printable is a parameter (a table of Unicode). The AEAD, the
  randomness of \<open>branca\<close>, Ed25519 and all clocks are parameters; of the first three only the
  hypotheses \<open>aead_ok\<close>, the length of what is read and \<open>ed25519_ok\<close> are used. \<open>net/http\<close> is
  represented by a request with its headers, body, matched path values and context, and the
  route its multiplexer has chosen; listening, logging and the removal of a temporary
  directory are left out.
\<close>

section \<open>From administration to the HTTP answer\<close>

text \<open>C33: Deleting a user locks the user out at once, through all layers: after safe operations and
\<open>DeleteUser\<close>, every one of the four guards answers a request that identifies itself as that user with
401 and \<open>ErrUserNotFound\<close>, whatever the caches held.\<close>

theorem deleted_user_locked_out:
  assumes e: "safe_reachable ms_users ms_roles memory_ops (fresh_enforcer depths) e"
    and mw: "mw_manager mw = mem_authorizer"
    and r: "\<not> alreadyResolved (req_ctx r)" "mw_identity mw r = Inr uid"
  defines "e1 \<equiv> snd (DeleteUser memory_ops uid e)"
  shows "(\<exists>e2. Require mw p next_h w r e1 = fail mw 401 ErrUserNotFound w r e2) \<and>
    (\<exists>e2. RequireAll mw ps next_h w r e1 = fail mw 401 ErrUserNotFound w r e2) \<and>
    (\<exists>e2. RequireAny mw ps next_h w r e1 = fail mw 401 ErrUserNotFound w r e2) \<and>
    (\<exists>e2. RequireRole mw role next_h w r e1 = fail mw 401 ErrUserNotFound w r e2)"
proof -
  have "enf_step memory_ops e (CmdDeleteUser uid) e1"
    unfolding e1_def by (rule enf_step [OF go_range_sorted]) simp
  then have e1: "safe_reachable ms_users ms_roles memory_ops (fresh_enforcer depths) e1"
    by (intro safe_step [OF e]) simp_all
  have "memory_ok (e_store e)"
    using fresh_safe_coherent [OF e] by blast
  then have "fmlookup (ms_users (e_store e1)) uid = None"
    by (simp add: e1_def mem.DeleteUser_effect mem.delete_user_uof)
  then have "identified (ms_users (e_store e1)) (mw_identity mw) r decide = Deny 401 ErrUserNotFound"
    for decide
    using r by (simp add: identified_def)
  then show ?thesis
    using mem.guards.Require_correct [OF fresh_guards_good [OF e1] mw, of p next_h w r]
      mem.guards.RequireAll_correct [OF fresh_guards_good [OF e1] mw, of ps next_h w r]
      mem.guards.RequireAny_correct [OF fresh_guards_good [OF e1] mw, of ps next_h w r]
      mem.guards.RequireRole_correct [OF fresh_guards_good [OF e1] mw, of role next_h w r]
    by auto
qed

theorem deleted_user_locked_out_witness:
  "(\<exists>e2. Require demo_mw (perm ''article'' ''read'') teapot blank (request_of ''bob'')
       (snd (DeleteUser memory_ops ''bob'' (after staff))) =
     fail demo_mw 401 ErrUserNotFound blank (request_of ''bob'') e2) \<and>
   (\<exists>e2. RequireAll demo_mw [perm ''article'' ''read''] teapot blank (request_of ''bob'')
       (snd (DeleteUser memory_ops ''bob'' (after staff))) =
     fail demo_mw 401 ErrUserNotFound blank (request_of ''bob'') e2)"
proof -
  have "\<not> alreadyResolved (req_ctx (request_of ''bob''))"
    and "mw_identity demo_mw (request_of ''bob'') = Inr ''bob''"
    by code_simp+
  then show ?thesis
    using deleted_user_locked_out [OF safely_reachable [OF safely_staff] demo_manager] by blast
qed

end
